(* ===== verification/Nah_Prelude.thy ===== *)
theory Nah_Prelude
  imports Main "HOL-Library.AList" "HOL-Library.Multiset" "HOL-Library.Char_ord" "HOL-Library.List_Lexorder"
begin

text \<open>
  Shared vocabulary of the development.

  \<^item> Go strings are byte sequences: \<open>string\<close> (a list of 8-bit characters), compared
    lexicographically by byte (\<^theory_text>\<open>List_Lexorder\<close>, \<^theory_text>\<open>Char_ord\<close>), as Go's \<open><\<close> does.
    The functions of Go's package \<open>strings\<close> that the code calls are defined here
    (\<open>strings_Cut\<close>, \<open>strings_Split\<close>, \<open>strings_HasPrefix\<close>, ...).
  \<^item> A Go map is an association list with distinct keys: \<open>map_of\<close> reads it, \<open>AList.update\<close>
    and \<open>AList.delete\<close> write it. The order of the list is one of the orders in which Go may
    range over the map; a theorem about every such list is a theorem about every order.
    Maps that are never ranged over with an effect (labels, annotations) are
    functions \<open>'k \<rightharpoonup> 'v\<close>; Go's nil map and empty map are not told apart by a read.
  \<^item> Group/version/kind triples are records with the fields the code reads. How the
    Kubernetes library prints them is not part of this repository: it is a parameter where used.
  \<^item> Go \<open>error\<close> values are the datatype \<open>err\<close>, a nil error is \<open>None\<close>.
\<close>

named_theorems strings_simps \<open>evaluation and laws of the Go string functions\<close>
named_theorems gomap_simps \<open>laws of Go maps kept as association lists\<close>

section \<open>Group, version, kind\<close>

record gvk =
  Group :: string
  Version :: string
  Kind :: string

record gk =
  gkGroup :: string
  gkKind :: string

record gvr =
  rGroup :: string
  rVersion :: string
  rResource :: string

definition GroupKind :: "gvk \<Rightarrow> gk" where
  "GroupKind g = \<lparr>gkGroup = Group g, gkKind = Kind g\<rparr>"

section \<open>Go maps\<close>

type_synonym ('k, 'v) gomap = "('k \<times> 'v) list"

abbreviation gomap_ok :: "('k, 'v) gomap \<Rightarrow> bool" where
  "gomap_ok m \<equiv> distinct (map fst m)"

lemma gomap_ok_update [gomap_simps, simp, intro]: "gomap_ok m \<Longrightarrow> gomap_ok (AList.update k v m)"
  by (rule distinct_update)

lemma gomap_ok_delete [gomap_simps, simp, intro]: "gomap_ok m \<Longrightarrow> gomap_ok (AList.delete k m)"
  by (rule distinct_delete)

lemma map_of_update [gomap_simps, simp]: "map_of (AList.update k v m) = (map_of m)(k \<mapsto> v)"
  by (rule update_conv')

lemma map_of_delete [gomap_simps, simp]: "map_of (AList.delete k m) = (map_of m)(k := None)"
  by (rule delete_conv')

lemma keys_update [gomap_simps]: "fst ` set (AList.update k v m) = insert k (fst ` set m)"
  by (simp add: dom_update)

lemma keys_delete [gomap_simps]: "fst ` set (AList.delete k m) = fst ` set m - {k}"
  by (metis delete_keys image_set set_removeAll)

lemma map_of_mem_iff [gomap_simps]: "gomap_ok m \<Longrightarrow> map_of m k = Some v \<longleftrightarrow> (k, v) \<in> set m"
  by (auto simp: map_of_eq_Some_iff)

lemma map_of_perm:
  assumes "gomap_ok m" and "gomap_ok m'" and "set m = set m'"
  shows "map_of m = map_of m'"
  using assms by (intro map_of_inject_set [THEN iffD2]) auto

section \<open>Go's package strings\<close>

fun strings_HasPrefix :: "string \<Rightarrow> string \<Rightarrow> bool" where
  "strings_HasPrefix s [] = True"
| "strings_HasPrefix [] (p # ps) = False"
| "strings_HasPrefix (c # s) (p # ps) = (c = p \<and> strings_HasPrefix s ps)"

definition strings_TrimPrefix :: "string \<Rightarrow> string \<Rightarrow> string" where
  "strings_TrimPrefix s p = (if strings_HasPrefix s p then drop (length p) s else s)"

definition strings_HasSuffix :: "string \<Rightarrow> string \<Rightarrow> bool" where
  "strings_HasSuffix s p = strings_HasPrefix (rev s) (rev p)"

definition strings_TrimSuffix :: "string \<Rightarrow> string \<Rightarrow> string" where
  "strings_TrimSuffix s p = (if strings_HasSuffix s p then take (length s - length p) s else s)"

fun strings_Contains :: "string \<Rightarrow> string \<Rightarrow> bool" where
  "strings_Contains [] p = (p = [])"
| "strings_Contains (c # s) p = (strings_HasPrefix (c # s) p \<or> strings_Contains s p)"

text \<open>The text before and after the first occurrence of \<open>sep\<close>, if there is one.\<close>

fun cut_at :: "string \<Rightarrow> string \<Rightarrow> (string \<times> string) option" where
  "cut_at [] sep = (if sep = [] then Some ([], []) else None)"
| "cut_at (c # s) sep =
     (if strings_HasPrefix (c # s) sep then Some ([], drop (length sep) (c # s))
      else map_option (\<lambda>(a, b). (c # a, b)) (cut_at s sep))"

definition strings_Cut :: "string \<Rightarrow> string \<Rightarrow> string \<times> string \<times> bool" where
  "strings_Cut s sep =
     (case cut_at s sep of None \<Rightarrow> (s, [], False) | Some (a, b) \<Rightarrow> (a, b, True))"

lemma HasPrefix_append [strings_simps, simp]: "strings_HasPrefix (p @ s) p"
  by (induction p) auto

lemma HasPrefix_iff: "strings_HasPrefix s p \<longleftrightarrow> (\<exists>t. s = p @ t)"
  by (induction s p rule: strings_HasPrefix.induct) auto

lemma TrimPrefix_append [strings_simps, simp]: "strings_TrimPrefix (p @ s) p = s"
  by (simp add: strings_TrimPrefix_def)

lemma HasSuffix_append [strings_simps, simp]: "strings_HasSuffix (s @ p) p"
  by (simp add: strings_HasSuffix_def)

lemma TrimSuffix_append [strings_simps, simp]: "strings_TrimSuffix (s @ p) p = s"
  by (simp add: strings_TrimSuffix_def)

lemma cut_at_Some: "cut_at s sep = Some (a, b) \<Longrightarrow> s = a @ sep @ b"
proof (induction s arbitrary: a)
  case Nil
  then show ?case by (auto split: if_splits)
next
  case (Cons c s)
  then show ?case by (auto simp: HasPrefix_iff split: if_splits)
qed

lemma cut_at_length: "cut_at s sep = Some (a, b) \<Longrightarrow> length b + length sep \<le> length s"
  by (drule cut_at_Some) simp

lemma cut_at_char_None [strings_simps, simp]: "c \<notin> set s \<Longrightarrow> cut_at s [c] = None"
  by (induction s) auto

lemma cut_at_char_append [strings_simps, simp]:
  "c \<notin> set s \<Longrightarrow> cut_at (s @ c # t) [c] = Some (s, t)"
  by (induction s) auto

lemma cut_at_char_None_iff: "cut_at s [c] = None \<longleftrightarrow> c \<notin> set s"
  by (induction s) auto

lemma strings_Cut_none [strings_simps, simp]:
  "c \<notin> set s \<Longrightarrow> strings_Cut s [c] = (s, [], False)"
  by (simp add: strings_Cut_def)

lemma strings_Cut_append [strings_simps, simp]:
  "c \<notin> set s \<Longrightarrow> strings_Cut (s @ c # t) [c] = (s, t, True)"
  by (simp add: strings_Cut_def)

text \<open>
  \<open>strings.Split\<close> for a non-empty separator (the only use in the code); the empty separator,
  which Go splits at every UTF-8 sequence, is not used and returns the string whole.
\<close>

function strings_Split :: "string \<Rightarrow> string \<Rightarrow> string list" where
  "strings_Split s sep =
     (if sep = [] then [s]
      else case cut_at s sep of None \<Rightarrow> [s] | Some (a, b) \<Rightarrow> a # strings_Split b sep)"
  by pat_completeness auto
termination
  by (relation "measure (\<lambda>(s, sep). length s)")
    (auto dest!: cut_at_length simp: neq_Nil_conv)

declare strings_Split.simps [simp del]

fun strings_Join :: "string list \<Rightarrow> string \<Rightarrow> string" where
  "strings_Join [] sep = []"
| "strings_Join [x] sep = x"
| "strings_Join (x # y # xs) sep = x @ sep @ strings_Join (y # xs) sep"

section \<open>Sorting by a printed key\<close>

text \<open>
  \<open>sort.Slice(xs, func(i, j) { return str(xs[i]) < str(xs[j]) })\<close>. Go's sort is not stable,
  so elements that print alike may come out in any order; \<open>sort_key\<close> picks one order.
  \<open>sort_by_unique\<close>: when no two elements print alike, every sorted permutation is this one.
\<close>

definition sort_by :: "('a \<Rightarrow> string) \<Rightarrow> 'a list \<Rightarrow> 'a list" where
  "sort_by str xs = sort_key str xs"

lemma set_sort_by [simp]: "set (sort_by str xs) = set xs"
  by (simp add: sort_by_def)

lemma length_sort_by [simp]: "length (sort_by str xs) = length xs"
  by (simp add: sort_by_def)

lemma distinct_sort_by [simp]: "distinct (sort_by str xs) = distinct xs"
  by (simp add: sort_by_def)

lemma sorted_sort_by [simp]: "sorted (map str (sort_by str xs))"
  by (simp add: sort_by_def)

lemma filter_eq_replicate: "filter ((=) k) xs = replicate (count (mset xs) k) k"
  by (induction xs) auto

lemma sort_by_unique:
  assumes "mset ys = mset xs" and "sorted (map str ys)" and "inj_on str (set xs)"
  shows "ys = sort_by str xs"
proof -
  have "sort_key str xs = ys"
  proof (rule properties_for_sort_key)
    show "filter (\<lambda>x. str k = str x) ys = filter (\<lambda>x. str k = str x) xs"
      if "k \<in> set ys" for k
    proof (cases "k \<in> set xs")
      case True
      then have *: "x \<in> set xs \<Longrightarrow> (str k = str x) = (k = x)" for x
        using assms(3) by (auto dest: inj_onD)
      have "set ys = set xs" using assms(1) by (rule mset_eq_setD)
      then have "filter (\<lambda>x. str k = str x) ys = filter ((=) k) ys"
        using * by (intro filter_cong) auto
      moreover have "filter (\<lambda>x. str k = str x) xs = filter ((=) k) xs"
        using * by (intro filter_cong) auto
      ultimately show ?thesis
        using assms(1) by (simp add: filter_eq_replicate)
    next
      case False
      with that assms(1) show ?thesis by (metis mset_eq_setD)
    qed
  qed (use assms in auto)
  then show ?thesis by (simp add: sort_by_def)
qed

section \<open>Errors\<close>

text \<open>
  The error values the code makes and inspects. \<open>ApiErr\<close> is an error that carries an API
  status (the reasons the code asks for are told apart); \<open>Wrap\<close> is \<open>fmt.Errorf\<close> with \<open>%w\<close> in
  last position, \<open>Err\<close> any other plain error. The remaining constructors are the repository's own
  error types: \<open>merr.Errors\<close>, \<open>runtime.errorList\<close>, \<open>runtime.handlerError\<close>,
  \<open>router.errorPrefix\<close>, \<open>conditions.ErrTerminal\<close>, and its sentinel values.
\<close>

datatype api_reason = NotFound | AlreadyExists | Conflict | Gone | OtherReason

datatype err =
    Err string
  | Wrap string err
  | ApiErr api_reason string
  | ErrReplace
  | ErrIgnore
  | ErrOwnerNotFound
  | ContextCanceled
  | DeadlineExceeded
  | MErrors "err list"
  | ErrorList "err list"
  | HandlerError string err
  | ErrorPrefix string err
  | ErrTerminal err

text \<open>
  What \<open>errors.Is\<close> and \<open>errors.As\<close> follow: the methods \<open>Unwrap() error\<close> and
  \<open>Unwrap() []error\<close>. \<open>errorList\<close> and \<open>handlerError\<close> have none.
\<close>

fun err_chain :: "err \<Rightarrow> err list" where
  "err_chain (Wrap s e) = Wrap s e # err_chain e"
| "err_chain (MErrors es) = MErrors es # concat (map err_chain es)"
| "err_chain (ErrorPrefix s e) = ErrorPrefix s e # err_chain e"
| "err_chain (ErrTerminal e) = ErrTerminal e # err_chain e"
| "err_chain e = [e]"

text \<open>Used with sentinel targets only (compared with \<open>==\<close>, as \<open>errors.Is\<close> does).\<close>

definition is_sentinel :: "err \<Rightarrow> bool" where
  "is_sentinel e \<longleftrightarrow> e = ErrReplace \<or> e = ErrIgnore \<or> e = ErrOwnerNotFound \<or>
     e = ContextCanceled \<or> e = DeadlineExceeded"

definition errors_Is :: "err option \<Rightarrow> err \<Rightarrow> bool" where
  "errors_Is e target = (case e of None \<Rightarrow> False | Some e \<Rightarrow> List.member (err_chain e) target)"

fun api_reason_of :: "err list \<Rightarrow> api_reason option" where
  "api_reason_of [] = None"
| "api_reason_of (ApiErr r m # es) = Some r"
| "api_reason_of (e # es) = api_reason_of es"

text \<open>The reason of the first API status error in the chain decides \<open>IsNotFound\<close> and its kin.\<close>

definition has_reason :: "api_reason \<Rightarrow> err option \<Rightarrow> bool" where
  "has_reason r e = (case e of None \<Rightarrow> False | Some e \<Rightarrow> api_reason_of (err_chain e) = Some r)"

abbreviation IsNotFound :: "err option \<Rightarrow> bool" where
  "IsNotFound \<equiv> has_reason NotFound"

abbreviation IsAlreadyExists :: "err option \<Rightarrow> bool" where
  "IsAlreadyExists \<equiv> has_reason AlreadyExists"

abbreviation IsConflict :: "err option \<Rightarrow> bool" where
  "IsConflict \<equiv> has_reason Conflict"

abbreviation IsGone :: "err option \<Rightarrow> bool" where
  "IsGone \<equiv> has_reason Gone"

lemma api_reason_of_append:
  "api_reason_of (xs @ ys) = (case api_reason_of xs of None \<Rightarrow> api_reason_of ys | Some r \<Rightarrow> Some r)"
  by (induction xs rule: api_reason_of.induct) auto

lemma has_reason_None [simp]: "\<not> has_reason r None"
  by (simp add: has_reason_def)

lemma has_reason_ApiErr [simp]: "has_reason r (Some (ApiErr r' m)) \<longleftrightarrow> r' = r"
  by (simp add: has_reason_def)

lemma has_reason_Wrap [simp]: "has_reason r (Some (Wrap s e)) = has_reason r (Some e)"
  by (simp add: has_reason_def)

lemma has_reason_Err [simp]: "\<not> has_reason r (Some (Err s))"
  by (simp add: has_reason_def)

lemma has_reason_sentinel [simp]:
  "\<not> has_reason r (Some ErrReplace)" "\<not> has_reason r (Some ErrIgnore)"
  "\<not> has_reason r (Some ErrOwnerNotFound)" "\<not> has_reason r (Some ContextCanceled)"
  "\<not> has_reason r (Some DeadlineExceeded)"
  by (simp_all add: has_reason_def)

lemma has_reason_unique: "has_reason r e \<Longrightarrow> has_reason r' e \<Longrightarrow> r = r'"
  by (auto simp: has_reason_def split: option.splits)

end
