(* ===== verification/Memo.thy ===== *)
theory Memo
  imports Main
begin

text \<open>
  The contract of the program's lookaside caches (\<open>patchCache\<close> of the applier, the four global
  caches of the REST mapper): an operation that answers from its table when the key is there,
  computes and stores otherwise, stores nothing on an error, and never changes a stored answer.
\<close>

locale memo =
  fixes run :: "'k \<Rightarrow> 's \<Rightarrow> ('e + 'v) \<times> 's"
    and cached :: "'s \<Rightarrow> 'k \<Rightarrow> 'v option"
  assumes hit: "cached s k = Some v \<Longrightarrow> run k s = (Inr v, s)"
    and stores: "run k s = (Inr v, s') \<Longrightarrow> cached s' k = Some v"
    and keeps: "run k s = (r, s') \<Longrightarrow> cached s k' = Some v \<Longrightarrow> cached s' k' = Some v"
    and no_error_stored: "run k s = (Inl e, s') \<Longrightarrow> cached s' k = None"
begin

text \<open>The state after running the operation on each key of a list.\<close>

abbreviation run_all :: "'k list \<Rightarrow> 's \<Rightarrow> 's" where
  "run_all ks s \<equiv> fold (\<lambda>k s. snd (run k s)) ks s"

lemma run_all_keeps: "cached s k = Some v \<Longrightarrow> cached (run_all ks s) k = Some v"
proof (induction ks arbitrary: s)
  case Nil
  then show ?case by simp
next
  case (Cons k' ks)
  have "cached (snd (run k' s)) k = Some v"
    using keeps [OF surjective_pairing Cons.prems] .
  then show ?case by (simp add: Cons.IH)
qed

text \<open>An answer, once given, is given again after any sequence of other calls.\<close>

lemma answer_stable:
  assumes "run k s = (Inr v, s')"
  shows "run k (run_all ks s') = (Inr v, run_all ks s')"
  using stores [OF assms] by (intro hit run_all_keeps)

lemma error_recomputed: "run k s = (Inl e, s') \<Longrightarrow> cached s k = None \<and> cached s' k = None"
  using hit no_error_stored by (metis Inl_Inr_False not_None_eq prod.inject)

end

end
