(* ===== verification/Error_Lists.thy ===== *)
theory Error_Lists
  imports Nah_Prelude
begin

text \<open>
  Collections of errors: \<open>merr.NewErrors\<close> and \<open>merr.Errors\<close> (pkg/merr/error.go), and
  \<open>errorList\<close>, \<open>handlerError\<close> of the runtime (pkg/runtime/sharedhandler.go), with the text
  each error prints. The locale \<open>error_collector\<close> is the contract both collectors keep and that
  every loop "append the errors, return the collection" of the program relies on.
\<close>

section \<open>What an error prints\<close>

text \<open>
  The loop both \<open>Errors.Error\<close> and \<open>errorList.Error\<close> run: a separator is written only when the
  buffer is not empty, so errors that print nothing at the front leave no separator.
\<close>

fun write_errors :: "string \<Rightarrow> string list \<Rightarrow> string" where
  "write_errors buf [] = buf"
| "write_errors buf (t # ts) =
     write_errors ((if 0 < length buf then buf @ '', '' else buf) @ t) ts"

fun err_text :: "err \<Rightarrow> string" where
  "err_text (Err s) = s"
| "err_text (Wrap s e) = s @ err_text e"
| "err_text (ApiErr r s) = s"
| "err_text ErrReplace = ''replace object with changes''"
| "err_text ErrIgnore = ''ignore handler error''"
| "err_text ErrOwnerNotFound = ''owner not found''"
| "err_text ContextCanceled = ''context canceled''"
| "err_text DeadlineExceeded = ''context deadline exceeded''"
| "err_text (MErrors es) = write_errors [] (map err_text es)"
| "err_text (ErrorList es) = write_errors [] (map err_text es)"
| "err_text (HandlerError n e) = ''handler '' @ n @ '': '' @ err_text e"
| "err_text (ErrorPrefix p e) = p @ err_text e"
| "err_text (ErrTerminal e) = err_text e"

lemma write_errors_nonempty:
  "buf \<noteq> [] \<Longrightarrow> write_errors buf ts = buf @ concat (map (\<lambda>t. '', '' @ t) ts)"
  by (induction ts arbitrary: buf) auto

lemma strings_Join_Cons: "strings_Join (t # ts) sep = t @ concat (map (\<lambda>t. sep @ t) ts)"
  by (induction ts arbitrary: t) auto

lemma write_errors_Join:
  assumes "\<forall>t \<in> set ts. t \<noteq> []"
  shows "write_errors [] ts = strings_Join ts '', ''"
proof (cases ts)
  case Nil
  then show ?thesis by simp
next
  case (Cons t ts')
  with assms have "t \<noteq> []" by simp
  with Cons show ?thesis by (simp add: write_errors_nonempty strings_Join_Cons)
qed

section \<open>merr\<close>

text \<open>The errors that are not nil, in order.\<close>

fun non_nil :: "err option list \<Rightarrow> err list" where
  "non_nil [] = []"
| "non_nil (None # es) = non_nil es"
| "non_nil (Some e # es) = e # non_nil es"

definition NewErrors :: "err option list \<Rightarrow> err option" where
  "NewErrors inErrors =
     (let errors = non_nil inErrors in
      if length errors = 0 then None
      else if length errors = 1 then Some (errors ! 0)
      else Some (MErrors errors))"

definition Errors_Err :: "err list \<Rightarrow> err option" where
  "Errors_Err es = NewErrors (map Some es)"

section \<open>errorList\<close>

definition ToErr :: "err list \<Rightarrow> err option" where
  "ToErr e = (case e of [] \<Rightarrow> None | [x] \<Rightarrow> Some x | _ \<Rightarrow> Some (ErrorList e))"

definition errorList_Cause :: "err list \<Rightarrow> err option" where
  "errorList_Cause e = (if 0 < length e then Some (e ! 0) else None)"

definition handlerError_Cause :: "err \<Rightarrow> err option" where
  "handlerError_Cause h = (case h of HandlerError n e \<Rightarrow> Some e | _ \<Rightarrow> None)"

section \<open>The contract of a collector\<close>

lemma non_nil_append [simp]: "non_nil (xs @ ys) = non_nil xs @ non_nil ys"
  by (induction xs rule: non_nil.induct) auto

lemma non_nil_map_Some [simp]: "non_nil (map Some es) = es"
  by (induction es) auto

lemma set_non_nil: "e \<in> set (non_nil es) \<longleftrightarrow> Some e \<in> set es"
  by (induction es rule: non_nil.induct) auto

lemma non_nil_Nil_iff: "non_nil es = [] \<longleftrightarrow> (\<forall>e \<in> set es. e = None)"
  by (induction es rule: non_nil.induct) auto

locale error_collector =
  fixes collect :: "err list \<Rightarrow> err option"
  assumes collect_Nil: "collect [] = None"
    and collect_single: "collect [e] = Some e"
    and collect_Some: "es \<noteq> [] \<Longrightarrow> collect es \<noteq> None"
begin

lemma collect_None_iff: "collect es = None \<longleftrightarrow> es = []"
  using collect_Nil collect_Some by blast

text \<open>A loop over steps that appends each step's error reports nothing exactly when all succeed.\<close>

lemma collect_steps_None_iff: "collect (non_nil (map f xs)) = None \<longleftrightarrow> (\<forall>x \<in> set xs. f x = None)"
  by (auto simp: collect_None_iff non_nil_Nil_iff)

lemma collect_one_failure:
  assumes "f x = Some e" and "\<forall>y \<in> set xs \<union> set ys. f y = None"
  shows "collect (non_nil (map f (xs @ x # ys))) = Some e"
proof -
  have "non_nil (map f xs) = []" "non_nil (map f ys) = []"
    using assms(2) by (simp_all add: non_nil_Nil_iff)
  with assms(1) show ?thesis by (simp add: collect_single)
qed

end

interpretation merr_collector: error_collector "\<lambda>es. NewErrors (map Some es)"
  by unfold_locales (auto simp: NewErrors_def Let_def)

interpretation errorList_collector: error_collector ToErr
  by unfold_locales (auto simp: ToErr_def split: list.splits)

lemma NewErrors_non_nil: "NewErrors es = NewErrors (map Some (non_nil es))"
  by (simp add: NewErrors_def)

lemma NewErrors_None_iff: "NewErrors es = None \<longleftrightarrow> (\<forall>e \<in> set es. e = None)"
  by (subst NewErrors_non_nil) (simp add: merr_collector.collect_None_iff non_nil_Nil_iff)

lemma NewErrors_steps: "NewErrors (map f xs) = None \<longleftrightarrow> (\<forall>x \<in> set xs. f x = None)"
  by (simp add: NewErrors_None_iff)

lemma NewErrors_append_None_iff:
  "NewErrors (xs @ ys) = None \<longleftrightarrow> NewErrors xs = None \<and> NewErrors ys = None"
  by (auto simp: NewErrors_None_iff)

section \<open>Inspection through a collection\<close>

lemma NewErrors_cases:
  obtains (none) "NewErrors es = None" "non_nil es = []"
    | (one) e where "NewErrors es = Some e" "non_nil es = [e]"
    | (many) "NewErrors es = Some (MErrors (non_nil es))" "2 \<le> length (non_nil es)"
proof (cases "non_nil es")
  case Nil
  then show ?thesis by (intro none) (simp_all add: NewErrors_def)
next
  case (Cons e rest)
  show ?thesis
  proof (cases rest)
    case Nil
    with Cons show ?thesis by (intro one) (simp_all add: NewErrors_def)
  next
    case (Cons e' rest')
    with \<open>non_nil es = e # rest\<close> show ?thesis by (intro many) (simp_all add: NewErrors_def)
  qed
qed

lemma errors_Is_NewErrors:
  assumes "is_sentinel t"
  shows "errors_Is (NewErrors es) t \<longleftrightarrow> (\<exists>e \<in> set es. errors_Is e t)"
proof -
  have t: "t \<noteq> MErrors xs" for xs using assms by (auto simp: is_sentinel_def)
  have "errors_Is (NewErrors es) t \<longleftrightarrow> (\<exists>e \<in> set (non_nil es). errors_Is (Some e) t)"
    by (cases rule: NewErrors_cases [of es]) (auto simp: errors_Is_def t)
  also have "\<dots> \<longleftrightarrow> (\<exists>e \<in> set es. errors_Is e t)"
    by (auto simp: set_non_nil errors_Is_def split: option.splits)
  finally show ?thesis .
qed

lemma api_reason_of_no: "\<forall>e \<in> set es. api_reason_of (err_chain e) = None \<Longrightarrow>
    api_reason_of (concat (map err_chain es)) = None"
  by (induction es) (auto simp: api_reason_of_append)

lemma has_reason_NewErrors_imp:
  assumes "has_reason r (NewErrors es)"
  shows "\<exists>e \<in> set es. has_reason r e"
proof -
  have *: "api_reason_of (concat (map err_chain xs)) = Some r \<Longrightarrow>
      \<exists>e \<in> set xs. api_reason_of (err_chain e) = Some r" for xs
    by (induction xs) (auto simp: api_reason_of_append split: option.splits)
  have "\<exists>e \<in> set (non_nil es). has_reason r (Some e)"
    using assms * by (cases rule: NewErrors_cases [of es]) (auto simp: has_reason_def)
  then show ?thesis by (auto simp: set_non_nil)
qed

text \<open>\<open>errorList\<close> has no \<open>Unwrap\<close>: two or more handler errors hide what they wrap.\<close>

lemma errorList_hides:
  assumes "2 \<le> length es" and "is_sentinel t"
  shows "\<not> errors_Is (ToErr es) t" and "\<not> has_reason r (ToErr es)"
  using assms by (auto simp: ToErr_def errors_Is_def has_reason_def is_sentinel_def split: list.splits)

end
