(* ===== verification/Nah_Keys.thy ===== *)
theory Nah_Keys
  imports Nah_Prelude
begin

text \<open>
  Object keys and work-queue keys. The program writes a namespace and a name as
  \<open>namespace/name\<close>, or as the bare name when there is no namespace, in six places (\<open>keyFunc\<close>,
  the router's \<open>toKey\<close>, \<open>ObjectKey.String\<close>, \<open>logKey\<close>, the webhook's \<open>resourceString\<close>,
  the test harness's \<open>toKey\<close>), and reads it back in two (\<open>KeyParse\<close> of the controller,
  the \<open>strings.Cut\<close> of the router). A queue key may carry a prefix that says why it was enqueued:
  \<open>"_t "\<close> (a trigger) and \<open>"_r "\<close> (a replay after a backoff). The locale \<open>key_codec\<close> is the
  contract between writer and reader.
\<close>

record ObjectKey =
  KeyName :: string
  KeyNamespace :: string

abbreviation mk_key :: "string \<Rightarrow> string \<Rightarrow> ObjectKey" where
  "mk_key ns n \<equiv> \<lparr>KeyName = n, KeyNamespace = ns\<rparr>"

section \<open>Writers\<close>

definition keyFunc :: "string \<Rightarrow> string \<Rightarrow> string" where
  "keyFunc namespace name = (if namespace = [] then name else namespace @ ''/'' @ name)"

definition toKey :: "string \<Rightarrow> string \<Rightarrow> string" where
  "toKey namespace name = (if namespace = [] then name else namespace @ ''/'' @ name)"

definition ObjectKey_String :: "ObjectKey \<Rightarrow> string" where
  "ObjectKey_String o' =
     (if KeyNamespace o' = [] then KeyName o' else KeyNamespace o' @ ''/'' @ KeyName o')"

definition resourceString :: "string \<Rightarrow> string \<Rightarrow> string" where
  "resourceString ns name = (if ns = [] then name else ns @ ''/'' @ name)"

definition tester_toKey :: "string \<Rightarrow> string \<Rightarrow> string" where
  "tester_toKey ns name = (if ns = [] then name else ns @ ''/'' @ name)"

section \<open>Readers\<close>

definition KeyParse :: "string \<Rightarrow> string \<times> string" where
  "KeyParse key =
     (case strings_Cut key '' '' of (special, key', ok) \<Rightarrow>
        let key'' = (if ok then key' else special) in
        (case strings_Cut key'' ''/'' of (namespace, name, ok') \<Rightarrow>
           if ok' then (namespace, name) else ([], namespace)))"

text \<open>The split in \<open>newRequestResponse\<close> and \<open>onChange\<close> of the router.\<close>

definition cut_key :: "string \<Rightarrow> string \<times> string" where
  "cut_key key =
     (case strings_Cut key ''/'' of (ns, name, ok) \<Rightarrow> if ok then (ns, name) else ([], key))"

section \<open>Prefixes\<close>

definition TriggerPrefix :: string where
  "TriggerPrefix = ''_t ''"

definition ReplayPrefix :: string where
  "ReplayPrefix = ''_r ''"

definition isSpecialKey :: "string \<Rightarrow> bool" where
  "isSpecialKey key \<longleftrightarrow> 2 < length key \<and> key ! 0 = CHR ''_'' \<and> key ! 2 = CHR '' ''"

record key_origin =
  fromTrigger :: bool
  fromReplay :: bool
  originKey :: string

text \<open>The first statements of \<open>onChange\<close>: what the prefixes say, and the key without them.\<close>

definition key_origin_of :: "string \<Rightarrow> key_origin" where
  "key_origin_of key =
     (let t = strings_HasPrefix key TriggerPrefix;
          key1 = (if t then strings_TrimPrefix key TriggerPrefix else key);
          r = strings_HasPrefix key1 ReplayPrefix;
          key2 = (if r then strings_TrimPrefix key1 ReplayPrefix else key1)
      in \<lparr>fromTrigger = (if r then False else t), fromReplay = r, originKey = key2\<rparr>)"

section \<open>The codec contract\<close>

locale key_codec =
  fixes enc :: "string \<Rightarrow> string \<Rightarrow> string"
    and dec :: "string \<Rightarrow> string \<times> string"
    and valid :: "string \<Rightarrow> string \<Rightarrow> bool"
  assumes dec_enc: "valid ns n \<Longrightarrow> dec (enc ns n) = (ns, n)"
begin

lemma enc_inj: "valid ns n \<Longrightarrow> valid ns' n' \<Longrightarrow> enc ns n = enc ns' n' \<longleftrightarrow> ns = ns' \<and> n = n'"
  using dec_enc by (metis prod.inject)

lemma enc_inj_on: "inj_on (\<lambda>(ns, n). enc ns n) {(ns, n). valid ns n}"
  by (rule inj_onI) (auto simp: enc_inj)

lemma distinct_enc:
  assumes "distinct ks" and "\<forall>(ns, n) \<in> set ks. valid ns n"
  shows "distinct (map (\<lambda>(ns, n). enc ns n) ks)"
proof -
  have "inj_on (\<lambda>(ns, n). enc ns n) (set ks)"
    using assms(2) by (intro inj_on_subset [OF enc_inj_on]) auto
  with assms(1) show ?thesis by (simp add: distinct_map)
qed

end

text \<open>A Kubernetes name holds no slash; a name in a queue key holds no space either.\<close>

definition no_slash :: "string \<Rightarrow> string \<Rightarrow> bool" where
  "no_slash ns n \<longleftrightarrow> CHR ''/'' \<notin> set ns \<and> CHR ''/'' \<notin> set n"

definition plain_key :: "string \<Rightarrow> string \<Rightarrow> bool" where
  "plain_key ns n \<longleftrightarrow> no_slash ns n \<and> CHR '' '' \<notin> set ns \<and> CHR '' '' \<notin> set n"

lemma cut_key_toKey: "no_slash ns n \<Longrightarrow> cut_key (toKey ns n) = (ns, n)"
  by (simp add: no_slash_def cut_key_def toKey_def)

lemma KeyParse_keyFunc: "plain_key ns n \<Longrightarrow> KeyParse (keyFunc ns n) = (ns, n)"
  by (simp add: plain_key_def no_slash_def KeyParse_def keyFunc_def Let_def)

interpretation router_key: key_codec toKey cut_key no_slash
  by unfold_locales (rule cut_key_toKey)

interpretation queue_key: key_codec keyFunc KeyParse plain_key
  by unfold_locales (rule KeyParse_keyFunc)

lemma ObjectKey_String_toKey: "ObjectKey_String k = toKey (KeyNamespace k) (KeyName k)"
  by (simp add: ObjectKey_String_def toKey_def)

lemma writers_agree:
  "toKey = keyFunc" "resourceString = keyFunc" "tester_toKey = keyFunc"
  by (simp_all add: fun_eq_iff toKey_def keyFunc_def resourceString_def tester_toKey_def)

definition key_ok :: "ObjectKey \<Rightarrow> bool" where
  "key_ok k \<longleftrightarrow> no_slash (KeyNamespace k) (KeyName k)"

lemma ObjectKey_String_inj: "inj_on ObjectKey_String {k. key_ok k}"
  by (rule inj_onI)
    (auto simp: ObjectKey_String_toKey key_ok_def router_key.enc_inj intro: ObjectKey.equality)

lemma ObjectKey_String_inj_on: "\<forall>k \<in> K. key_ok k \<Longrightarrow> inj_on ObjectKey_String K"
  by (rule inj_on_subset [OF ObjectKey_String_inj]) auto

section \<open>Prefix laws\<close>

lemma HasPrefix_plain:
  "CHR '' '' \<notin> set k \<Longrightarrow> \<not> strings_HasPrefix k TriggerPrefix \<and> \<not> strings_HasPrefix k ReplayPrefix"
  by (auto simp: HasPrefix_iff TriggerPrefix_def ReplayPrefix_def)

lemma Trigger_not_Replay: "\<not> strings_HasPrefix (TriggerPrefix @ k) ReplayPrefix"
  by (simp add: TriggerPrefix_def ReplayPrefix_def)

lemma key_origin_of_plain:
  "CHR '' '' \<notin> set k \<Longrightarrow>
     key_origin_of k = \<lparr>fromTrigger = False, fromReplay = False, originKey = k\<rparr>"
  by (simp add: key_origin_of_def Let_def HasPrefix_plain)

lemma key_origin_of_trigger:
  "CHR '' '' \<notin> set k \<Longrightarrow>
     key_origin_of (TriggerPrefix @ k) = \<lparr>fromTrigger = True, fromReplay = False, originKey = k\<rparr>"
  by (simp add: key_origin_of_def Let_def HasPrefix_plain)

lemma key_origin_of_replay:
  "key_origin_of (TriggerPrefix @ ReplayPrefix @ k) =
     \<lparr>fromTrigger = False, fromReplay = True, originKey = k\<rparr>"
  by (simp add: key_origin_of_def Let_def)

lemma isSpecialKey_prefixed [simp]:
  "isSpecialKey (TriggerPrefix @ k)" "isSpecialKey (ReplayPrefix @ k)"
  by (simp_all add: isSpecialKey_def TriggerPrefix_def ReplayPrefix_def)

lemma isSpecialKey_plain: "CHR '' '' \<notin> set k \<Longrightarrow> \<not> isSpecialKey k"
  by (auto simp: isSpecialKey_def) (metis Suc_1 nth_mem numeral_2_eq_2)

lemma plain_keyFunc: "plain_key ns n \<Longrightarrow> CHR '' '' \<notin> set (keyFunc ns n)"
  by (auto simp: plain_key_def keyFunc_def)

lemma KeyParse_special:
  assumes "plain_key ns n"
  shows "KeyParse (TriggerPrefix @ keyFunc ns n) = (ns, n)"
proof -
  have "strings_Cut (TriggerPrefix @ keyFunc ns n) '' '' = (''_t'', keyFunc ns n, True)"
    using strings_Cut_append [of "CHR '' ''" "''_t''" "keyFunc ns n"]
    by (simp add: TriggerPrefix_def)
  moreover have "strings_Cut (keyFunc ns n) '' '' = (keyFunc ns n, [], False)"
    using plain_keyFunc [OF assms] by simp
  ultimately show ?thesis
    using KeyParse_keyFunc [OF assms] by (simp add: KeyParse_def)
qed

end
