(* ===== verification/Go_Numbers.thy ===== *)
theory Go_Numbers
  imports Nah_Prelude
begin

text \<open>
  Decimal integers as text: what Go's \<open>strconv.Atoi\<close> and \<open>ParseInt\<close> in base 10 for 64 bits read
  (resource versions, \<open>json.Number\<close>), and the text that printing a number gives. Reading what was printed gives the number
  back, and texts of equal length are ordered as the numbers are.
\<close>

named_theorems decimal_simps \<open>reading the decimal text of a number\<close>

text \<open>\<open>strconv.Atoi\<close> for the decimal notation: an optional sign, digits, the range of \<open>int64\<close>.\<close>

definition is_digit :: "char \<Rightarrow> bool" where
  "is_digit c \<longleftrightarrow> CHR ''0'' \<le> c \<and> c \<le> CHR ''9''"

definition digit_val :: "char \<Rightarrow> nat" where
  "digit_val c = of_char c - 48"

fun parse_digits :: "nat \<Rightarrow> string \<Rightarrow> nat option" where
  "parse_digits acc [] = Some acc"
| "parse_digits acc (c # s) = (if is_digit c then parse_digits (10 * acc + digit_val c) s else None)"

definition parse_nat :: "string \<Rightarrow> nat option" where
  "parse_nat s = (if s = [] then None else parse_digits 0 s)"

definition strconv_Atoi :: "string \<Rightarrow> int option" where
  "strconv_Atoi s =
     (case (case s of
              c # t \<Rightarrow> if c = CHR ''-'' then map_option (\<lambda>n. - int n) (parse_nat t)
                       else if c = CHR ''+'' then map_option int (parse_nat t)
                       else map_option int (parse_nat s)
            | [] \<Rightarrow> None) of
        None \<Rightarrow> None
      | Some i \<Rightarrow> if - (2 ^ 63) \<le> i \<and> i < 2 ^ 63 then Some i else None)"

text \<open>The decimal text of a number, as Go and the API server print it.\<close>

fun decimal :: "nat \<Rightarrow> string" where
  "decimal n = (if n < 10 then [char_of (48 + n)] else decimal (n div 10) @ [char_of (48 + n mod 10)])"

declare decimal.simps [simp del]

lemma digit_char: "d < 10 \<Longrightarrow> is_digit (char_of (48 + d)) \<and> digit_val (char_of (48 + d)) = d"
  by (simp add: is_digit_def digit_val_def less_eq_char_def)

lemma digit_less: "a < 10 \<Longrightarrow> b < 10 \<Longrightarrow> (char_of (48 + a :: nat) :: char) < char_of (48 + b) \<longleftrightarrow> a < b"
  by (simp add: less_char_def)

lemma parse_digits_append: "parse_digits acc (s @ t) =
    (case parse_digits acc s of None \<Rightarrow> None | Some v \<Rightarrow> parse_digits v t)"
  by (induction s arbitrary: acc) auto

lemma parse_decimal: "parse_digits 0 (decimal n) = Some n"
proof (induction n rule: decimal.induct)
  case (1 n)
  show ?case
  proof (cases "n < 10")
    case True
    then show ?thesis using digit_char [of n] by (subst decimal.simps) simp
  next
    case False
    then show ?thesis
      using 1 digit_char [of "n mod 10"] by (subst decimal.simps) (simp add: parse_digits_append)
  qed
qed

lemma decimal_nonempty: "decimal n \<noteq> []"
  by (subst decimal.simps) simp

lemma decimal_hd: "is_digit (hd (decimal n))"
proof (induction n rule: decimal.induct)
  case (1 n)
  show ?case
    using 1 digit_char [of n] decimal_nonempty [of "n div 10"]
    by (subst decimal.simps) simp
qed

lemma Atoi_decimal [decimal_simps]: "n < 2 ^ 63 \<Longrightarrow> strconv_Atoi (decimal n) = Some (int n)"
  using decimal_hd [of n] decimal_nonempty [of n] parse_decimal [of n]
  by (cases "decimal n") (auto simp: strconv_Atoi_def parse_nat_def is_digit_def less_eq_char_def)

lemma length_decimal_mono: "m \<le> n \<Longrightarrow> length (decimal m) \<le> length (decimal n)"
proof (induction n arbitrary: m rule: decimal.induct)
  case (1 n)
  show ?case
  proof (cases "m < 10")
    case True
    then show ?thesis
      using decimal_nonempty [of n] by (subst decimal.simps) (simp add: Suc_leI)
  next
    case False
    with 1(2) have "\<not> n < 10" "m div 10 \<le> n div 10" by (auto simp: div_le_mono)
    with 1(1) [OF \<open>\<not> n < 10\<close> this(2)] False show ?thesis
      by (subst decimal.simps, subst (2) decimal.simps) simp
  qed
qed

lemma snoc_less:
  "length xs = length ys \<Longrightarrow> (xs @ [a] < ys @ [b :: char]) \<longleftrightarrow> xs < ys \<or> (xs = ys \<and> a < b)"
  by (induction xs ys rule: list_induct2) auto

lemma decimal_less:
  "length (decimal m) = length (decimal n) \<Longrightarrow> decimal m < decimal n \<longleftrightarrow> m < n"
proof (induction n arbitrary: m rule: decimal.induct)
  case (1 n)
  have len: "length (decimal k) = 1 \<longleftrightarrow> k < 10" for k
    using decimal_nonempty [of "k div 10"] by (subst decimal.simps) auto
  show ?case
  proof (cases "n < 10")
    case True
    with 1(2) len have "m < 10" by metis
    with True show ?thesis
      using digit_less [of m n] by (simp add: decimal.simps [of m] decimal.simps [of n])
  next
    case False
    with 1(2) len have m: "\<not> m < 10" by metis
    then have eq: "length (decimal (m div 10)) = length (decimal (n div 10))"
      using 1(2) False by (simp add: decimal.simps [of m] decimal.simps [of n])
    have inj: "decimal (m div 10) = decimal (n div 10) \<longleftrightarrow> m div 10 = n div 10"
      using parse_decimal by (metis option.inject)
    have "decimal m < decimal n \<longleftrightarrow> m div 10 < n div 10 \<or> (m div 10 = n div 10 \<and> m mod 10 < n mod 10)"
      using m False 1(1) [OF False eq] digit_less [of "m mod 10" "n mod 10"]
      by (simp add: decimal.simps [of m] decimal.simps [of n] snoc_less [OF eq] inj)
    also have "\<dots> \<longleftrightarrow> m < n"
      using div_mult_mod_eq [of m 10] div_mult_mod_eq [of n 10] mod_less_divisor [of 10 m] mod_less_divisor [of 10 n]
      by linarith
    finally show ?thesis .
  qed
qed

definition int_text :: "int \<Rightarrow> string" where
  "int_text i = (if i < 0 then CHR ''-'' # decimal (nat (- i)) else decimal (nat i))"

lemma Atoi_int_text [decimal_simps]:
  "- (2 ^ 63) \<le> i \<Longrightarrow> i < 2 ^ 63 \<Longrightarrow> strconv_Atoi (int_text i) = Some i"
  using Atoi_decimal [of "nat i"] parse_decimal [of "nat (- i)"] decimal_nonempty [of "nat (- i)"]
  by (auto simp: int_text_def strconv_Atoi_def parse_nat_def)

lemma Atoi_range: "strconv_Atoi s = Some i \<Longrightarrow> - (2 ^ 63) \<le> i \<and> i < 2 ^ 63"
  by (auto simp: strconv_Atoi_def split: option.splits if_splits)

text \<open>What \<open>i, _ := strconv.Atoi(s)\<close> leaves in \<open>i\<close>: 0 for a text that is no number, the nearest bound for one out of range.\<close>

definition Atoi_value :: "string \<Rightarrow> int" where
  "Atoi_value s =
     (case (case s of
              c # t \<Rightarrow> if c = CHR ''-'' then map_option (\<lambda>n. - int n) (parse_nat t)
                       else if c = CHR ''+'' then map_option int (parse_nat t)
                       else map_option int (parse_nat s)
            | [] \<Rightarrow> None) of
        None \<Rightarrow> 0
      | Some i \<Rightarrow> max (- (2 ^ 63)) (min i (2 ^ 63 - 1)))"

lemma Atoi_value_ok: "strconv_Atoi s = Some i \<Longrightarrow> Atoi_value s = i"
  by (auto simp: strconv_Atoi_def Atoi_value_def split: option.splits if_splits list.splits)

lemma Atoi_value_range: "- (2 ^ 63) \<le> Atoi_value s \<and> Atoi_value s < 2 ^ 63"
  by (auto simp: Atoi_value_def split: option.splits)

end
