(* ===== verification/Responder.thy ===== *)
theory Responder
  imports Main
begin

text \<open>
  The contract of \<open>Response.RetryAfter\<close> (pkg/router/types.go), which the router's response, its wrapper
  for finalizers and the response of the test harness share: \<open>delay\<close> reads the delay, \<open>rest\<close> what a retry leaves alone.
\<close>

text \<open>What every implementation of \<open>Response\<close> promises about retries.\<close>

locale responder =
  fixes delay :: "'r \<Rightarrow> int" and rest :: "'r \<Rightarrow> 'b" and retry :: "int \<Rightarrow> 'r \<Rightarrow> 'r"
  assumes first_wins: "delay r = 0 \<Longrightarrow> delay (retry d r) = d"
    and no_invention: "delay (retry d r) = d \<or> delay (retry d r) = delay r"
    and keeps_rest: "rest (retry d r) = rest r"
begin

lemma retries_rest: "rest (fold retry ds r) = rest r"
  by (induction ds arbitrary: r) (simp_all add: keeps_rest)

text \<open>A handler that asks for a retry gets one of the delays it asked for.\<close>

lemma retries_asked: "delay (fold retry ds r) \<in> insert (delay r) (set ds)"
proof (induction ds arbitrary: r)
  case Nil
  then show ?case by simp
next
  case (Cons d ds)
  from Cons.IH [of "retry d r"] no_invention [where d = d and r = r] show ?case by auto
qed

lemma retries_positive:
  assumes "\<forall>d \<in> set ds. 0 < d" and "0 < delay r \<or> ds \<noteq> [] \<and> delay r = 0"
  shows "0 < delay (fold retry ds r)"
  using assms
proof (induction ds arbitrary: r)
  case Nil
  then show ?case by simp
next
  case (Cons d ds)
  have "0 < delay (retry d r)"
    using Cons.prems first_wins [where d = d and r = r] no_invention [where d = d and r = r] by force
  then show ?case using Cons.IH [of "retry d r"] Cons.prems(1) by simp
qed

end

end
