(* ===== verification/Kube_Object.thy ===== *)
theory Kube_Object
  imports Nah_Keys
begin

text \<open>
  The data the program handles: untyped JSON values (Go's \<open>any\<close> trees, as
  \<open>map[string]any\<close>, \<open>[]any\<close> and scalars) and Kubernetes objects, that is what a
  \<open>client.Object\<close> gives through the accessors the code calls. The object types themselves
  and their serialisation belong to the Kubernetes libraries.
\<close>

section \<open>Untyped values\<close>

datatype json =
    JNull
  | JBool bool
  | JNumber string      \<comment> \<open>a \<open>json.Number\<close>, the literal as text\<close>
  | JInt int            \<comment> \<open>an \<open>int64\<close>\<close>
  | JFloat string       \<comment> \<open>a \<open>float64\<close>, by its text\<close>
  | JStr string
  | JBytes string       \<comment> \<open>a \<open>[]byte\<close>\<close>
  | JList "json list"
  | JMap "(string \<times> json) list"

type_synonym jmap = "(string, json) gomap"

text \<open>\<open>v, _ := value.(map[string]any)\<close>: anything else gives the nil map.\<close>

definition as_map :: "json \<Rightarrow> jmap" where
  "as_map v = (case v of JMap m \<Rightarrow> m | _ \<Rightarrow> [])"

definition as_map_opt :: "json option \<Rightarrow> jmap" where
  "as_map_opt v = (case v of None \<Rightarrow> [] | Some v \<Rightarrow> as_map v)"

section \<open>Objects\<close>

record OwnerReference =
  refAPIVersion :: string
  refKind :: string
  refName :: string
  refUID :: string
  refController :: bool
  refBlockOwnerDeletion :: bool

text \<open>
  \<open>GoType\<close> is the dynamic Go type of the value behind the interface, \<open>TypeMeta\<close> the
  \<open>apiVersion\<close> and \<open>kind\<close> written in it (which Go types often leave empty),
  \<open>DeletionTimestamp = None\<close> a zero timestamp, \<open>Status = None\<close> a type without a status field,
  \<open>Body\<close> the rest of the content. \<open>None\<close> for labels or annotations of a key means that the map
  has no such key; \<open>get_str\<close> is Go's read of a missing key, the empty string.
\<close>

record kobj =
  GoType :: string
  TypeMeta :: "string \<times> string"
  Namespace :: string
  Name :: string
  UID :: string
  ResourceVersion :: string
  Generation :: int
  CreationTimestamp :: "int option"
  DeletionTimestamp :: "int option"
  Labels :: "string \<rightharpoonup> string"
  Annotations :: "string \<rightharpoonup> string"
  Finalizers :: "string list"
  OwnerReferences :: "OwnerReference list"
  Status :: "json option"
  Body :: json

definition get_str :: "(string \<rightharpoonup> string) \<Rightarrow> string \<Rightarrow> string" where
  "get_str m k = (case m k of None \<Rightarrow> [] | Some v \<Rightarrow> v)"

definition key_of :: "kobj \<Rightarrow> ObjectKey" where
  "key_of obj = \<lparr>KeyName = Name obj, KeyNamespace = Namespace obj\<rparr>"

definition is_zero_time :: "int option \<Rightarrow> bool" where
  "is_zero_time t \<longleftrightarrow> t = None"

text \<open>An object with nothing set, for examples.\<close>

definition empty_obj :: kobj where
  "empty_obj = \<lparr>GoType = ''Object'', TypeMeta = ([], []), Namespace = [], Name = [], UID = [],
     ResourceVersion = [], Generation = 0, CreationTimestamp = None, DeletionTimestamp = None,
     Labels = (\<lambda>_. None), Annotations = (\<lambda>_. None), Finalizers = [], OwnerReferences = [],
     Status = None, Body = JNull\<rparr>"

lemma empty_obj_simps [simp]:
  "GoType empty_obj = ''Object''" "TypeMeta empty_obj = ([], [])" "Namespace empty_obj = []"
  "Name empty_obj = []" "UID empty_obj = []" "ResourceVersion empty_obj = []"
  "Generation empty_obj = 0" "CreationTimestamp empty_obj = None" "DeletionTimestamp empty_obj = None"
  "Labels empty_obj = (\<lambda>_. None)" "Annotations empty_obj = (\<lambda>_. None)"
  "Finalizers empty_obj = []" "OwnerReferences empty_obj = []" "Status empty_obj = None"
  "Body empty_obj = JNull"
  by (simp_all add: empty_obj_def)

lemma get_str_update [simp]: "get_str (m(k \<mapsto> v)) k' = (if k = k' then v else get_str m k')"
  by (simp add: get_str_def)

lemma get_str_empty [simp]: "get_str (\<lambda>_. None) k = []"
  by (simp add: get_str_def)

lemma key_of_simps [simp]: "KeyName (key_of o') = Name o'" "KeyNamespace (key_of o') = Namespace o'"
  by (simp_all add: key_of_def)

section \<open>Selectors\<close>

text \<open>
  Label and field selectors are values of library interfaces: the code calls their \<open>Matches\<close> and
  \<open>String\<close> methods and compares them with nil.
\<close>

record label_selector =
  selMatches :: "(string \<rightharpoonup> string) \<Rightarrow> bool"
  selString :: string

record field_selector =
  fieldMatches :: "kobj \<Rightarrow> bool"
  fieldString :: string

end
