(* ===== verification/Object_Set.thy ===== *)
theory Object_Set
  imports Kube_Object
begin

text \<open>
  pkg/apply/objectset/objectset.go: the set of desired objects, indexed by
  group/version/kind and by group/kind, with the order in which kinds were first seen.
  \<open>gvkFor\<close> is the library's \<open>apiutil.GVKForObject\<close> for the set's scheme, \<open>gvkStr\<close>
  the library's \<open>GroupVersionKind.String\<close>.
\<close>

type_synonym ObjectByKey = "(ObjectKey, kobj) gomap"
type_synonym ObjectByGVK = "(gvk, ObjectByKey) gomap"
type_synonym ObjectByGK = "(gk, ObjectByKey) gomap"

definition get_objs :: "('k, ObjectByKey) gomap \<Rightarrow> 'k \<Rightarrow> ObjectByKey" where
  "get_objs m k = (case map_of m k of None \<Rightarrow> [] | Some objs \<Rightarrow> objs)"

definition ObjectByGVK_Add :: "gvk \<Rightarrow> kobj \<Rightarrow> ObjectByGVK \<Rightarrow> ObjectByGVK" where
  "ObjectByGVK_Add g obj o' = AList.update g (AList.update (key_of obj) obj (get_objs o' g)) o'"

definition ObjectByGK_Add :: "gvk \<Rightarrow> kobj \<Rightarrow> ObjectByGK \<Rightarrow> ObjectByGK" where
  "ObjectByGK_Add g obj o' =
     (let k = GroupKind g in
      AList.update k (AList.update (key_of obj) obj (get_objs o' k)) o')"

record ObjectSet =
  objects :: ObjectByGVK
  objectsByGK :: ObjectByGK
  objOrder :: "kobj list"
  gvkOrder :: "gvk list"
  gvkSeen :: "gvk \<Rightarrow> bool"

definition empty_ObjectSet :: ObjectSet where
  "empty_ObjectSet = \<lparr>objects = [], objectsByGK = [], objOrder = [], gvkOrder = [], gvkSeen = (\<lambda>_. False)\<rparr>"

definition ObjectSet_add :: "(kobj \<Rightarrow> err + gvk) \<Rightarrow> ObjectSet \<Rightarrow> kobj option \<Rightarrow> ObjectSet \<times> err option" where
  "ObjectSet_add gvkFor o' obj =
     (case obj of
        None \<Rightarrow> (o', None)
      | Some obj \<Rightarrow>
          (case gvkFor obj of
             Inl err \<Rightarrow> (o', Some err)
           | Inr g \<Rightarrow>
               let o1 = o'\<lparr>objects := ObjectByGVK_Add g obj (objects o'),
                           objectsByGK := ObjectByGK_Add g obj (objectsByGK o'),
                           objOrder := objOrder o' @ [obj]\<rparr>
               in (if gvkSeen o1 g then o1
                   else o1\<lparr>gvkSeen := (gvkSeen o1)(g := True), gvkOrder := gvkOrder o1 @ [g]\<rparr>,
                   None)))"

fun ObjectSet_Add :: "(kobj \<Rightarrow> err + gvk) \<Rightarrow> ObjectSet \<Rightarrow> kobj option list \<Rightarrow> ObjectSet \<times> err option" where
  "ObjectSet_Add gvkFor o' [] = (o', None)"
| "ObjectSet_Add gvkFor o' (obj # objs) =
     (case ObjectSet_add gvkFor o' obj of
        (o1, Some err) \<Rightarrow> (o1, Some err)
      | (o1, None) \<Rightarrow> ObjectSet_Add gvkFor o1 objs)"

definition NewObjectSet :: "(kobj \<Rightarrow> err + gvk) \<Rightarrow> kobj option list \<Rightarrow> ObjectSet \<times> err option" where
  "NewObjectSet gvkFor objs = ObjectSet_Add gvkFor empty_ObjectSet objs"

definition ObjectSet_Contains :: "ObjectSet \<Rightarrow> gk \<Rightarrow> ObjectKey \<Rightarrow> bool" where
  "ObjectSet_Contains o' k key \<longleftrightarrow> map_of (get_objs (objectsByGK o') k) key \<noteq> None"

definition ObjectSet_All :: "ObjectSet \<Rightarrow> kobj list" where
  "ObjectSet_All o' = objOrder o'"

definition ObjectSet_Len :: "ObjectSet \<Rightarrow> nat" where
  "ObjectSet_Len o' = length (objects o')"

definition ObjectSet_GVKOrder :: "(gvk \<Rightarrow> string) \<Rightarrow> ObjectSet \<Rightarrow> gvk list \<Rightarrow> gvk list" where
  "ObjectSet_GVKOrder gvkStr o' known =
     gvkOrder o' @ sort_by gvkStr (filter (\<lambda>g. \<not> gvkSeen o' g) known)"

definition ObjectSet_GVKs :: "(gvk \<Rightarrow> string) \<Rightarrow> ObjectSet \<Rightarrow> gvk list" where
  "ObjectSet_GVKs gvkStr o' = ObjectSet_GVKOrder gvkStr o' []"

text \<open>\<open>sets.List\<close>: the members of a set in order.\<close>

definition sets_List :: "string list \<Rightarrow> string list" where
  "sets_List xs = sort_by id (remdups xs)"

lemma sets_List_sorted: "sorted (sets_List xs) \<and> distinct (sets_List xs) \<and> set (sets_List xs) = set xs"
  using sorted_sort_by [of id "remdups xs"] by (simp add: sets_List_def)

definition ObjectByKey_Namespaces :: "ObjectByKey \<Rightarrow> string list" where
  "ObjectByKey_Namespaces o' = sets_List (map (KeyNamespace \<circ> fst) o')"

definition ObjectSet_Namespaces :: "ObjectSet \<Rightarrow> string list" where
  "ObjectSet_Namespaces o' = sets_List (concat (map (\<lambda>(g, objsByKey). map (KeyNamespace \<circ> fst) objsByKey) (objects o')))"

text \<open>The namespaces of a set are those of the objects that were added to it, each once, in order.\<close>

lemma ObjectSet_Namespaces_set:
  "ns \<in> set (ObjectSet_Namespaces o') \<longleftrightarrow>
     (\<exists>kind \<in> set (objects o'). \<exists>entry \<in> set (snd kind). KeyNamespace (fst entry) = ns)"
proof -
  let ?all = "concat (map (\<lambda>(g, objsByKey). map (KeyNamespace \<circ> fst) objsByKey) (objects o'))"
  have "ns \<in> set (ObjectSet_Namespaces o') \<longleftrightarrow> ns \<in> set ?all"
    using sets_List_sorted [of ?all] by (simp only: ObjectSet_Namespaces_def)
  also have "\<dots> \<longleftrightarrow> (\<exists>kind \<in> set (objects o'). ns \<in> (\<lambda>entry. KeyNamespace (fst entry)) ` set (snd kind))"
    by (simp add: split_beta)
  also have "\<dots> \<longleftrightarrow> (\<exists>kind \<in> set (objects o'). \<exists>entry \<in> set (snd kind). KeyNamespace (fst entry) = ns)"
    unfolding image_iff by (simp only: eq_commute)
  finally show ?thesis .
qed

section \<open>Abstraction: a lookup by kind and key\<close>

definition lookup_obj :: "ObjectSet \<Rightarrow> gvk \<Rightarrow> ObjectKey \<rightharpoonup> kobj" where
  "lookup_obj o' g = map_of (get_objs (objects o') g)"

definition set_inv :: "ObjectSet \<Rightarrow> bool" where
  "set_inv o' \<longleftrightarrow>
     gomap_ok (objects o') \<and> (\<forall>(g, m) \<in> set (objects o'). gomap_ok m) \<and>
     distinct (gvkOrder o') \<and>
     (\<forall>g. gvkSeen o' g \<longleftrightarrow> g \<in> set (gvkOrder o')) \<and>
     fst ` set (objects o') = set (gvkOrder o') \<and>
     (\<forall>k key. ObjectSet_Contains o' k key \<longleftrightarrow> (\<exists>g. GroupKind g = k \<and> lookup_obj o' g key \<noteq> None))"

lemma get_objs_update [simp]:
  "get_objs (AList.update k v m) k' = (if k = k' then v else get_objs m k')"
  by (simp add: get_objs_def)

lemma lookup_obj_Add:
  "map_of (get_objs (ObjectByGVK_Add g obj o') g') =
     (if g' = g then (map_of (get_objs o' g))(key_of obj \<mapsto> obj) else map_of (get_objs o' g'))"
  by (simp add: ObjectByGVK_Add_def)

lemma set_inv_empty: "set_inv empty_ObjectSet"
  by (simp add: set_inv_def empty_ObjectSet_def ObjectSet_Contains_def lookup_obj_def get_objs_def)

lemma gomap_ok_get_objs:
  "gomap_ok m \<Longrightarrow> \<forall>(g, objs) \<in> set m. gomap_ok objs \<Longrightarrow> gomap_ok (get_objs m g)"
  by (auto simp: get_objs_def split: option.splits dest: map_of_SomeD)

lemma set_update_subset: "set (AList.update k v m) \<subseteq> insert (k, v) (set m)"
  by (induction m) auto

lemma ObjectSet_add_Some:
  assumes "gvkFor obj = Inr g"
  shows "snd (ObjectSet_add gvkFor o' (Some obj)) = None"
    and "lookup_obj (fst (ObjectSet_add gvkFor o' (Some obj))) g' =
      (if g' = g then (lookup_obj o' g)(key_of obj \<mapsto> obj) else lookup_obj o' g')"
    and "set_inv o' \<Longrightarrow> set_inv (fst (ObjectSet_add gvkFor o' (Some obj)))"
    and "set (gvkOrder (fst (ObjectSet_add gvkFor o' (Some obj)))) = insert g (set (gvkOrder o')) \<or> \<not> set_inv o'"
    and "objOrder (fst (ObjectSet_add gvkFor o' (Some obj))) = objOrder o' @ [obj]"
proof -
  show "snd (ObjectSet_add gvkFor o' (Some obj)) = None"
    using assms by (simp add: ObjectSet_add_def Let_def)
  show lk: "lookup_obj (fst (ObjectSet_add gvkFor o' (Some obj))) g' =
      (if g' = g then (lookup_obj o' g)(key_of obj \<mapsto> obj) else lookup_obj o' g')" for g'
    using assms by (simp add: ObjectSet_add_def Let_def lookup_obj_def lookup_obj_Add)
  show "set (gvkOrder (fst (ObjectSet_add gvkFor o' (Some obj)))) = insert g (set (gvkOrder o')) \<or> \<not> set_inv o'"
    using assms by (auto simp: ObjectSet_add_def Let_def set_inv_def)
  show "objOrder (fst (ObjectSet_add gvkFor o' (Some obj))) = objOrder o' @ [obj]"
    using assms by (simp add: ObjectSet_add_def Let_def)
  assume inv: "set_inv o'"
  let ?o = "fst (ObjectSet_add gvkFor o' (Some obj))"
  have objs: "objects ?o = ObjectByGVK_Add g obj (objects o')"
    "objectsByGK ?o = ObjectByGK_Add g obj (objectsByGK o')"
    using assms by (simp_all add: ObjectSet_add_def Let_def)
  have cont: "ObjectSet_Contains ?o k key \<longleftrightarrow> (k = GroupKind g \<and> key = key_of obj) \<or> ObjectSet_Contains o' k key" for k key
    by (auto simp: ObjectSet_Contains_def objs ObjectByGK_Add_def Let_def)
  have "gomap_ok (objects ?o)" using inv by (simp add: objs ObjectByGVK_Add_def set_inv_def)
  moreover have "\<forall>(g, m) \<in> set (objects ?o). gomap_ok m"
    using inv gomap_ok_get_objs [of "objects o'" g]
      set_update_subset [of g "AList.update (key_of obj) obj (get_objs (objects o') g)" "objects o'"]
    unfolding objs ObjectByGVK_Add_def set_inv_def by fastforce
  moreover have "distinct (gvkOrder ?o) \<and> (\<forall>g. gvkSeen ?o g \<longleftrightarrow> g \<in> set (gvkOrder ?o)) \<and>
      fst ` set (objects ?o) = set (gvkOrder ?o)"
    using inv assms by (auto simp: ObjectSet_add_def Let_def set_inv_def ObjectByGVK_Add_def keys_update)
  moreover have "\<forall>k key. ObjectSet_Contains ?o k key \<longleftrightarrow> (\<exists>g. GroupKind g = k \<and> lookup_obj ?o g key \<noteq> None)"
    using inv by (auto simp: cont lk set_inv_def)
  ultimately show "set_inv ?o" by (simp add: set_inv_def)
qed


section \<open>Properties of the set\<close>

text \<open>The objects that are not nil, with their kinds and keys, in the order given.\<close>

definition resolved :: "(kobj \<Rightarrow> err + gvk) \<Rightarrow> kobj option list \<Rightarrow> ((gvk \<times> ObjectKey) \<times> kobj) list" where
  "resolved gvkFor objs =
     concat (map (\<lambda>obj. case obj of
        None \<Rightarrow> []
      | Some obj \<Rightarrow> (case gvkFor obj of Inl e \<Rightarrow> [] | Inr g \<Rightarrow> [((g, key_of obj), obj)])) objs)"

definition resolvable :: "(kobj \<Rightarrow> err + gvk) \<Rightarrow> kobj option \<Rightarrow> bool" where
  "resolvable gvkFor obj =
     (case obj of None \<Rightarrow> True | Some obj \<Rightarrow> (case gvkFor obj of Inl e \<Rightarrow> False | Inr g \<Rightarrow> True))"

lemma ObjectSet_Add_resolved:
  assumes "\<forall>obj \<in> set objs. resolvable gvkFor obj" and "set_inv o'"
  shows "snd (ObjectSet_Add gvkFor o' objs) = None \<and>
    set_inv (fst (ObjectSet_Add gvkFor o' objs)) \<and>
    (\<forall>g k. lookup_obj (fst (ObjectSet_Add gvkFor o' objs)) g k =
      (case map_of (rev (resolved gvkFor objs)) (g, k) of
         None \<Rightarrow> lookup_obj o' g k | Some obj \<Rightarrow> Some obj)) \<and>
    set (gvkOrder (fst (ObjectSet_Add gvkFor o' objs))) =
      set (gvkOrder o') \<union> (fst \<circ> fst) ` set (resolved gvkFor objs) \<and>
    objOrder (fst (ObjectSet_Add gvkFor o' objs)) = objOrder o' @ map snd (resolved gvkFor objs)"
  using assms
proof (induction objs arbitrary: o')
  case Nil
  then show ?case by (simp add: resolved_def)
next
  case (Cons obj objs)
  show ?case
  proof (cases obj)
    case None
    with Cons show ?thesis by (simp add: ObjectSet_add_def resolved_def)
  next
    case (Some ob)
    with Cons.prems(1) obtain g where g: "gvkFor ob = Inr g"
      by (auto simp: resolvable_def split: sum.splits)
    note A = ObjectSet_add_Some [where gvkFor = gvkFor and obj = ob and g = g and o' = o', OF g]
    let ?o = "fst (ObjectSet_add gvkFor o' (Some ob))"
    have step: "ObjectSet_Add gvkFor o' (obj # objs) = ObjectSet_Add gvkFor ?o objs"
      using A(1) Some
      by (simp split: prod.splits option.splits) (metis fst_conv snd_conv option.distinct(1))
    have inv: "set_inv ?o" using A(3) Cons.prems(2) by simp
    have ord: "set (gvkOrder ?o) = insert g (set (gvkOrder o'))"
      using A(4) Cons.prems(2) by simp
    have res: "resolved gvkFor (obj # objs) = ((g, key_of ob), ob) # resolved gvkFor objs"
      using Some g by (simp add: resolved_def)
    have "\<forall>obj \<in> set objs. resolvable gvkFor obj" using Cons.prems(1) by simp
    from Cons.IH [OF this inv] show ?thesis
      by (simp add: step res ord A(2,5)
          map_of_append map_add_def del: ObjectSet_Add.simps split: option.splits)
  qed
qed

lemma NewObjectSet_inv: "set_inv (fst (NewObjectSet gvkFor objs))"
proof -
  have "set_inv (fst (ObjectSet_Add gvkFor o' objs))" if "set_inv o'" for o'
    using that
  proof (induction objs arbitrary: o')
    case Nil
    then show ?case by simp
  next
    case (Cons obj objs)
    have "set_inv (fst (ObjectSet_add gvkFor o' obj))"
    proof (cases obj)
      case None
      with Cons.prems show ?thesis by (simp add: ObjectSet_add_def)
    next
      case (Some ob)
      show ?thesis
      proof (cases "gvkFor ob")
        case (Inl e)
        with Some Cons.prems show ?thesis by (simp add: ObjectSet_add_def)
      next
        case (Inr g)
        from ObjectSet_add_Some(3) [where gvkFor = gvkFor and obj = ob and g = g, OF Inr Cons.prems] Some
        show ?thesis by simp
      qed
    qed
    then show ?case by (auto split: prod.splits option.splits intro: Cons.IH)
  qed
  then show ?thesis by (simp add: NewObjectSet_def set_inv_empty)
qed

text \<open>\<open>NewObjectSet\<close> indexes exactly the objects it is given: when every kind resolves there is
  no error, the index finds for each kind and key the last object added under it and nothing else,
  \<open>All\<close> returns the objects in order, and the index by group and kind agrees with it.\<close>

theorem NewObjectSet_correct:
  assumes "\<forall>obj \<in> set objs. resolvable gvkFor obj"
  shows "snd (NewObjectSet gvkFor objs) = None \<and>
    lookup_obj (fst (NewObjectSet gvkFor objs)) g k = map_of (rev (resolved gvkFor objs)) (g, k) \<and>
    ObjectSet_All (fst (NewObjectSet gvkFor objs)) = map snd (resolved gvkFor objs) \<and>
    (ObjectSet_Contains (fst (NewObjectSet gvkFor objs)) gk' k \<longleftrightarrow>
      (\<exists>g'. GroupKind g' = gk' \<and> (g', k) \<in> fst ` set (resolved gvkFor objs)))"
proof -
  note R = ObjectSet_Add_resolved [OF assms set_inv_empty]
  have lk: "lookup_obj (fst (NewObjectSet gvkFor objs)) g k = map_of (rev (resolved gvkFor objs)) (g, k)"
    for g k
    using R by (simp add: NewObjectSet_def lookup_obj_def get_objs_def empty_ObjectSet_def
        split: option.splits)
  have "ObjectSet_Contains (fst (NewObjectSet gvkFor objs)) gk' k \<longleftrightarrow>
      (\<exists>g'. GroupKind g' = gk' \<and> map_of (rev (resolved gvkFor objs)) (g', k) \<noteq> None)"
    using NewObjectSet_inv [of gvkFor objs] by (simp add: set_inv_def lk)
  then show ?thesis
    using R lk
    by (auto simp: NewObjectSet_def ObjectSet_All_def empty_ObjectSet_def map_of_eq_None_iff)
qed

theorem NewObjectSet_correct_witness:
  "let o1 = empty_obj\<lparr>Name := ''a'', Body := JInt 1\<rparr>; o2 = empty_obj\<lparr>Name := ''a'', Body := JInt 2\<rparr>;
       g = \<lparr>Group = [], Version = ''v1'', Kind = ''Pod''\<rparr>;
       S = fst (NewObjectSet (\<lambda>_. Inr g) [Some o1, None, Some o2])
   in lookup_obj S g (mk_key [] ''a'') = Some o2 \<and> ObjectSet_All S = [o1, o2]"
proof -
  let ?o1 = "empty_obj\<lparr>Name := ''a'', Body := JInt 1\<rparr>"
  let ?o2 = "empty_obj\<lparr>Name := ''a'', Body := JInt 2\<rparr>"
  let ?g = "\<lparr>Group = [], Version = ''v1'', Kind = ''Pod''\<rparr>"
  have "\<forall>obj \<in> set [Some ?o1, None, Some ?o2]. resolvable (\<lambda>_. Inr ?g) obj"
    by (simp add: resolvable_def)
  from NewObjectSet_correct [OF this, where g = ?g and k = "mk_key [] ''a''"]
  show ?thesis by (simp add: resolved_def key_of_def empty_obj_def)
qed

text \<open>\<open>GVKOrder\<close> schedules every kind of the set and every known kind exactly once: the kinds of the
  set first, in the order they were first added, then the other known kinds sorted by name.\<close>

theorem GVKOrder_once:
  fixes gvkFor :: "kobj \<Rightarrow> err + gvk" and objs :: "kobj option list"
  assumes "distinct known"
  defines "S \<equiv> fst (NewObjectSet gvkFor objs)"
  shows "distinct (ObjectSet_GVKOrder gvkStr S known) \<and>
    set (ObjectSet_GVKOrder gvkStr S known) = set known \<union> fst ` set (objects S) \<and>
    take (length (gvkOrder S)) (ObjectSet_GVKOrder gvkStr S known) = gvkOrder S \<and>
    sorted (map gvkStr (drop (length (gvkOrder S)) (ObjectSet_GVKOrder gvkStr S known)))"
proof -
  have "set_inv S" by (simp add: S_def NewObjectSet_inv)
  with assms(1) show ?thesis
    by (auto simp: ObjectSet_GVKOrder_def set_inv_def)
qed

theorem GVKOrder_once_witness:
  "let a = \<lparr>Group = ''apps'', Version = ''v1'', Kind = ''Deployment''\<rparr>;
       b = \<lparr>Group = ''batch'', Version = ''v1'', Kind = ''Job''\<rparr>
   in distinct (ObjectSet_GVKOrder Kind (fst (NewObjectSet (\<lambda>_. Inr b) [Some empty_obj])) [a, b])"
proof -
  have "distinct [\<lparr>Group = ''apps'', Version = ''v1'', Kind = ''Deployment''\<rparr>,
      \<lparr>Group = ''batch'', Version = ''v1'', Kind = ''Job''\<rparr>]" by simp
  from GVKOrder_once [OF this, of Kind "\<lambda>_. Inr \<lparr>Group = ''batch'', Version = ''v1'', Kind = ''Job''\<rparr>"
      "[Some empty_obj]"]
  show ?thesis by (simp only: Let_def)
qed

end
