(* ===== verification/Kube_Lib.thy ===== *)
theory Kube_Lib
  imports Object_Set
begin

text \<open>
  The library code the program calls, as parameters: the record \<open>lib\<close> holds the functions of the
  Kubernetes libraries and of the Go packages for hashing, compression and JSON text that
  compute without side effects, \<open>'w kube\<close> adds the operations of a \<open>client.Client\<close> on a world
  of type \<open>'w\<close> (the API server and everything behind the client). Nothing is assumed about
  them here; where a property relies on their documented behaviour it says so in a hypothesis.
\<close>

datatype scope = ScopeNamespace | ScopeRoot

text \<open>\<open>scheme.New(gvk)\<close>: a value of some Go type, "not registered", or another error.\<close>

datatype new_result = NewOk string | NotRegistered | NewErr err

datatype patchType = NoPatchType | MergePatchType | StrategicMergePatchType

record lib =
  gvkFor :: "kobj \<Rightarrow> err + gvk"                      \<comment> \<open>\<open>apiutil.GVKForObject\<close> for the client's scheme\<close>
  gvkString :: "gvk \<Rightarrow> string"                       \<comment> \<open>\<open>GroupVersionKind.String\<close>\<close>
  apiVersionAndKind :: "gvk \<Rightarrow> string \<times> string"     \<comment> \<open>\<open>GroupVersionKind.ToAPIVersionAndKind\<close>\<close>
  gvString :: "gvk \<Rightarrow> string"                        \<comment> \<open>\<open>GroupVersion().String()\<close>\<close>
  schemeNew :: "gvk \<Rightarrow> new_result"                   \<comment> \<open>\<open>client.Scheme().New\<close>\<close>
  clientGoNew :: "gvk \<Rightarrow> new_result"                 \<comment> \<open>\<open>scheme.Scheme.New\<close> of client-go\<close>
  patchMetaFromStruct :: "string \<Rightarrow> err option"      \<comment> \<open>\<open>strategicpatch.NewPatchMetaFromStruct\<close>\<close>
  strategicPatch :: "string \<Rightarrow> string \<Rightarrow> string \<Rightarrow> string option \<Rightarrow> err + string"
  jsonMergePatch :: "string \<Rightarrow> string \<Rightarrow> string \<Rightarrow> err + string"
  restScope :: "gk \<Rightarrow> string \<Rightarrow> err + scope"          \<comment> \<open>\<open>RESTMapper().RESTMapping\<close>, its scope\<close>
  newRequirement :: "string \<Rightarrow> string \<Rightarrow> err + label_selector"
                                                    \<comment> \<open>the selector \<open>label = value\<close>\<close>
  sha1Hex :: "string \<Rightarrow> string"
  sha256Hex :: "string \<Rightarrow> string"
  marshalObj :: "kobj \<Rightarrow> err + string"               \<comment> \<open>\<open>json.Marshal\<close> of an object\<close>
  marshalMap :: "jmap \<Rightarrow> err + string"               \<comment> \<open>\<open>json.Marshal\<close> of a map\<close>
  unmarshalMap :: "string \<Rightarrow> err + jmap"             \<comment> \<open>\<open>json.Unmarshal\<close> into a map\<close>
  decodeNumbers :: "string \<Rightarrow> err + jmap"            \<comment> \<open>\<open>Decoder.Decode\<close> with \<open>UseNumber\<close>\<close>
  contentOf :: "kobj \<Rightarrow> jmap"                        \<comment> \<open>\<open>Unstructured.Object\<close>\<close>
  unstructuredOf :: "jmap \<Rightarrow> kobj"                   \<comment> \<open>\<open>&Unstructured{Object: m}\<close>\<close>
  gzip :: "string \<Rightarrow> err + string"
  gunzip :: "string \<Rightarrow> err + string"
  base64Encode :: "string \<Rightarrow> string"                 \<comment> \<open>\<open>base64.RawStdEncoding\<close>\<close>
  base64Decode :: "string \<Rightarrow> err + string"
  unmarshalAs :: "string \<Rightarrow> string \<Rightarrow> err + kobj"        \<comment> \<open>\<open>json.Unmarshal\<close> into a new value of a Go type\<close>
  unmarshalInto :: "kobj \<Rightarrow> string \<Rightarrow> err + kobj"       \<comment> \<open>into a value that is there: what the text does not mention stays\<close>
  gvkOfTypeMeta :: "kobj \<Rightarrow> gvk"                    \<comment> \<open>the object's own \<open>GroupVersionKind()\<close>\<close>
  fieldVal :: "string \<Rightarrow> kobj \<Rightarrow> json"               \<comment> \<open>a field of a typed object, by its Go path\<close>
  semanticDeepEqual :: "json \<Rightarrow> json \<Rightarrow> bool"        \<comment> \<open>\<open>equality.Semantic.DeepEqual\<close>\<close>

record 'w kube = lib +
  clGet :: "'w \<Rightarrow> gvk \<Rightarrow> string \<Rightarrow> ObjectKey \<Rightarrow> (err + kobj) \<times> 'w"
     \<comment> \<open>kind and Go type of the object to fill, key\<close>
  clList :: "'w \<Rightarrow> gvk \<Rightarrow> string \<Rightarrow> label_selector \<Rightarrow> (err + kobj list) \<times> 'w"
     \<comment> \<open>kind of the list, namespace, selector\<close>
  clCreate :: "'w \<Rightarrow> kobj \<Rightarrow> err option \<times> kobj \<times> 'w"
     \<comment> \<open>the object comes back as the client leaves it\<close>
  clPatch :: "'w \<Rightarrow> kobj \<Rightarrow> patchType \<Rightarrow> string \<Rightarrow> err option \<times> kobj \<times> 'w"
  clDelete :: "'w \<Rightarrow> gvk \<Rightarrow> ObjectKey \<Rightarrow> err option \<times> 'w"

abbreviation unstructuredType :: string where
  "unstructuredType \<equiv> ''*unstructured.Unstructured''"

text \<open>An \<open>Unstructured\<close> with only its kind, namespace, name and resource version set.\<close>

definition unstructured_ref :: "('a) lib_scheme \<Rightarrow> gvk \<Rightarrow> string \<Rightarrow> string \<Rightarrow> string \<Rightarrow> kobj" where
  "unstructured_ref L g ns n rv =
     empty_obj\<lparr>GoType := unstructuredType, TypeMeta := apiVersionAndKind L g,
       Namespace := ns, Name := n, ResourceVersion := rv\<rparr>"

end
