(* ===== verification/Kube_Examples.thy ===== *)
theory Kube_Examples
  imports Kube_Lib
begin

text \<open>
  Concrete libraries and clients for the examples that show hypotheses can hold: \<open>example_lib\<close> is a
  lib whose kinds are Go types, \<open>memory_kube\<close> a client whose world is the list of the stored objects.
\<close>

definition example_lib :: lib where
  "example_lib =
     \<lparr>gvkFor = (\<lambda>o'. Inr \<lparr>Group = [], Version = ''v1'', Kind = GoType o'\<rparr>),
      gvkString = (\<lambda>g. Group g @ ''/'' @ Version g @ '', Kind='' @ Kind g),
      apiVersionAndKind = (\<lambda>g. (Version g, Kind g)), gvString = Version,
      schemeNew = (\<lambda>g. NewOk (Kind g)), clientGoNew = (\<lambda>g. NotRegistered),
      patchMetaFromStruct = (\<lambda>t. None),
      strategicPatch = (\<lambda>o' m c l. Inr (if m = c then ''{}'' else m)),
      jsonMergePatch = (\<lambda>o' m c. Inr (if m = c then ''{}'' else m)),
      restScope = (\<lambda>g v. Inr ScopeNamespace),
      newRequirement = (\<lambda>l v. Inr \<lparr>selMatches = (\<lambda>m. m l = Some v), selString = l @ ''='' @ v\<rparr>),
      sha1Hex = id, sha256Hex = (\<lambda>s. replicate 64 CHR ''0''),
      marshalObj = (\<lambda>o'. Inr (''{'' @ Name o' @ ''}'')), marshalMap = (\<lambda>m. Inr (''{'' @ concat (map fst m) @ ''}'')),
      unmarshalMap = (\<lambda>s. Inr []), decodeNumbers = (\<lambda>s. Inr []), contentOf = (\<lambda>o'. []),
      unstructuredOf = (\<lambda>m. empty_obj), gzip = Inr, gunzip = Inr,
      base64Encode = (\<lambda>s. CHR ''H'' # s), base64Decode = (\<lambda>s. Inr (tl s)),
      unmarshalAs = (\<lambda>t s. Inr (empty_obj\<lparr>GoType := t\<rparr>)),
      unmarshalInto = (\<lambda>dst s. Inr dst),
      gvkOfTypeMeta = (\<lambda>o'. \<lparr>Group = [], Version = ''v1'', Kind = GoType o'\<rparr>),
      fieldVal = (\<lambda>f o'. Body o'), semanticDeepEqual = (=)\<rparr>"

text \<open>A client over a list of objects, for examples.\<close>

definition memory_kube :: "lib \<Rightarrow> kobj list kube" where
  "memory_kube L = lib.extend L (kube.fields
     (\<lambda>w g t k. (case find (\<lambda>o'. key_of o' = k) w of
        None \<Rightarrow> Inl (ApiErr NotFound ''not found'') | Some o' \<Rightarrow> Inr o', w))
     (\<lambda>w g ns sel. (Inr (filter (\<lambda>o'. selMatches sel (Labels o')) w), w))
     (\<lambda>w o'. if key_of o' \<in> key_of ` set w then (Some (ApiErr AlreadyExists ''exists''), o', w)
             else (None, o', w @ [o']))
     (\<lambda>w o' pt patch. (None, o', w))
     (\<lambda>w g k. if k \<in> key_of ` set w then (None, filter (\<lambda>o'. key_of o' \<noteq> k) w)
             else (Some (ApiErr NotFound ''not found''), w)))"

lemma memory_kube_simps [simp]:
  "clGet (memory_kube L) w g t k = (case find (\<lambda>o'. key_of o' = k) w of
     None \<Rightarrow> Inl (ApiErr NotFound ''not found'') | Some o' \<Rightarrow> Inr o', w)"
  "clList (memory_kube L) w g ns sel = (Inr (filter (\<lambda>o'. selMatches sel (Labels o')) w), w)"
  "clCreate (memory_kube L) w o' =
     (if key_of o' \<in> key_of ` set w then (Some (ApiErr AlreadyExists ''exists''), o', w)
      else (None, o', w @ [o']))"
  "clPatch (memory_kube L) w o' pt patch = (None, o', w)"
  "clDelete (memory_kube L) w g k =
     (if k \<in> key_of ` set w then (None, filter (\<lambda>o'. key_of o' \<noteq> k) w)
      else (Some (ApiErr NotFound ''not found''), w))"
  "gvkFor (memory_kube L) = gvkFor L" "gvkString (memory_kube L) = gvkString L"
  "restScope (memory_kube L) = restScope L" "schemeNew (memory_kube L) = schemeNew L"
  "sha1Hex (memory_kube L) = sha1Hex L"
  by (simp_all add: memory_kube_def lib.defs kube.defs)

definition any_selector :: label_selector where
  "any_selector = \<lparr>selMatches = (\<lambda>_. True), selString = []\<rparr>"

abbreviation example_kube :: "kobj list kube" where
  "example_kube \<equiv> memory_kube example_lib"

end
