(* ===== verification/Names_Maps.thy ===== *)
theory Names_Maps
  imports Kube_Examples "HOL-Library.Sublist"
begin

text \<open>
  pkg/name and pkg/typed: names shortened by a hash, maps read in the order of their keys, and the channel
  helpers, whose goroutines are step functions and relations over the messages that come and go.
\<close>

section \<open>Names\<close>

definition lower_or_digit :: "char \<Rightarrow> bool" where
  "lower_or_digit c \<longleftrightarrow> CHR ''a'' \<le> c \<and> c \<le> CHR ''z'' \<or> CHR ''0'' \<le> c \<and> c \<le> CHR ''9''"

text \<open>\<open>None\<close>: the index \<open>length - 8\<close> is out of range. \<open>sha256Hex\<close> of the library is the hash as hexadecimal text.\<close>

definition SafeConcatNameWithSeparatorAndLength ::
  "('a) lib_scheme \<Rightarrow> int \<Rightarrow> string \<Rightarrow> string list \<Rightarrow> string option" where
  "SafeConcatNameWithSeparatorAndLength L len sep names =
     (let fullPath = strings_Join names sep in
      if int (length fullPath) < len then Some fullPath
      else if len - 8 < 0 then None
      else
        (let digest = sha256Hex L fullPath; c = fullPath ! nat (len - 8) in
         if lower_or_digit c then Some (take (nat (len - 7)) fullPath @ sep @ take 5 digest)
         else Some (take (nat (len - 8)) fullPath @ sep @ take 6 digest)))"

definition SafeConcatName :: "('a) lib_scheme \<Rightarrow> string list \<Rightarrow> string option" where
  "SafeConcatName L names = SafeConcatNameWithSeparatorAndLength L 64 ''-'' names"

definition hash_input :: "string list \<Rightarrow> string" where
  "hash_input names = concat (map (\<lambda>part. part @ [CHR 0x00]) names)"

definition SafeHashConcatName :: "('a) lib_scheme \<Rightarrow> string list \<Rightarrow> string option" where
  "SafeHashConcatName L names = SafeConcatName L (names @ [take 8 (sha256Hex L (hash_input names))])"

text \<open>C30: A name built by \<open>SafeConcatName\<close> is always produced, fits the 63 characters of a Kubernetes name, is the parts joined by
  dashes when they fit, and otherwise begins with their first 56 characters and ends in a dash and five or six digits of their hash.
\<close>

theorem SafeConcatName_bounded:
  assumes "\<And>s. length (sha256Hex L s) = 64"
  shows "\<exists>n. SafeConcatName L names = Some n \<and> length n \<le> 63 \<and>
    (if length (strings_Join names ''-'') \<le> 63 then n = strings_Join names ''-''
     else take 56 n = take 56 (strings_Join names ''-'') \<and> length n = 63 \<and>
       (\<exists>p k. n = p @ ''-'' @ take k (sha256Hex L (strings_Join names ''-'')) \<and> (k = 5 \<or> k = 6)))"
proof -
  let ?f = "strings_Join names ''-''"
  consider "length ?f \<le> 63" | "63 < length ?f" "lower_or_digit (?f ! 56)" | "63 < length ?f" "\<not> lower_or_digit (?f ! 56)"
    by linarith
  then show ?thesis
  proof cases
    case 1
    then show ?thesis by (simp add: SafeConcatName_def SafeConcatNameWithSeparatorAndLength_def Let_def)
  next
    case 2
    then have "SafeConcatName L names = Some (take 57 ?f @ ''-'' @ take 5 (sha256Hex L ?f))"
      by (simp add: SafeConcatName_def SafeConcatNameWithSeparatorAndLength_def Let_def)
    with 2 assms show ?thesis by auto
  next
    case 3
    then have "SafeConcatName L names = Some (take 56 ?f @ ''-'' @ take 6 (sha256Hex L ?f))"
      by (simp add: SafeConcatName_def SafeConcatNameWithSeparatorAndLength_def Let_def)
    with 3 assms show ?thesis by auto
  qed
qed

theorem SafeConcatName_bounded_witness:
  "\<exists>n. SafeConcatName (example_lib\<lparr>sha256Hex := (\<lambda>s. replicate 64 (CHR ''0''))\<rparr>) [replicate 70 (CHR ''a''), ''b''] = Some n \<and> length n = 63"
  using SafeConcatName_bounded [of "example_lib\<lparr>sha256Hex := (\<lambda>s. replicate 64 (CHR ''0''))\<rparr>" "[replicate 70 (CHR ''a''), ''b'']"]
  by auto

text \<open>A separator of three characters already makes the name longer than the length asked for.\<close>

lemma long_separator_too_long:
  assumes "length (sha256Hex L (strings_Join names sep)) = 64" and "8 \<le> len" and "len \<le> int (length (strings_Join names sep))"
    and "SafeConcatNameWithSeparatorAndLength L len sep names = Some n"
  shows "int (length n) = len - 2 + int (length sep)"
  using assms by (auto simp: SafeConcatNameWithSeparatorAndLength_def Let_def split: if_splits)

lemma hash_input_inj:
  assumes "hash_input xs = hash_input ys" and "\<forall>x \<in> set xs \<union> set ys. CHR 0x00 \<notin> set x"
  shows "xs = ys"
  using assms
proof (induction xs arbitrary: ys)
  case Nil
  then show ?case by (cases ys) (simp_all add: hash_input_def)
next
  case (Cons x xs)
  then obtain y ys' where ys: "ys = y # ys'" by (cases ys) (simp_all add: hash_input_def)
  with Cons.prems(1) have eq: "x @ CHR 0x00 # hash_input xs = y @ CHR 0x00 # hash_input ys'" by (simp add: hash_input_def)
  have "CHR 0x00 \<notin> set x" "CHR 0x00 \<notin> set y" using Cons.prems(2) ys by auto
  then have c: "cut_at (x @ CHR 0x00 # hash_input xs) [CHR 0x00] = Some (x, hash_input xs)"
    "cut_at (y @ CHR 0x00 # hash_input ys') [CHR 0x00] = Some (y, hash_input ys')" by simp_all
  have "Some (x, hash_input xs) = Some (y, hash_input ys')" unfolding c [symmetric] eq ..
  then have "x = y" "hash_input xs = hash_input ys'" by simp_all
  with Cons ys show ?case by simp
qed

section \<open>Maps by sorted key\<close>

definition SortedKeys :: "('k::linorder, 'v) gomap \<Rightarrow> 'k list" where
  "SortedKeys m = sort (map fst m)"

text \<open>Every key comes from the map, so that the reads never miss.\<close>

definition SortedValuesByKey :: "('k::linorder, 'v) gomap \<Rightarrow> 'v list" where
  "SortedValuesByKey m = map (\<lambda>k. the (map_of m k)) (SortedKeys m)"

record ('k, 'v) Entry =
  entryKey :: 'k
  entryValue :: 'v

definition Sorted :: "('k::linorder, 'v) gomap \<Rightarrow> ('k, 'v) Entry list" where
  "Sorted m = map (\<lambda>k. \<lparr>entryKey = k, entryValue = the (map_of m k)\<rparr>) (SortedKeys m)"

definition SortedValues :: "('k::linorder, 'v) gomap \<Rightarrow> 'v list" where
  "SortedValues m = map entryValue (Sorted m)"

definition MapSlice :: "('a \<Rightarrow> 'b) \<Rightarrow> 'a list \<Rightarrow> 'b list" where
  "MapSlice mapper values = map mapper values"

text \<open>
  The sorted readers of a map do not depend on the order in which Go ranges over it, give every key once, in ascending
  order, with its value; the two ways to the values agree.
\<close>

theorem Sorted_deterministic:
  assumes "gomap_ok m" and "gomap_ok m'" and "set m = set m'"
  shows "SortedKeys m = SortedKeys m' \<and> Sorted m = Sorted m' \<and> SortedValues m = SortedValuesByKey m' \<and>
    sorted_wrt (<) (SortedKeys m) \<and> set (map (\<lambda>e. (entryKey e, entryValue e)) (Sorted m)) = set m"
proof -
  have "set (map fst m) = set (map fst m')" using assms(3) by (metis list.set_map)
  then have keys: "SortedKeys m = SortedKeys m'"
    using assms(1,2) by (simp add: SortedKeys_def sorted_distinct_set_unique)
  moreover have of: "map_of m = map_of m'" using assms by (rule map_of_perm)
  moreover have "sorted_wrt (<) (SortedKeys m)"
    using assms(1) by (simp add: SortedKeys_def strict_sorted_iff)
  moreover have "set (map (\<lambda>e. (entryKey e, entryValue e)) (Sorted m)) = set m"
    using assms(1) by (force simp: Sorted_def SortedKeys_def)
  ultimately show ?thesis by (simp add: Sorted_def SortedValues_def SortedValuesByKey_def)
qed

theorem Sorted_deterministic_witness:
  "SortedKeys [(''b'', 1), (''a'', 2 :: nat)] = SortedKeys [(''a'', 2 :: nat), (''b'', 1)] \<and>
   SortedValues [(''b'', 1), (''a'', 2 :: nat)] = SortedValuesByKey [(''a'', 2), (''b'', 1)]"
  using Sorted_deterministic [of "[(''b'', 1), (''a'', 2 :: nat)]" "[(''a'', 2), (''b'', 1)]"] by auto

section \<open>Merging maps\<close>

definition nil_map :: "('k, 'v) gomap option \<Rightarrow> ('k, 'v) gomap" where
  "nil_map m = (case m of None \<Rightarrow> [] | Some m \<Rightarrow> m)"

text \<open>\<open>Concat\<close>: a new map, never nil, later maps over earlier ones.\<close>

definition Concat :: "('k, 'v) gomap option list \<Rightarrow> ('k, 'v) gomap option" where
  "Concat maps = Some (fold (\<lambda>m result. fold (\<lambda>(k, v). AList.update k v) (nil_map m) result) maps [])"

lemma fold_updates:
  "map_of (fold (\<lambda>(k, v). AList.update k v) m r) = map_of r ++ map_of (rev m)"
  by (induction m arbitrary: r) (auto simp: map_add_def fun_eq_iff split: option.splits)

lemma map_of_rev: "gomap_ok m \<Longrightarrow> map_of (rev m) = map_of m"
  by (rule map_of_perm) (simp_all add: rev_map [symmetric])

section \<open>Channels\<close>

text \<open>
  \<open>Debounce\<close>: a message goes into the channel of one place when it is empty and is dropped when it is not. A step is a
  message from the input or a read by the receiver; the state is the place and what the receiver has got.
\<close>

datatype 'a debounce_step = Message 'a | Receive

fun Debounce :: "'a debounce_step list \<Rightarrow> 'a option \<times> 'a list \<Rightarrow> 'a option \<times> 'a list" where
  "Debounce [] st = st"
| "Debounce (Message x # xs) (buf, got) = Debounce xs (if buf = None then Some x else buf, got)"
| "Debounce (Receive # xs) (buf, got) =
     (case buf of None \<Rightarrow> Debounce xs (None, got) | Some x \<Rightarrow> Debounce xs (None, got @ [x]))"

text \<open>
  \<open>Every\<close>: each tick and the end of the input send the last message, the zero value before the first. The result is
  what is sent, and whether the result's channel is closed.
\<close>

datatype 'a every_step = Update 'a | Tick | InputClosed

fun Every :: "'a \<Rightarrow> 'a every_step list \<Rightarrow> 'a list \<times> bool" where
  "Every lastUpdate [] = ([], False)"
| "Every lastUpdate (Update x # xs) = Every x xs"
| "Every lastUpdate (Tick # xs) = (case Every lastUpdate xs of (out, closed) \<Rightarrow> (lastUpdate # out, closed))"
| "Every lastUpdate (InputClosed # xs) = ([lastUpdate], True)"

text \<open>\<open>Tee\<close>: two channels of one place, filled one after the other.\<close>

datatype 'a tee_loop = Reading | SendOne 'a | SendTwo 'a | TeeClosed

record 'a tee =
  teeIn :: "'a list"
  teeLoop :: "'a tee_loop"
  teeOne :: "'a option"
  teeTwo :: "'a option"
  teeGotOne :: "'a list"
  teeGotTwo :: "'a list"

inductive tee_step :: "'a tee \<Rightarrow> 'a tee \<Rightarrow> bool" where
  Read: "teeLoop t = Reading \<Longrightarrow> teeIn t = x # xs \<Longrightarrow> tee_step t (t\<lparr>teeIn := xs, teeLoop := SendOne x\<rparr>)"
| Close: "teeLoop t = Reading \<Longrightarrow> teeIn t = [] \<Longrightarrow> tee_step t (t\<lparr>teeLoop := TeeClosed\<rparr>)"
| One: "teeLoop t = SendOne x \<Longrightarrow> teeOne t = None \<Longrightarrow> tee_step t (t\<lparr>teeOne := Some x, teeLoop := SendTwo x\<rparr>)"
| Two: "teeLoop t = SendTwo x \<Longrightarrow> teeTwo t = None \<Longrightarrow> tee_step t (t\<lparr>teeTwo := Some x, teeLoop := Reading\<rparr>)"
| GetOne: "teeOne t = Some x \<Longrightarrow> tee_step t (t\<lparr>teeOne := None, teeGotOne := teeGotOne t @ [x]\<rparr>)"
| GetTwo: "teeTwo t = Some x \<Longrightarrow> tee_step t (t\<lparr>teeTwo := None, teeGotTwo := teeGotTwo t @ [x]\<rparr>)"

definition tee_start :: "'a list \<Rightarrow> 'a tee" where
  "tee_start xs = \<lparr>teeIn = xs, teeLoop = Reading, teeOne = None, teeTwo = None, teeGotOne = [], teeGotTwo = []\<rparr>"

definition in_place :: "'a option \<Rightarrow> 'a list" where
  "in_place b = (case b of None \<Rightarrow> [] | Some x \<Rightarrow> [x])"

definition before_one :: "'a tee_loop \<Rightarrow> 'a list" where
  "before_one l = (case l of SendOne x \<Rightarrow> [x] | _ \<Rightarrow> [])"

definition before_two :: "'a tee_loop \<Rightarrow> 'a list" where
  "before_two l = (case l of SendOne x \<Rightarrow> [x] | SendTwo x \<Rightarrow> [x] | _ \<Rightarrow> [])"

definition tee_ok :: "'a list \<Rightarrow> 'a tee \<Rightarrow> bool" where
  "tee_ok xs t \<longleftrightarrow>
     xs = teeGotOne t @ in_place (teeOne t) @ before_one (teeLoop t) @ teeIn t \<and>
     xs = teeGotTwo t @ in_place (teeTwo t) @ before_two (teeLoop t) @ teeIn t \<and>
     (teeLoop t = TeeClosed \<longrightarrow> teeIn t = [])"

lemma tee_step_ok: "tee_step t t' \<Longrightarrow> tee_ok xs t \<Longrightarrow> tee_ok xs t'"
  by (induction rule: tee_step.induct) (auto simp: tee_ok_def in_place_def before_one_def before_two_def)

text \<open>
  Both readers of a \<open>Tee\<close> get the input, in order, nothing lost and nothing twice: at every moment each has a prefix of it,
  and once the channels are closed and empty each has all of it.
\<close>

theorem Tee_copies_all:
  assumes "tee_step\<^sup>*\<^sup>* (tee_start xs) t"
  shows "(\<exists>ys. xs = teeGotOne t @ ys) \<and> (\<exists>ys. xs = teeGotTwo t @ ys) \<and>
    (teeLoop t = TeeClosed \<and> teeOne t = None \<and> teeTwo t = None \<longrightarrow> teeGotOne t = xs \<and> teeGotTwo t = xs)"
proof -
  have "tee_ok xs (tee_start xs)" by (simp add: tee_start_def tee_ok_def in_place_def before_one_def before_two_def)
  with assms have "tee_ok xs t" by (induction rule: rtranclp_induct) (blast intro: tee_step_ok)+
  then show ?thesis by (auto simp: tee_ok_def in_place_def before_one_def before_two_def)
qed

theorem Tee_copies_all_witness:
  "\<exists>t. tee_step (tee_start [1, 2 :: nat]) t \<and> (\<exists>ys. [1, 2] = teeGotOne t @ ys)"
proof -
  have "tee_step (tee_start [1, 2 :: nat]) ((tee_start [1, 2])\<lparr>teeIn := [2], teeLoop := SendOne 1\<rparr>)"
    by (rule tee_step.Read) (simp_all add: tee_start_def)
  moreover from this have "tee_step\<^sup>*\<^sup>* (tee_start [1, 2 :: nat]) ((tee_start [1, 2])\<lparr>teeIn := [2], teeLoop := SendOne 1\<rparr>)"
    by (rule r_into_rtranclp)
  ultimately show ?thesis using Tee_copies_all by blast
qed

text \<open>What a debounced reader gets are messages of the input, in order; the newest may be among those dropped.\<close>

fun messages :: "'a debounce_step list \<Rightarrow> 'a list" where
  "messages [] = []"
| "messages (Message x # xs) = x # messages xs"
| "messages (Receive # xs) = messages xs"

lemma Debounce_subseq:
  "Debounce steps (buf, got) = (buf', got') \<Longrightarrow>
   \<exists>out. got' @ in_place buf' = got @ in_place buf @ out \<and> subseq out (messages steps)"
proof (induction steps "(buf, got)" arbitrary: buf got rule: Debounce.induct)
  case (2 x xs buf got)
  obtain out where out: "got' @ in_place buf' = got @ in_place (if buf = None then Some x else buf) @ out" "subseq out (messages xs)"
    using 2(1) 2(2) by auto
  show ?case
  proof (cases buf)
    case None
    with out have "got' @ in_place buf' = got @ in_place buf @ x # out" by (simp add: in_place_def)
    with out(2) show ?thesis by (intro exI [where x = "x # out"]) simp
  next
    case (Some y)
    with out show ?thesis by (intro exI [where x = out]) (simp add: list_emb_Cons)
  qed
next
  case (3 xs buf got)
  then show ?case by (cases buf) (auto simp: in_place_def)
qed (simp add: exI [where x = "[]"])

lemma Debounce_drops_newest: "Debounce [Message a, Message b, Receive, Receive] (None, []) = (None, [a])"
  by simp

end
