(* ===== verification/Apply_Labels.thy ===== *)
theory Apply_Labels
  imports Kube_Examples
begin

text \<open>
  pkg/apply: the applier's configuration (desiredset.go), the labels and annotations that record
  who owns an object (desiredset_apply.go), and the rules about changing an owner
  (desiredset_process.go, apply.go).
\<close>

section \<open>Labels and annotations of an owned object\<close>

definition LabelPrefix :: string where "LabelPrefix = ''apply.acorn.io/''"
definition LabelSubContext :: string where "LabelSubContext = LabelPrefix @ ''owner-sub-context''"
definition LabelGVK :: string where "LabelGVK = LabelPrefix @ ''owner-gvk''"
definition LabelName :: string where "LabelName = LabelPrefix @ ''owner-name''"
definition LabelNamespace :: string where "LabelNamespace = LabelPrefix @ ''owner-namespace''"
definition LabelHash :: string where "LabelHash = LabelPrefix @ ''hash''"
definition LabelApplied :: string where "LabelApplied = ''apply.acorn.io/applied''"
definition AnnotationPrune :: string where "AnnotationPrune = LabelPrefix @ ''prune''"
definition AnnotationCreate :: string where "AnnotationCreate = LabelPrefix @ ''create''"
definition AnnotationUpdate :: string where "AnnotationUpdate = LabelPrefix @ ''update''"

lemmas label_defs = LabelPrefix_def LabelSubContext_def LabelGVK_def LabelName_def LabelNamespace_def
  LabelHash_def LabelApplied_def AnnotationPrune_def AnnotationCreate_def AnnotationUpdate_def

definition hashOrder :: "string list" where
  "hashOrder = [LabelSubContext, LabelGVK, LabelName, LabelNamespace]"

definition objectSetHash :: "('a) lib_scheme \<Rightarrow> (string \<rightharpoonup> string) \<Rightarrow> string" where
  "objectSetHash L labels = sha1Hex L (concat (map (get_str labels) hashOrder))"

definition should :: "kobj \<Rightarrow> string \<Rightarrow> bool" where
  "should obj label \<longleftrightarrow> get_str (Annotations obj) label \<noteq> ''false''"

text \<open>
  The empty map stands for Go's nil result. \<open>meta.Accessor\<close> does not fail on a
  \<open>client.Object\<close>, so its error branch has no counterpart.
\<close>

definition GetLabelsAndAnnotations ::
  "('a) lib_scheme \<Rightarrow> string \<Rightarrow> kobj option \<Rightarrow> err + (string, string) gomap \<times> (string, string) gomap"
where
  "GetLabelsAndAnnotations L ownerSubContext owner =
     (if ownerSubContext = [] \<and> owner = None then Inr ([], [])
      else
        let annotations = [(LabelSubContext, ownerSubContext)];
            annotations = (if ownerSubContext \<noteq> [] then AList.update LabelSubContext ownerSubContext annotations
                           else annotations);
            result = (\<lambda>annotations. Inr ([(LabelHash, objectSetHash L (map_of annotations))], annotations))
        in (case owner of
              None \<Rightarrow> result annotations
            | Some owner \<Rightarrow>
                (case gvkFor L owner of
                   Inl err \<Rightarrow> Inl err
                 | Inr g \<Rightarrow>
                     let annotations = AList.update LabelGVK (gvkString L g) annotations;
                         annotations = AList.update LabelName (Name owner) annotations;
                         annotations = AList.update LabelNamespace (Namespace owner) annotations
                     in result annotations)))"

definition GetSelector ::
  "('a) lib_scheme \<Rightarrow> (string, string) gomap \<Rightarrow> err + label_selector option" where
  "GetSelector L labelSet =
     (if length labelSet = 0 then Inr None
      else (case newRequirement L LabelHash (get_str (map_of labelSet) LabelHash) of
              Inl err \<Rightarrow> Inl err
            | Inr sel \<Rightarrow> Inr (Some sel)))"

definition setAnnotations :: "kobj \<Rightarrow> (string, string) gomap \<Rightarrow> kobj" where
  "setAnnotations obj annotations =
     obj\<lparr>Annotations := ((Annotations obj)(LabelApplied := None)) ++ map_of annotations\<rparr>"

definition setLabels :: "kobj \<Rightarrow> (string, string) gomap \<Rightarrow> kobj" where
  "setLabels obj labels = obj\<lparr>Labels := Labels obj ++ map_of labels\<rparr>"

definition inject_one :: "(string, string) gomap \<Rightarrow> (string, string) gomap \<Rightarrow> kobj \<Rightarrow> kobj" where
  "inject_one labels annotations obj = setAnnotations (setLabels obj labels) annotations"

text \<open>
  The result is built in the order in which Go ranges over the nested maps. (With \<open>ensure\<close> set
  the caller's object is changed, without it a copy: values here, so one definition for both.)
\<close>

definition injectLabelsAndAnnotations ::
  "('a) lib_scheme \<Rightarrow> ObjectSet \<Rightarrow> (string, string) gomap \<Rightarrow> (string, string) gomap \<Rightarrow> err + ObjectSet"
where
  "injectLabelsAndAnnotations L in' labels annotations =
     (case NewObjectSet (gvkFor L) [] of
        (_, Some err) \<Rightarrow> Inl err
      | (result, None) \<Rightarrow>
          (case ObjectSet_Add (gvkFor L) result
                  (map (\<lambda>obj. Some (inject_one labels annotations obj))
                     (concat (map (\<lambda>(g, objMap). map snd objMap) (objects in')))) of
             (_, Some err) \<Rightarrow> Inl err
           | (result', None) \<Rightarrow> Inr result'))"

section \<open>Owner changes\<close>

definition annotationsMatch :: "kobj \<Rightarrow> kobj \<Rightarrow> bool" where
  "annotationsMatch oldObj newObj \<longleftrightarrow>
     list_all (\<lambda>v. get_str (Annotations oldObj) v = get_str (Annotations newObj) v)
       [LabelSubContext, LabelGVK, LabelName, LabelNamespace, LabelHash]"

text \<open>The global \<open>validOwnerChange\<close>: the set of strings \<open>"old => new"\<close> that were registered.\<close>

type_synonym owner_changes = "string \<Rightarrow> bool"

definition ownerChangeKey :: "string \<Rightarrow> string \<Rightarrow> string" where
  "ownerChangeKey oldSubcontext newSubContext = oldSubcontext @ '' => '' @ newSubContext"

definition AddValidOwnerChange :: "string \<Rightarrow> string \<Rightarrow> owner_changes \<Rightarrow> owner_changes" where
  "AddValidOwnerChange oldSubcontext newSubContext m =
     m(ownerChangeKey oldSubcontext newSubContext := True)"

definition isAllowOwnerTransition :: "owner_changes \<Rightarrow> kobj \<Rightarrow> kobj \<Rightarrow> bool" where
  "isAllowOwnerTransition valid existingObj newObj =
     (let e = get_str (Annotations existingObj); n = get_str (Annotations newObj) in
      if n LabelSubContext = [] \<or>
         (e LabelGVK \<noteq> [] \<and> e LabelGVK \<noteq> n LabelGVK) \<or>
         (e LabelNamespace \<noteq> [] \<and> e LabelNamespace \<noteq> n LabelNamespace) \<or>
         (e LabelName \<noteq> [] \<and> e LabelName \<noteq> n LabelName)
      then False
      else valid (ownerChangeKey (e LabelSubContext) (n LabelSubContext)))"

definition isAssigningSubContext :: "kobj \<Rightarrow> kobj \<Rightarrow> bool" where
  "isAssigningSubContext existingObj newObj \<longleftrightarrow>
     (let e = get_str (Annotations existingObj); n = get_str (Annotations newObj) in
      e LabelSubContext = [] \<and> n LabelSubContext \<noteq> [] \<and>
      e LabelGVK = n LabelGVK \<and> e LabelNamespace = n LabelNamespace \<and> e LabelName = n LabelName)"

section \<open>The applier\<close>

type_synonym reconciler = "kobj \<Rightarrow> kobj \<Rightarrow> bool \<times> err option"

record applier =
  defaultNamespace :: string
  listerNamespace :: string
  pruneTypes :: "(gvk, bool) gomap"
  pruneObjects :: "kobj list"
  reconcilers :: "gvk \<Rightarrow> reconciler option"
  ownerSubContext :: string
  owner :: "kobj option"
  ownerGVK :: gvk
  ensure :: bool
  noPrune :: bool

definition New :: "(gvk \<Rightarrow> reconciler option) \<Rightarrow> applier" where
  "New defaultReconcilers =
     \<lparr>defaultNamespace = ''default'', listerNamespace = [], pruneTypes = [], pruneObjects = [],
      reconcilers = defaultReconcilers, ownerSubContext = [], owner = None,
      ownerGVK = \<lparr>Group = [], Version = [], Kind = []\<rparr>, ensure = False, noPrune = False\<rparr>"

definition WithNoPrune :: "applier \<Rightarrow> applier" where
  "WithNoPrune a = a\<lparr>noPrune := True\<rparr>"

definition WithPruneTypes :: "kobj list \<Rightarrow> applier \<Rightarrow> applier" where
  "WithPruneTypes objs a = a\<lparr>pruneObjects := pruneObjects a @ objs\<rparr>"

definition withPruneGVKs :: "gvk list \<Rightarrow> applier \<Rightarrow> applier" where
  "withPruneGVKs gvks a =
     a\<lparr>pruneTypes := fold (\<lambda>g m. AList.update g True m) gvks (pruneTypes a)\<rparr>"

definition WithNamespace :: "string \<Rightarrow> applier \<Rightarrow> applier" where
  "WithNamespace ns a = a\<lparr>listerNamespace := ns, defaultNamespace := ns\<rparr>"

definition WithOwnerSubContext :: "string \<Rightarrow> applier \<Rightarrow> applier" where
  "WithOwnerSubContext s a = a\<lparr>ownerSubContext := s\<rparr>"

definition knownGVK :: "applier \<Rightarrow> gvk list" where
  "knownGVK a = map fst (pruneTypes a)"

definition debugID :: "applier \<Rightarrow> string" where
  "debugID a =
     (case owner a of
        None \<Rightarrow> ownerSubContext a
      | Some o' \<Rightarrow> ''subcontext ['' @ ownerSubContext a @ ''] namespace ['' @ Namespace o' @
          ''] name ['' @ Name o' @ '']'')"

section \<open>Properties of the labels\<close>

lemma labels_distinct [simp]:
  "LabelGVK \<noteq> LabelSubContext" "LabelName \<noteq> LabelSubContext" "LabelNamespace \<noteq> LabelSubContext"
  "LabelName \<noteq> LabelGVK" "LabelNamespace \<noteq> LabelGVK" "LabelNamespace \<noteq> LabelName"
  "LabelSubContext \<noteq> LabelGVK" "LabelSubContext \<noteq> LabelName" "LabelSubContext \<noteq> LabelNamespace"
  "LabelGVK \<noteq> LabelName" "LabelGVK \<noteq> LabelNamespace" "LabelName \<noteq> LabelNamespace"
  "LabelApplied \<noteq> LabelSubContext" "LabelApplied \<noteq> LabelGVK" "LabelApplied \<noteq> LabelName"
  "LabelApplied \<noteq> LabelNamespace" "LabelSubContext \<noteq> LabelApplied" "LabelGVK \<noteq> LabelApplied"
  "LabelName \<noteq> LabelApplied" "LabelNamespace \<noteq> LabelApplied"
  by (simp_all add: label_defs)

text \<open>The annotations an owner leaves, with the kind already resolved.\<close>

definition owner_annotations :: "('a) lib_scheme \<Rightarrow> string \<Rightarrow> gvk \<Rightarrow> kobj \<Rightarrow> (string, string) gomap" where
  "owner_annotations L sub g o' =
     [(LabelSubContext, sub), (LabelGVK, gvkString L g), (LabelName, Name o'),
      (LabelNamespace, Namespace o')]"

lemma GetLabels_owner:
  "gvkFor L o' = Inr g \<Longrightarrow>
     GetLabelsAndAnnotations L sub (Some o') =
       Inr ([(LabelHash, objectSetHash L (map_of (owner_annotations L sub g o')))],
            owner_annotations L sub g o')"
  by (simp add: GetLabelsAndAnnotations_def owner_annotations_def Let_def del: map_of_update)

lemma GetLabels_nothing: "GetLabelsAndAnnotations L [] None = Inr ([], [])"
  by (simp add: GetLabelsAndAnnotations_def)

lemma GetLabels_subcontext:
  "sub \<noteq> [] \<Longrightarrow> GetLabelsAndAnnotations L sub None =
     Inr ([(LabelHash, objectSetHash L [LabelSubContext \<mapsto> sub])], [(LabelSubContext, sub)])"
  by (simp add: GetLabelsAndAnnotations_def Let_def del: map_of_update)

lemma hash_owner_annotations:
  "objectSetHash L (map_of (owner_annotations L sub g o')) =
     sha1Hex L (sub @ gvkString L g @ Name o' @ Namespace o')"
  by (simp add: objectSetHash_def owner_annotations_def hashOrder_def get_str_def)

text \<open>An object stamped for an owner stays the owner's: its hash label is the hash of its own
  ownership annotations (the test \<open>compareSets\<close> makes before it prunes an object), whatever
  labels and annotations it had before, and the stale \<open>applied\<close> annotation is gone.\<close>

theorem inject_hash_consistent:
  assumes "GetLabelsAndAnnotations L sub (Some o') = Inr (labels, annotations)"
  shows "get_str (Labels (inject_one labels annotations obj)) LabelHash =
      objectSetHash L (Annotations (inject_one labels annotations obj)) \<and>
    Annotations (inject_one labels annotations obj) LabelApplied = None \<and>
    get_str (Annotations (inject_one labels annotations obj)) LabelName = Name o' \<and>
    get_str (Annotations (inject_one labels annotations obj)) LabelNamespace = Namespace o' \<and>
    get_str (Annotations (inject_one labels annotations obj)) LabelSubContext = sub"
proof -
  obtain g where g: "gvkFor L o' = Inr g"
    using assms by (auto simp: GetLabelsAndAnnotations_def Let_def split: sum.splits)
  have "labels = [(LabelHash, objectSetHash L (map_of (owner_annotations L sub g o')))]"
    "annotations = owner_annotations L sub g o'"
    using trans [OF GetLabels_owner [OF g, of sub, symmetric] assms] by auto
  then show ?thesis
    by (simp add: inject_one_def setLabels_def setAnnotations_def owner_annotations_def
        objectSetHash_def hashOrder_def get_str_def)
qed

theorem inject_hash_consistent_witness:
  "let obj = empty_obj\<lparr>Name := ''cm'', Annotations := [LabelName \<mapsto> ''stale'', LabelApplied \<mapsto> ''x'']\<rparr>;
       la = projr (GetLabelsAndAnnotations example_lib ''sub'' (Some (empty_obj\<lparr>Name := ''own''\<rparr>)));
       obj' = inject_one (fst la) (snd la) obj
   in get_str (Labels obj') LabelHash = objectSetHash example_lib (Annotations obj') \<and>
      get_str (Annotations obj') LabelName = ''own''"
proof -
  let ?own = "empty_obj\<lparr>Name := ''own''\<rparr>"
  have g: "gvkFor example_lib ?own = Inr \<lparr>Group = [], Version = ''v1'', Kind = ''Object''\<rparr>"
    by (simp add: example_lib_def empty_obj_def)
  from inject_hash_consistent [OF GetLabels_owner [OF g, of "''sub''"]]
  show ?thesis by (simp add: GetLabels_owner [OF g] Let_def)
qed

text \<open>An existing owner is replaced only by itself taking a sub-context or by a registered change:
  when either test allows the takeover, the new object names a sub-context and every owner field
  (kind, namespace, name) that the existing object has recorded is the same on the new one.\<close>

theorem owner_transition_safe:
  assumes "isAssigningSubContext existing new \<or> isAllowOwnerTransition valid existing new"
  shows "get_str (Annotations new) LabelSubContext \<noteq> [] \<and>
    (\<forall>l \<in> {LabelGVK, LabelNamespace, LabelName}.
       get_str (Annotations existing) l = [] \<or> get_str (Annotations existing) l = get_str (Annotations new) l) \<and>
    (get_str (Annotations existing) LabelSubContext = [] \<or>
     valid (ownerChangeKey (get_str (Annotations existing) LabelSubContext)
                           (get_str (Annotations new) LabelSubContext)))"
  using assms
  by (auto simp: isAssigningSubContext_def isAllowOwnerTransition_def Let_def split: if_splits)

theorem owner_transition_safe_witness:
  "let old = empty_obj\<lparr>Annotations := [LabelSubContext \<mapsto> ''a'', LabelName \<mapsto> ''n'']\<rparr>;
       new = empty_obj\<lparr>Annotations := [LabelSubContext \<mapsto> ''b'', LabelName \<mapsto> ''n'']\<rparr>;
       valid = AddValidOwnerChange ''a'' ''b'' (\<lambda>_. False)
   in isAllowOwnerTransition valid old new \<and> get_str (Annotations new) LabelSubContext \<noteq> []"
proof -
  let ?old = "empty_obj\<lparr>Annotations := [LabelSubContext \<mapsto> ''a'', LabelName \<mapsto> ''n'']\<rparr>"
  let ?new = "empty_obj\<lparr>Annotations := [LabelSubContext \<mapsto> ''b'', LabelName \<mapsto> ''n'']\<rparr>"
  let ?valid = "AddValidOwnerChange ''a'' ''b'' (\<lambda>_. False)"
  have h: "isAllowOwnerTransition ?valid ?old ?new"
    by (simp add: isAllowOwnerTransition_def AddValidOwnerChange_def)
  from owner_transition_safe [OF disjI2 [OF h]] h show ?thesis by (simp add: Let_def)
qed

end
