(* ===== verification/Apply_Compare.thy ===== *)
theory Apply_Compare
  imports Apply_Labels Error_Lists Memo
begin

text \<open>
  pkg/apply/desiredset_compare.go, patch_style.go and reconcilers.go: what is recorded of an applied
  object, how a patch is computed and cleaned, and when an object has to be replaced instead.
  The three-way merge itself is library code (\<open>strategicPatch\<close>, \<open>jsonMergePatch\<close>).
\<close>

section \<open>Values kept in the applied annotation\<close>

definition knownListKeys :: "string list" where
  "knownListKeys = [''apiVersion'', ''containerPort'', ''devicePath'', ''ip'', ''kind'', ''mountPath'',
     ''name'', ''port'', ''topologyKey'', ''type'']"

text \<open>The inner switch of \<open>pruneValues\<close>.\<close>

definition pruneScalar :: "('a) lib_scheme \<Rightarrow> json \<Rightarrow> json" where
  "pruneScalar L v =
     (case v of
        JStr x \<Rightarrow> (if 64 < length x then JStr (take 64 x @ take 8 (sha256Hex L x)) else v)
      | JBytes b \<Rightarrow> JNull
      | _ \<Rightarrow> v)"

fun pruneList :: "('a) lib_scheme \<Rightarrow> json list \<Rightarrow> json list"
  and pruneValues :: "('a) lib_scheme \<Rightarrow> (string \<times> json) list \<Rightarrow> bool \<Rightarrow> (string \<times> json) list"
where
  "pruneList L [] = []"
| "pruneList L (v # vs) =
     (case v of
        JMap typed \<Rightarrow> JMap (pruneValues L typed True)
      | JList typed \<Rightarrow> JList (pruneList L typed)
      | _ \<Rightarrow> v) # pruneList L vs"
| "pruneValues L [] isList = []"
| "pruneValues L ((k, v) # kvs) isList =
     (k, case v of
        JMap typed \<Rightarrow> JMap (pruneValues L typed False)
      | JList typed \<Rightarrow> JList (pruneList L typed)
      | _ \<Rightarrow> (if isList \<and> List.member knownListKeys k then v else pruneScalar L v))
     # pruneValues L kvs isList"

text \<open>pkg/data/map.go, for the object the applier hands it.\<close>

datatype any_val = AnyMap jmap | AnyObj kobj

definition ToMapInterface :: "('a) lib_scheme \<Rightarrow> any_val \<Rightarrow> err + jmap" where
  "ToMapInterface L obj =
     (case obj of
        AnyMap m \<Rightarrow> Inr m
      | AnyObj unstr \<Rightarrow>
          (if GoType unstr = unstructuredType then Inr (contentOf L unstr)
           else (case marshalObj L unstr of
                   Inl err \<Rightarrow> Inl err
                 | Inr b \<Rightarrow> decodeNumbers L b)))"

definition serializeApplied :: "('a) lib_scheme \<Rightarrow> kobj \<Rightarrow> err + string" where
  "serializeApplied L obj =
     (case ToMapInterface L (AnyObj obj) of
        Inl err \<Rightarrow> Inl err
      | Inr data \<Rightarrow> marshalMap L (pruneValues L data False))"

definition appliedToAnnotation :: "('a) lib_scheme \<Rightarrow> string \<Rightarrow> string" where
  "appliedToAnnotation L b =
     (case gzip L b of Inl err \<Rightarrow> b | Inr z \<Rightarrow> base64Encode L z)"

definition appliedFromAnnotation :: "('a) lib_scheme \<Rightarrow> string \<Rightarrow> string" where
  "appliedFromAnnotation L str =
     (if length str = 0 \<or> str ! 0 = CHR ''{'' then str
      else (case base64Decode L str of
              Inl err \<Rightarrow> []
            | Inr b \<Rightarrow> (case gunzip L b of Inl err \<Rightarrow> [] | Inr r \<Rightarrow> r)))"

text \<open>
  \<open>meta.Accessor\<close> and \<open>meta.TypeAccessor\<close> succeed on a \<open>client.Object\<close>. Without \<open>clone\<close> the code
  changes the caller's object: the model returns the changed object either way.
\<close>

definition prepareObjectForCreate :: "('a) lib_scheme \<Rightarrow> gvk \<Rightarrow> kobj \<Rightarrow> bool \<Rightarrow> err + kobj" where
  "prepareObjectForCreate L g obj clone =
     (case serializeApplied L obj of
        Inl err \<Rightarrow> Inl err
      | Inr serialized \<Rightarrow>
          let obj = (if clone then obj\<lparr>UID := [], CreationTimestamp := None\<rparr> else obj);
              obj = obj\<lparr>Annotations := (Annotations obj)(LabelApplied \<mapsto> appliedToAnnotation L serialized)\<rparr>
          in Inr (obj\<lparr>TypeMeta := apiVersionAndKind L g\<rparr>))"

section \<open>Cleaning a patch\<close>

definition metadataFields :: "string list" where
  "metadataFields = [''creationTimestamp'', ''generation'', ''resourceVersion'', ''uid'', ''managedFields'']"

text \<open>An update inside a nested map, which Go shares by reference; anything but a map is left alone.\<close>

definition update_map_field :: "string \<Rightarrow> (jmap \<Rightarrow> jmap) \<Rightarrow> jmap \<Rightarrow> jmap" where
  "update_map_field f g data =
     (case map_of data f of
        Some (JMap m) \<Rightarrow> AList.update f (JMap (g m)) data
      | _ \<Rightarrow> data)"

definition removeMetadataFields :: "jmap \<Rightarrow> jmap \<times> bool" where
  "removeMetadataFields data =
     (case map_of data ''metadata'' of
        None \<Rightarrow> (data, False)
      | Some metadata \<Rightarrow>
          (update_map_field ''metadata'' (fold AList.delete metadataFields) data,
           list_ex (\<lambda>key. map_of (as_map metadata) key \<noteq> None) metadataFields))"

fun emptyMaps_loop :: "jmap \<Rightarrow> string list \<Rightarrow> bool" where
  "emptyMaps_loop data [] = True"
| "emptyMaps_loop data (key # keys) =
     (if length data = 0 then True
      else if 1 < length data then False
      else (case map_of data key of
              None \<Rightarrow> False
            | Some value \<Rightarrow> emptyMaps_loop (as_map value) keys))"

definition emptyMaps :: "jmap \<Rightarrow> string list \<Rightarrow> bool" where
  "emptyMaps data keys = emptyMaps_loop data (keys @ [''__invalid_key__''])"

fun mapField :: "jmap \<Rightarrow> string list \<Rightarrow> jmap" where
  "mapField data [] = data"
| "mapField data (f # fs) = mapField (as_map_opt (map_of data f)) fs"

text \<open>The three top-level keys, then the metadata fields: the first half of \<open>sanitizePatch\<close>.\<close>

definition drop_server_fields :: "jmap \<Rightarrow> jmap \<times> bool" where
  "drop_server_fields data =
     (let keys = [''kind'', ''apiVersion'', ''status''];
          md = list_ex (\<lambda>k. map_of data k \<noteq> None) keys;
          data = fold AList.delete keys data
      in (case removeMetadataFields data of (data, deleted) \<Rightarrow> (data, md \<or> deleted)))"

definition drop_set_annotations :: "jmap \<Rightarrow> bool \<Rightarrow> jmap \<times> bool" where
  "drop_set_annotations data md =
     (let annotations = mapField data [''metadata'', ''annotations''];
          annotations' = filter (\<lambda>(k, v). \<not> strings_HasPrefix k LabelPrefix) annotations;
          md = (md \<or> list_ex (\<lambda>(k, v). strings_HasPrefix k LabelPrefix) annotations);
          data = update_map_field ''metadata'' (update_map_field ''annotations'' (\<lambda>_. annotations')) data
      in if md \<and> length annotations' = 0
         then let data = update_map_field ''metadata'' (AList.delete ''annotations'') data
              in (if length (mapField data [''metadata'']) = 0 then AList.delete ''metadata'' data else data,
                  md)
         else (data, md))"

definition sanitizePatch :: "('a) lib_scheme \<Rightarrow> string \<Rightarrow> bool \<Rightarrow> err + string" where
  "sanitizePatch L patch removeObjectSetAnnotation =
     (case unmarshalMap L patch of
        Inl err \<Rightarrow> Inl err
      | Inr data \<Rightarrow>
          (case drop_server_fields data of
             (data, md) \<Rightarrow>
               (case (if removeObjectSetAnnotation then drop_set_annotations data md else (data, md)) of
                  (data, md) \<Rightarrow>
                    if emptyMaps data [''metadata'', ''annotations''] then Inr ''{}''
                    else if emptyMaps data [''metadata'', ''annotations'', ''apply.acorn.io/applied'']
                    then Inr ''{}''
                    else if \<not> md then Inr patch
                    else marshalMap L data)))"

section \<open>The original object\<close>

definition getOriginalObject :: "('a) lib_scheme \<Rightarrow> gvk \<Rightarrow> kobj \<Rightarrow> err + kobj option" where
  "getOriginalObject L g obj =
     (let original = appliedFromAnnotation L (get_str (Annotations obj) LabelApplied) in
      if length original = 0 then Inr None
      else (case unmarshalMap L original of
              Inl err \<Rightarrow> Inl err
            | Inr mapObj \<Rightarrow>
                (case prepareObjectForCreate L g
                        (unstructuredOf L (fst (removeMetadataFields mapObj))) True of
                   Inl err \<Rightarrow> Inl err
                 | Inr o' \<Rightarrow> Inr (Some o'))))"

definition getOriginalBytes :: "('a) lib_scheme \<Rightarrow> gvk \<Rightarrow> kobj \<Rightarrow> err + string" where
  "getOriginalBytes L g obj =
     (case getOriginalObject L g obj of
        Inl err \<Rightarrow> Inl err
      | Inr None \<Rightarrow> Inr ''{}''
      | Inr (Some objCopy) \<Rightarrow> marshalObj L objCopy)"

definition originalAndModified :: "('a) lib_scheme \<Rightarrow> gvk \<Rightarrow> kobj \<Rightarrow> kobj \<Rightarrow> err + string \<times> string" where
  "originalAndModified L g oldMetadata newObject =
     (case getOriginalBytes L g oldMetadata of
        Inl err \<Rightarrow> Inl err
      | Inr original \<Rightarrow>
          (case prepareObjectForCreate L g newObject True of
             Inl err \<Rightarrow> Inl err
           | Inr newObject \<Rightarrow>
               (case marshalObj L newObject of
                  Inl err \<Rightarrow> Inl err
                | Inr modified \<Rightarrow> Inr (original, modified))))"

section \<open>Merge styles and patches\<close>

text \<open>
  The global \<open>patchCache\<close> and the world behind the client are the state of a comparison. A lookup
  of patch metadata is identified by the Go type whose struct tags it reads.
\<close>

type_synonym patchCacheEntry = "patchType \<times> string option"

record 'w astate =
  world :: 'w
  patchCache :: "(gvk, patchCacheEntry) gomap"

definition getMergeStyle ::
  "('a) lib_scheme \<Rightarrow> gvk \<Rightarrow> (gvk, patchCacheEntry) gomap
     \<Rightarrow> (err + patchCacheEntry) \<times> (gvk, patchCacheEntry) gomap" where
  "getMergeStyle L g cache =
     (case map_of cache g of
        Some entry \<Rightarrow> (Inr entry, cache)
      | None \<Rightarrow>
          let store = (\<lambda>entry. (Inr entry, AList.update g entry cache)) in
          (if clientGoNew L g = NotRegistered \<or> Kind g = ''CustomResourceDefinition''
           then store (MergePatchType, None)
           else (case clientGoNew L g of
                   NewErr err \<Rightarrow> (Inl err, cache)
                 | NotRegistered \<Rightarrow> store (MergePatchType, None)
                 | NewOk versionedObject \<Rightarrow>
                     (case patchMetaFromStruct L versionedObject of
                        Some err \<Rightarrow> (Inl err, cache)
                      | None \<Rightarrow> store (StrategicMergePatchType, Some versionedObject)))))"

definition createPatch ::
  "('a) lib_scheme \<Rightarrow> gvk \<Rightarrow> string \<Rightarrow> string \<Rightarrow> string \<Rightarrow> (gvk, patchCacheEntry) gomap
     \<Rightarrow> (err + patchType \<times> string) \<times> (gvk, patchCacheEntry) gomap" where
  "createPatch L g original modified current cache =
     (case getMergeStyle L g cache of
        (Inl err, cache) \<Rightarrow> (Inl err, cache)
      | (Inr (pt, lookupPatchMeta), cache) \<Rightarrow>
          (case (if pt = StrategicMergePatchType
                 then strategicPatch L original modified current lookupPatchMeta
                 else jsonMergePatch L original modified current) of
             Inl err \<Rightarrow> (Inl err, cache)
           | Inr patch \<Rightarrow> (Inr (pt, patch), cache)))"

text \<open>
  \<open>applyPatch\<close>: whether a patch was sent (or a reconciler took over), the error, the new object as
  it is left (the caller's object when \<open>ensure\<close> is set), the state.
\<close>

definition send_patch ::
  "('w, 'a) kube_scheme \<Rightarrow> applier \<Rightarrow> gvk \<Rightarrow> kobj \<Rightarrow> kobj \<Rightarrow> patchType \<Rightarrow> string \<Rightarrow> 'w astate
     \<Rightarrow> bool \<times> err option \<times> kobj \<times> 'w astate" where
  "send_patch K a g oldObject newObject pt patch st =
     (if ensure a
      then (case clPatch K (world st) (newObject\<lparr>ResourceVersion := ResourceVersion oldObject\<rparr>) pt patch of
              (err, newObject, w) \<Rightarrow> (True, err, newObject, st\<lparr>world := w\<rparr>))
      else (case clPatch K (world st)
                   (unstructured_ref K g (Namespace oldObject) (Name oldObject) (ResourceVersion oldObject))
                   pt patch of
              (err, _, w) \<Rightarrow> (True, err, newObject, st\<lparr>world := w\<rparr>)))"

definition run_reconciler ::
  "('a) lib_scheme \<Rightarrow> applier \<Rightarrow> gvk \<Rightarrow> kobj \<Rightarrow> kobj \<Rightarrow> err + bool" where
  "run_reconciler L a g oldObject newObject =
     (case reconcilers a g of
        None \<Rightarrow> Inr False
      | Some reconciler \<Rightarrow>
          (case prepareObjectForCreate L g newObject True of
             Inl err \<Rightarrow> Inl err
           | Inr newObject \<Rightarrow>
               (case getOriginalObject L g oldObject of
                  Inl err \<Rightarrow> Inl err
                | Inr originalObject \<Rightarrow>
                    (case reconciler (case originalObject of None \<Rightarrow> oldObject | Some o' \<Rightarrow> o') newObject of
                       (_, Some err) \<Rightarrow> Inl err
                     | (handled, None) \<Rightarrow> Inr handled))))"

definition applyPatch ::
  "('w, 'a) kube_scheme \<Rightarrow> applier \<Rightarrow> gvk \<Rightarrow> kobj \<Rightarrow> kobj \<Rightarrow> 'w astate
     \<Rightarrow> bool \<times> err option \<times> kobj \<times> 'w astate" where
  "applyPatch K a g oldObject newObject st =
     (case originalAndModified K g oldObject newObject of
        Inl err \<Rightarrow> (False, Some err, newObject, st)
      | Inr (original, modified) \<Rightarrow>
     (case marshalObj K oldObject of
        Inl err \<Rightarrow> (False, Some err, newObject, st)
      | Inr current \<Rightarrow>
     (case createPatch K g original modified current (patchCache st) of
        (Inl err, cache) \<Rightarrow>
          (False, Some (Wrap ''patch generation: '' err), newObject, st\<lparr>patchCache := cache\<rparr>)
      | (Inr (pt, patch), cache) \<Rightarrow>
          let st = st\<lparr>patchCache := cache\<rparr> in
          if patch = ''{}'' then (False, None, newObject, st)
          else
     (case sanitizePatch K patch False of
        Inl err \<Rightarrow> (False, Some err, newObject, st)
      | Inr patch \<Rightarrow>
          if patch = ''{}'' then (False, None, newObject, st)
          else
     (case run_reconciler K a g oldObject newObject of
        Inl err \<Rightarrow> (False, Some err, newObject, st)
      | Inr True \<Rightarrow> (True, None, newObject, st)
      | Inr False \<Rightarrow> send_patch K a g oldObject newObject pt patch st)))))"

definition compareObjects ::
  "('w, 'a) kube_scheme \<Rightarrow> applier \<Rightarrow> gvk \<Rightarrow> kobj \<Rightarrow> kobj \<Rightarrow> 'w astate
     \<Rightarrow> err option \<times> kobj \<times> 'w astate" where
  "compareObjects K a g oldObject newObject st =
     (case applyPatch K a g oldObject newObject st of
        (_, Some err, newObject, st) \<Rightarrow> (Some err, newObject, st)
      | (True, None, newObject, st) \<Rightarrow> (None, newObject, st)
      | (False, None, newObject, st) \<Rightarrow>
          if ensure a
          then (if GoType oldObject \<noteq> GoType newObject
                then (Some (Err (''type '' @ GoType oldObject @ '' not assignable to '' @ GoType newObject)),
                      newObject, st)
                else (None, oldObject, st))
          else (None, newObject, st))"

section \<open>Reconcilers\<close>

definition convertObj :: "('a) lib_scheme \<Rightarrow> kobj option \<Rightarrow> string \<Rightarrow> err + kobj" where
  "convertObj L src goType =
     (case src of
        None \<Rightarrow> Inl (Err ''expected unstructured but got <nil>'')
      | Some src \<Rightarrow>
          (if GoType src \<noteq> unstructuredType
           then Inl (Err (''expected unstructured but got '' @ GoType src))
           else (case marshalObj L src of
                   Inl err \<Rightarrow> Inl err
                 | Inr bytes \<Rightarrow> unmarshalAs L goType bytes)))"

text \<open>The type assertion, or else the conversion, with which each reconciler starts.\<close>

definition as_typed :: "('a) lib_scheme \<Rightarrow> string \<Rightarrow> kobj \<Rightarrow> err + kobj" where
  "as_typed L goType obj = (if GoType obj = goType then Inr obj else convertObj L (Some obj) goType)"

definition reconcileSelector :: "('a) lib_scheme \<Rightarrow> string \<Rightarrow> reconciler" where
  "reconcileSelector L goType oldObj newObj =
     (case as_typed L goType oldObj of
        Inl err \<Rightarrow> (False, Some err)
      | Inr oldSvc \<Rightarrow>
          (case as_typed L goType newObj of
             Inl err \<Rightarrow> (False, Some err)
           | Inr newSvc \<Rightarrow>
               if \<not> semanticDeepEqual L (fieldVal L ''Spec.Selector'' oldSvc) (fieldVal L ''Spec.Selector'' newSvc)
               then (False, Some ErrReplace)
               else (False, None)))"

definition reconcileDaemonSet :: "('a) lib_scheme \<Rightarrow> reconciler" where
  "reconcileDaemonSet L = reconcileSelector L ''*v1.DaemonSet''"

definition reconcileDeployment :: "('a) lib_scheme \<Rightarrow> reconciler" where
  "reconcileDeployment L = reconcileSelector L ''*v1.Deployment''"

definition reconcileType :: "('a) lib_scheme \<Rightarrow> string \<Rightarrow> string \<Rightarrow> reconciler" where
  "reconcileType L goType field oldObj newObj =
     (case as_typed L goType oldObj of
        Inl err \<Rightarrow> (False, Some err)
      | Inr oldSvc \<Rightarrow>
          (case as_typed L goType newObj of
             Inl err \<Rightarrow> (False, Some err)
           | Inr newSvc \<Rightarrow>
               if fieldVal L field newSvc \<noteq> JStr [] \<and> fieldVal L field oldSvc \<noteq> fieldVal L field newSvc
               then (False, Some ErrReplace)
               else (False, None)))"

definition reconcileSecret :: "('a) lib_scheme \<Rightarrow> reconciler" where
  "reconcileSecret L = reconcileType L ''*v1.Secret'' ''Type''"

definition reconcileService :: "('a) lib_scheme \<Rightarrow> reconciler" where
  "reconcileService L = reconcileType L ''*v1.Service'' ''Spec.Type''"

definition reconcileJob :: "('a) lib_scheme \<Rightarrow> reconciler" where
  "reconcileJob L oldObj newObj =
     (case as_typed L ''*v1.Job'' oldObj of
        Inl err \<Rightarrow> (False, Some err)
      | Inr oldJob \<Rightarrow>
     (case as_typed L ''*v1.Job'' newObj of
        Inl err \<Rightarrow> (False, Some err)
      | Inr newJob \<Rightarrow>
     (case getOriginalObject L (gvkOfTypeMeta L newJob) newJob of
        Inl err \<Rightarrow> (False, Some err)
      | Inr prunedSvc \<Rightarrow>
     (case convertObj L prunedSvc ''*v1.Job'' of
        Inl err \<Rightarrow> (False, Some err)
      | Inr newPrunedJob \<Rightarrow>
          if \<not> semanticDeepEqual L (fieldVal L ''Spec.Template'' oldJob)
                                   (fieldVal L ''Spec.Template'' newPrunedJob)
          then (False, Some ErrReplace)
          else (False, None)))))"

definition defaultReconcilers :: "('a) lib_scheme \<Rightarrow> gvk \<Rightarrow> reconciler option" where
  "defaultReconcilers L =
     [\<lparr>Group = [], Version = ''v1'', Kind = ''Secret''\<rparr> \<mapsto> reconcileSecret L,
      \<lparr>Group = [], Version = ''v1'', Kind = ''Service''\<rparr> \<mapsto> reconcileService L,
      \<lparr>Group = ''batch'', Version = ''v1'', Kind = ''Job''\<rparr> \<mapsto> reconcileJob L,
      \<lparr>Group = ''apps'', Version = ''v1'', Kind = ''Deployment''\<rparr> \<mapsto> reconcileDeployment L,
      \<lparr>Group = ''apps'', Version = ''v1'', Kind = ''DaemonSet''\<rparr> \<mapsto> reconcileDaemonSet L]"

section \<open>Properties of the merge-style cache\<close>

interpretation merge_style: memo "getMergeStyle L" map_of for L :: "('a) lib_scheme"
  by unfold_locales
    (auto simp: getMergeStyle_def Let_def split: option.splits if_splits new_result.splits)

text \<open>The merge style of a kind is decided once: after \<open>getMergeStyle\<close> has answered, every
  later call for that kind gives the same answer whatever calls came between, and an error is not cached.\<close>

theorem getMergeStyle_stable:
  assumes "getMergeStyle L g cache = (r, cache')"
  shows "(case r of
      Inr entry \<Rightarrow> fst (getMergeStyle L g (fold (\<lambda>h c. snd (getMergeStyle L h c)) gs cache')) = Inr entry
    | Inl e \<Rightarrow> map_of cache' g = None)"
  using assms merge_style.answer_stable [of L g cache _ cache' gs] merge_style.error_recomputed [of L g cache]
  by (auto split: sum.splits)

theorem getMergeStyle_stable_witness:
  "let g = \<lparr>Group = [], Version = ''v1'', Kind = ''Pod''\<rparr>;
       h = \<lparr>Group = [], Version = ''v1'', Kind = ''Job''\<rparr>;
       c = snd (getMergeStyle example_lib g [])
   in fst (getMergeStyle example_lib g (snd (getMergeStyle example_lib h c))) = Inr (MergePatchType, None)"
proof -
  let ?g = "\<lparr>Group = [], Version = ''v1'', Kind = ''Pod''\<rparr>"
  have "getMergeStyle example_lib ?g [] = (Inr (MergePatchType, None), [(?g, (MergePatchType, None))])"
    by (simp add: getMergeStyle_def example_lib_def)
  from getMergeStyle_stable [OF this, of "[\<lparr>Group = [], Version = ''v1'', Kind = ''Job''\<rparr>]"] this
  show ?thesis by (simp add: Let_def)
qed

section \<open>Properties of the applied annotation\<close>

text \<open>What is written into the applied annotation is read back unchanged, compressed or, when
  compression fails, as plain JSON text: the base64 text is never mistaken for JSON.\<close>

theorem applied_roundtrip:
  assumes "\<And>x z. gzip L x = Inr z \<Longrightarrow> gunzip L z = Inr x \<and> z \<noteq> []"
    and "\<And>x. base64Decode L (base64Encode L x) = Inr x"
    and "\<And>x. x \<noteq> [] \<Longrightarrow> base64Encode L x \<noteq> [] \<and> hd (base64Encode L x) \<noteq> CHR ''{''"
    and "hd b = CHR ''{''" and "b \<noteq> []"
  shows "appliedFromAnnotation L (appliedToAnnotation L b) = b"
proof (cases "gzip L b")
  case (Inl e)
  with assms(4,5) show ?thesis
    by (simp add: appliedToAnnotation_def appliedFromAnnotation_def hd_conv_nth)
next
  case (Inr z)
  with assms(1) have z: "gunzip L z = Inr b" "z \<noteq> []" by auto
  with assms(3) have "base64Encode L z \<noteq> []" "base64Encode L z ! 0 \<noteq> CHR ''{''"
    by (metis hd_conv_nth)+
  with Inr z assms(2) show ?thesis
    by (simp add: appliedToAnnotation_def appliedFromAnnotation_def)
qed

theorem applied_roundtrip_witness:
  "appliedFromAnnotation (example_lib\<lparr>gzip := \<lambda>x. Inr (CHR ''z'' # x), gunzip := \<lambda>z. Inr (tl z)\<rparr>)
     (appliedToAnnotation (example_lib\<lparr>gzip := \<lambda>x. Inr (CHR ''z'' # x), gunzip := \<lambda>z. Inr (tl z)\<rparr>) ''{}'')
   = ''{}''"
  by (rule applied_roundtrip) (auto simp: example_lib_def)

lemma pruneValues_keys: "map fst (pruneValues L m isList) = map fst m"
  by (induction m) auto

fun short_value :: "json \<Rightarrow> bool"
  and short_list :: "json list \<Rightarrow> bool"
  and short_map :: "(string \<times> json) list \<Rightarrow> bool"
where
  "short_value (JStr x) = (length x \<le> 64)"
| "short_value (JBytes b) = False"
| "short_value (JList vs) = short_list vs"
| "short_value (JMap m) = short_map m"
| "short_value v = True"
| "short_list [] = True"
| "short_list (v # vs) = (short_value v \<and> short_list vs)"
| "short_map [] = True"
| "short_map ((k, v) # m) = (short_value v \<and> short_map m)"

lemma prune_short:
  "short_value v \<Longrightarrow> (case v of JMap m \<Rightarrow> \<forall>b. pruneValues L m b = m | JList vs \<Rightarrow> pruneList L vs = vs
      | _ \<Rightarrow> pruneScalar L v = v)"
  "short_list vs \<Longrightarrow> pruneList L vs = vs"
  "short_map m \<Longrightarrow> pruneValues L m b = m"
  by (induction v and vs and m arbitrary: and and b rule: short_value_short_list_short_map.induct)
    (auto simp: pruneScalar_def split: json.splits)

text \<open>
  What the annotation may hold: strings of at most 72 bytes and no byte slices in the fields of
  objects, except under the well-known keys of list elements, which are kept whole.
\<close>

fun fits_list :: "json list \<Rightarrow> bool"
  and fits_map :: "(string \<times> json) list \<Rightarrow> bool \<Rightarrow> bool"
where
  "fits_list [] = True"
| "fits_list (v # vs) =
     ((case v of JMap m \<Rightarrow> fits_map m True | JList l \<Rightarrow> fits_list l | _ \<Rightarrow> True) \<and> fits_list vs)"
| "fits_map [] isList = True"
| "fits_map ((k, v) # m) isList =
     ((case v of
         JMap m' \<Rightarrow> fits_map m' False
       | JList l \<Rightarrow> fits_list l
       | JStr x \<Rightarrow> (isList \<and> List.member knownListKeys k) \<or> length x \<le> 72
       | JBytes b \<Rightarrow> isList \<and> List.member knownListKeys k
       | _ \<Rightarrow> True) \<and> fits_map m isList)"

lemma prune_fits: "fits_list (pruneList L vs)" "fits_map (pruneValues L m isList) isList"
  by (induction vs and m isList rule: pruneList_pruneValues.induct)
    (auto simp: pruneScalar_def split: json.splits if_splits)

text \<open>Pruning bounds what is recorded of an applied object: it keeps every key, cuts each long string
  to at most 72 bytes and drops byte slices (well-known keys of list elements excepted), and it
  changes nothing in a value that has no long string and no byte slice.\<close>

theorem pruneValues_bounded:
  "map fst (pruneValues L m False) = map fst m \<and> fits_map (pruneValues L m False) False \<and>
   (short_map m \<longrightarrow> pruneValues L m False = m)"
  using prune_fits(2) [of L m False] prune_short(3) [of m L False] by (simp add: pruneValues_keys)

theorem pruneValues_bounded_witness:
  "pruneValues example_lib [(''data'', JList [JMap [(''name'', JStr ''x'')]])] False =
     [(''data'', JList [JMap [(''name'', JStr ''x'')]])]"
  using pruneValues_bounded [of example_lib "[(''data'', JList [JMap [(''name'', JStr ''x'')]])]"] by simp

section \<open>Properties of a cleaned patch\<close>

definition server_clean :: "jmap \<Rightarrow> bool" where
  "server_clean d \<longleftrightarrow>
     (\<forall>k \<in> {''kind'', ''apiVersion'', ''status''}. map_of d k = None) \<and>
     (\<forall>f \<in> set metadataFields. map_of (mapField d [''metadata'']) f = None)"

definition set_clean :: "jmap \<Rightarrow> bool" where
  "set_clean d \<longleftrightarrow>
     (\<forall>(k, v) \<in> set (mapField d [''metadata'', ''annotations'']). \<not> strings_HasPrefix k LabelPrefix)"

lemma as_map_opt_simps [simp]: "as_map_opt None = []" "as_map_opt (Some (JMap m)) = m"
  by (simp_all add: as_map_opt_def as_map_def)

lemma as_map_opt_other: "(\<And>m. v \<noteq> Some (JMap m)) \<Longrightarrow> as_map_opt v = []"
  by (auto simp: as_map_opt_def as_map_def split: option.splits json.splits)

lemma map_of_update_map_field:
  "map_of (update_map_field f g d) k =
     (if k = f then map_option (\<lambda>v. case v of JMap m \<Rightarrow> JMap (g m) | _ \<Rightarrow> v) (map_of d k)
      else map_of d k)"
  by (auto simp: update_map_field_def split: option.splits json.splits)

lemma mapField_update_map_field:
  assumes "g [] = []"
  shows "as_map_opt (map_of (update_map_field f g d) f) = g (as_map_opt (map_of d f))"
proof (cases "\<exists>m. map_of d f = Some (JMap m)")
  case True
  then show ?thesis by (auto simp: map_of_update_map_field)
next
  case False
  then have "as_map_opt (map_of d f) = []" by (intro as_map_opt_other) auto
  moreover have "update_map_field f g d = d"
    using False by (auto simp: update_map_field_def split: option.splits json.splits)
  ultimately show ?thesis using assms by simp
qed

lemma mapField_upd [simp]:
  "g [] = [] \<Longrightarrow> mapField (update_map_field f g d) [f] = g (mapField d [f])"
  by (simp add: mapField_update_map_field)

lemma update_map_field_Nil [simp]: "update_map_field f g [] = []"
  by (simp add: update_map_field_def)

lemma update_map_field_id:
  "(\<And>m. map_of d f = Some (JMap m) \<Longrightarrow> g m = m) \<Longrightarrow> update_map_field f g d = d"
  by (auto simp: update_map_field_def update_triv split: option.splits json.splits)

lemma map_of_fold_delete:
  "map_of (fold AList.delete ks m) k = (if k \<in> set ks then None else map_of m k)"
  by (induction ks arbitrary: m) auto

lemma fold_delete_id: "\<forall>k \<in> set ks. map_of m k = None \<Longrightarrow> fold AList.delete ks m = m"
  by (induction ks) (simp_all add: map_of_eq_None_iff)

lemma fold_delete_Nil [simp]: "fold AList.delete ks [] = []"
  by (induction ks) simp_all

lemma metadata_field_names: "''kind'' \<noteq> ''metadata''" "''apiVersion'' \<noteq> ''metadata''" "''status'' \<noteq> ''metadata''"
  by simp_all

lemma removeMetadataFields_fst:
  "fst (removeMetadataFields d) = update_map_field ''metadata'' (fold AList.delete metadataFields) d"
  by (auto simp: removeMetadataFields_def update_map_field_def split: option.splits)

lemma drop_server_fields_clean: "server_clean (fst (drop_server_fields d))"
proof -
  let ?d = "fold AList.delete [''kind'', ''apiVersion'', ''status''] d"
  have "fst (drop_server_fields d) = update_map_field ''metadata'' (fold AList.delete metadataFields) ?d"
    by (simp add: drop_server_fields_def Let_def removeMetadataFields_fst [symmetric] split: prod.splits)
  moreover have "mapField (fst (drop_server_fields d)) [''metadata''] =
      fold AList.delete metadataFields (as_map_opt (map_of ?d ''metadata''))"
    using calculation by (simp add: mapField_update_map_field del: fold_simps)
  ultimately show ?thesis
    by (auto simp: server_clean_def map_of_update_map_field map_of_fold_delete
        simp del: fold_simps mapField.simps)
qed

lemma drop_server_fields_id:
  assumes "server_clean d"
  shows "drop_server_fields d = (d, False)"
proof -
  have d: "fold AList.delete [''kind'', ''apiVersion'', ''status''] d = d"
    using assms by (intro fold_delete_id) (auto simp: server_clean_def)
  have "fst (removeMetadataFields d) = d"
    unfolding removeMetadataFields_fst
    using assms by (intro update_map_field_id fold_delete_id) (auto simp: server_clean_def)
  moreover have "\<not> snd (removeMetadataFields d)"
    using assms
    by (auto simp: removeMetadataFields_def server_clean_def list_ex_iff as_map_opt_def split: option.splits)
  ultimately have "removeMetadataFields d = (d, False)" by (simp add: prod_eq_iff)
  then show ?thesis
    using assms d by (simp add: drop_server_fields_def Let_def server_clean_def del: fold_simps)
qed

lemma filter_id: "\<forall>x \<in> set xs. P x \<Longrightarrow> filter P xs = xs"
  by simp

lemma drop_set_annotations_clean: "set_clean (fst (drop_set_annotations d md))"
proof -
  let ?P = "\<lambda>(k, v :: json). \<not> strings_HasPrefix k LabelPrefix"
  let ?ann = "mapField d [''metadata'', ''annotations'']"
  let ?d = "update_map_field ''metadata'' (update_map_field ''annotations'' (\<lambda>_. filter ?P ?ann)) d"
  have md: "mapField ?d [''metadata''] =
      update_map_field ''annotations'' (\<lambda>_. filter ?P ?ann) (mapField d [''metadata''])"
    by (simp del: mapField.simps)
  have ann: "mapField ?d [''metadata'', ''annotations''] = filter ?P ?ann"
  proof (cases "\<exists>m. map_of (mapField d [''metadata'']) ''annotations'' = Some (JMap m)")
    case True
    with md show ?thesis by (auto simp: map_of_update_map_field)
  next
    case False
    then have "?ann = []" by (simp, intro as_map_opt_other) auto
    moreover have "update_map_field ''annotations'' h (mapField d [''metadata'']) = mapField d [''metadata'']" for h
      using False by (intro update_map_field_id) auto
    ultimately show ?thesis
      using md by simp
  qed
  let ?d2 = "update_map_field ''metadata'' (AList.delete ''annotations'') ?d"
  have "mapField ?d2 [''metadata'', ''annotations''] = []"
    by (simp add: mapField_update_map_field)
  moreover have "mapField (AList.delete ''metadata'' ?d2) [''metadata'', ''annotations''] = []"
    by simp
  ultimately show ?thesis
    using ann by (auto simp: drop_set_annotations_def Let_def set_clean_def simp del: mapField.simps)
qed

lemma drop_set_annotations_id:
  assumes "set_clean d"
  shows "drop_set_annotations d False = (d, False)"
proof -
  let ?P = "\<lambda>(k, v :: json). \<not> strings_HasPrefix k LabelPrefix"
  let ?ann = "mapField d [''metadata'', ''annotations'']"
  have ann: "filter ?P ?ann = ?ann"
    using assms by (intro filter_id) (simp add: set_clean_def)
  have "update_map_field ''metadata'' (update_map_field ''annotations'' (\<lambda>_. ?ann)) d = d"
    by (intro update_map_field_id) simp
  moreover have "\<not> list_ex (\<lambda>(k, v). strings_HasPrefix k LabelPrefix) ?ann"
    using assms by (auto simp: set_clean_def list_ex_iff)
  ultimately show ?thesis
    using ann by (simp add: drop_set_annotations_def Let_def del: mapField.simps)
qed

lemma drop_set_keeps_server_clean:
  assumes "server_clean d"
  shows "server_clean (fst (drop_set_annotations d md))"
proof -
  have upd: "server_clean (update_map_field ''metadata'' g e)"
    if "server_clean e" and "g [] = []" and "\<And>m f. map_of m f = None \<Longrightarrow> map_of (g m) f = None" for g e
    using that by (simp add: server_clean_def map_of_update_map_field del: mapField.simps)
  have del: "server_clean (AList.delete ''metadata'' e)" if "server_clean e" for e
    using that by (simp add: server_clean_def)
  have 1: "server_clean (update_map_field ''metadata'' (update_map_field ''annotations'' (\<lambda>_. x)) d)" for x
    by (rule upd [OF assms]) (auto simp: map_of_update_map_field)
  have "server_clean (update_map_field ''metadata'' (AList.delete ''annotations'') e)" if "server_clean e" for e
    by (rule upd [OF that]) auto
  with 1 del show ?thesis by (simp add: drop_set_annotations_def Let_def)
qed

lemma emptyMaps_Nil [simp]: "emptyMaps [] ks"
  by (cases ks) (simp_all add: emptyMaps_def)

text \<open>The data of a patch after cleaning, and whether anything was removed.\<close>

definition cleaned :: "jmap \<Rightarrow> bool \<Rightarrow> jmap \<times> bool" where
  "cleaned d remove =
     (case drop_server_fields d of
        (d, md) \<Rightarrow> if remove then drop_set_annotations d md else (d, md))"

definition dropped :: "jmap \<Rightarrow> bool" where
  "dropped d \<longleftrightarrow> emptyMaps d [''metadata'', ''annotations''] \<or>
     emptyMaps d [''metadata'', ''annotations'', ''apply.acorn.io/applied'']"

lemma sanitizePatch_cleaned:
  "sanitizePatch L patch remove =
     (case unmarshalMap L patch of
        Inl e \<Rightarrow> Inl e
      | Inr d \<Rightarrow> (case cleaned d remove of
          (d, md) \<Rightarrow> if dropped d then Inr ''{}'' else if \<not> md then Inr patch else marshalMap L d))"
  by (auto simp: sanitizePatch_def cleaned_def dropped_def split: sum.splits prod.splits)

lemma cleaned_clean:
  "server_clean (fst (cleaned d remove)) \<and> (remove \<longrightarrow> set_clean (fst (cleaned d remove)))"
  using drop_server_fields_clean [of d] drop_set_keeps_server_clean drop_set_annotations_clean
  by (auto simp: cleaned_def split: prod.splits)

lemma cleaned_id:
  "server_clean d \<Longrightarrow> (remove \<Longrightarrow> set_clean d) \<Longrightarrow> cleaned d remove = (d, False)"
  by (simp add: cleaned_def drop_server_fields_id drop_set_annotations_id)

lemma removeMetadataFields_unchanged:
  assumes "\<not> snd (removeMetadataFields d)"
  shows "fst (removeMetadataFields d) = d"
  unfolding removeMetadataFields_fst
  using assms
  by (intro update_map_field_id fold_delete_id)
    (auto simp: removeMetadataFields_def list_ex_iff as_map_def split: option.splits)

lemma drop_server_fields_unchanged:
  assumes "\<not> snd (drop_server_fields d)"
  shows "fst (drop_server_fields d) = d"
proof -
  have "\<forall>k \<in> set [''kind'', ''apiVersion'', ''status'']. map_of d k = None"
    using assms by (auto simp: drop_server_fields_def Let_def split: prod.splits)
  then have d: "fold AList.delete [''kind'', ''apiVersion'', ''status''] d = d"
    by (rule fold_delete_id)
  moreover have "\<not> snd (removeMetadataFields d)"
    using assms d by (simp add: drop_server_fields_def Let_def split: prod.splits del: fold_simps)
  ultimately show ?thesis
    using removeMetadataFields_unchanged [of d]
    by (auto simp: drop_server_fields_def Let_def split: prod.splits simp del: fold_simps)
qed

lemma drop_set_annotations_unchanged:
  assumes "\<not> snd (drop_set_annotations d md)"
  shows "fst (drop_set_annotations d md) = d \<and> \<not> md"
proof -
  let ?ann = "mapField d [''metadata'', ''annotations'']"
  have "\<not> md" and no: "\<not> list_ex (\<lambda>(k, v). strings_HasPrefix k LabelPrefix) ?ann"
    using assms by (auto simp: drop_set_annotations_def Let_def simp del: mapField.simps split: if_splits)
  then have "set_clean d" by (auto simp: set_clean_def list_ex_iff)
  with \<open>\<not> md\<close> show ?thesis using drop_set_annotations_id [of d] by simp
qed

lemma cleaned_unchanged: "cleaned d remove = (d', False) \<Longrightarrow> d' = d"
  using drop_server_fields_unchanged [of d] drop_set_annotations_unchanged
  by (auto simp: cleaned_def split: prod.splits if_splits) (metis fst_conv snd_conv)+

text \<open>
  What a cleaned patch keeps: everything that is not server-owned, and of the annotations those that are not the
  applier's own when these are to go.
\<close>

definition rest_kept :: "bool \<Rightarrow> jmap \<Rightarrow> jmap \<Rightarrow> bool" where
  "rest_kept remove d c \<longleftrightarrow>
     (\<forall>k. k \<notin> {''kind'', ''apiVersion'', ''status'', ''metadata''} \<longrightarrow> map_of c k = map_of d k) \<and>
     (\<forall>f. f \<notin> set metadataFields \<and> f \<noteq> ''annotations'' \<longrightarrow>
        map_of (mapField c [''metadata'']) f = map_of (mapField d [''metadata'']) f) \<and>
     (\<forall>a. \<not> (remove \<and> strings_HasPrefix a LabelPrefix) \<longrightarrow>
        map_of (mapField c [''metadata'', ''annotations'']) a = map_of (mapField d [''metadata'', ''annotations'']) a)"

text \<open>
  A value in which nothing is said but what is at the end of a path: it is no map or an empty one, or its only key is the
  first of the path and what is there says nothing else either. (The code's loop reads one key more than the path has.)
\<close>

fun only_path :: "json \<Rightarrow> string list \<Rightarrow> bool" where
  "only_path v [] \<longleftrightarrow> as_map v = [] \<or> (\<exists>x. as_map v = [(''__invalid_key__'', x)])"
| "only_path v (k # ks) \<longleftrightarrow> as_map v = [] \<or> (\<exists>x. as_map v = [(k, x)] \<and> only_path x ks)"

definition nothing_left :: "jmap \<Rightarrow> bool" where
  "nothing_left d \<longleftrightarrow> only_path (JMap d) [''metadata'', ''annotations''] \<or>
     only_path (JMap d) [''metadata'', ''annotations'', ''apply.acorn.io/applied'']"

lemma one_entry: "length d \<le> 1 \<Longrightarrow> map_of d k = Some v \<longleftrightarrow> d = [(k, v)]"
  by (cases d) auto

lemma emptyMaps_loop_only_path:
  "emptyMaps_loop (as_map v) (ks @ [''__invalid_key__'']) \<longleftrightarrow> only_path v ks"
proof (induction ks arbitrary: v)
  case Nil
  show ?case by (cases "as_map v") (auto split: option.splits)
next
  case (Cons k ks)
  show ?case by (cases "as_map v") (auto simp: Cons.IH split: option.splits)
qed

lemma emptyMaps_only_path: "emptyMaps d ks \<longleftrightarrow> only_path (JMap d) ks"
  using emptyMaps_loop_only_path [of "JMap d" ks] by (simp add: emptyMaps_def as_map_def)

lemma dropped_iff: "dropped d \<longleftrightarrow> nothing_left d"
  unfolding dropped_def nothing_left_def emptyMaps_only_path ..

lemma annotations_of: "mapField d [''metadata'', ''annotations''] = as_map_opt (map_of (mapField d [''metadata'']) ''annotations'')"
  by simp

lemma drop_server_fields_rest: "rest_kept False d (fst (drop_server_fields d))"
proof -
  let ?d = "fold AList.delete [''kind'', ''apiVersion'', ''status''] d"
  have eq: "fst (drop_server_fields d) = update_map_field ''metadata'' (fold AList.delete metadataFields) ?d"
    by (simp add: drop_server_fields_def Let_def removeMetadataFields_fst [symmetric] split: prod.splits)
  have m: "mapField (fst (drop_server_fields d)) [''metadata''] = fold AList.delete metadataFields (mapField d [''metadata''])"
    unfolding eq by (simp add: mapField_update_map_field del: fold_simps)
  have other: "map_of (fold AList.delete metadataFields (mapField d [''metadata''])) f = map_of (mapField d [''metadata'']) f"
    if "f \<notin> set metadataFields" for f using that by (simp only: map_of_fold_delete if_False)
  have "''annotations'' \<notin> set metadataFields" by (simp add: metadataFields_def)
  with other show ?thesis
    unfolding rest_kept_def annotations_of m by (simp add: eq map_of_update_map_field del: mapField.simps)
qed

lemma drop_set_annotations_rest: "rest_kept True d (fst (drop_set_annotations d md))"
proof -
  let ?P = "\<lambda>(k, v :: json). \<not> strings_HasPrefix k LabelPrefix"
  let ?ann = "mapField d [''metadata'', ''annotations'']" and ?m = "mapField d [''metadata'']"
  let ?d = "update_map_field ''metadata'' (update_map_field ''annotations'' (\<lambda>_. filter ?P ?ann)) d"
  let ?d2 = "update_map_field ''metadata'' (AList.delete ''annotations'') ?d"
  have m: "mapField ?d [''metadata''] = update_map_field ''annotations'' (\<lambda>_. filter ?P ?ann) ?m"
    and m2: "mapField ?d2 [''metadata''] = AList.delete ''annotations'' (update_map_field ''annotations'' (\<lambda>_. filter ?P ?ann) ?m)"
    by (simp_all del: mapField.simps)
  have kept: "map_of (filter ?P xs) a = map_of xs a" if "\<not> strings_HasPrefix a LabelPrefix" for xs a
    using that by (induction xs) auto
  have ann: "map_of (as_map_opt (map_of (update_map_field ''annotations'' (\<lambda>_. filter ?P ?ann) ?m) ''annotations'')) a = map_of ?ann a"
    if "\<not> strings_HasPrefix a LabelPrefix" for a
  proof (cases "\<exists>x. map_of ?m ''annotations'' = Some (JMap x)")
    case True
    then obtain x where x: "map_of ?m ''annotations'' = Some (JMap x)" by blast
    have "?ann = x" unfolding annotations_of x by simp
    with x kept [OF that] show ?thesis by (simp add: map_of_update_map_field)
  next
    case False
    then have "update_map_field ''annotations'' h ?m = ?m" for h by (intro update_map_field_id) auto
    then show ?thesis by (simp only: annotations_of)
  qed
  have empty: "map_of ?ann a = None" if "filter ?P ?ann = []" and "\<not> strings_HasPrefix a LabelPrefix" for a
    using kept [OF that(2), of ?ann] unfolding that(1) by simp
  have "rest_kept True d ?d"
    unfolding rest_kept_def annotations_of [of ?d] m using ann by (simp add: map_of_update_map_field del: mapField.simps)
  moreover have two: "rest_kept True d ?d2" if "filter ?P ?ann = []"
    unfolding rest_kept_def annotations_of [of ?d2] m2 using empty [OF that]
    by (simp add: map_of_update_map_field del: mapField.simps)
  moreover have "rest_kept True d (AList.delete ''metadata'' ?d2)" if "filter ?P ?ann = []" and "mapField ?d2 [''metadata''] = []"
  proof -
    have "mapField (AList.delete ''metadata'' ?d2) [''metadata''] = mapField ?d2 [''metadata'']"
      unfolding that(2) by simp
    with two [OF that(1)] show ?thesis
      unfolding rest_kept_def annotations_of by (simp del: mapField.simps)
  qed
  ultimately show ?thesis by (simp add: drop_set_annotations_def Let_def del: mapField.simps)
qed

lemma rest_kept_mono: "rest_kept False d c \<Longrightarrow> rest_kept remove d c"
  by (simp add: rest_kept_def)

lemma rest_kept_trans: "rest_kept remove d c \<Longrightarrow> rest_kept remove c e \<Longrightarrow> rest_kept remove d e"
  by (simp add: rest_kept_def)

lemma cleaned_rest: "rest_kept remove d (fst (cleaned d remove))"
proof (cases remove)
  case True
  have "rest_kept True d (fst (drop_server_fields d))" by (rule rest_kept_mono [OF drop_server_fields_rest])
  then have "rest_kept True d (fst (drop_set_annotations (fst (drop_server_fields d)) (snd (drop_server_fields d))))"
    using drop_set_annotations_rest by (rule rest_kept_trans)
  with True show ?thesis by (simp add: cleaned_def case_prod_beta)
next
  case False
  with drop_server_fields_rest [of d] show ?thesis by (simp add: cleaned_def case_prod_beta)
qed

text \<open>C17: a patch is cleaned of what the server owns and of nothing else: what it says less kind, apiVersion, status, the five
  server-set metadata fields and, when asked, the applier's own annotations, is what the result of
  \<open>sanitizePatch\<close> decodes to; unless nothing is left there, or only the applied annotation: then the result is \<open>{}\<close>, and
  not otherwise. (A value that is no map counts as nothing.) Cleaning the result again changes nothing. The JSON text of
  the cleaned map is assumed to decode to that map.\<close>

theorem sanitizePatch_clean:
  assumes "unmarshalMap L ''{}'' = Inr []"
    and "\<And>d s. unmarshalMap L patch = Inr d \<Longrightarrow> marshalMap L (fst (cleaned d remove)) = Inr s \<Longrightarrow>
      unmarshalMap L s = Inr (fst (cleaned d remove))"
    and "sanitizePatch L patch remove = Inr out"
  shows "\<exists>d c. unmarshalMap L patch = Inr d \<and> server_clean c \<and> (remove \<longrightarrow> set_clean c) \<and> rest_kept remove d c \<and>
    (if nothing_left c then out = ''{}'' else unmarshalMap L out = Inr c) \<and>
    sanitizePatch L out remove = Inr out"
proof -
  obtain d where d: "unmarshalMap L patch = Inr d"
    using assms(3) by (auto simp: sanitizePatch_cleaned split: sum.splits)
  obtain c md where c: "cleaned d remove = (c, md)" by fastforce
  have cl: "server_clean c" "remove \<Longrightarrow> set_clean c" using cleaned_clean [of d remove] c by auto
  have rest: "rest_kept remove d c" using cleaned_rest [of remove d] c by simp
  have again: "cleaned c remove = (c, False)" using cl by (rule cleaned_id)
  have nil: "server_clean []" "set_clean []" by (simp_all add: server_clean_def set_clean_def)
  show ?thesis
  proof (cases "dropped c")
    case True
    with assms(3) d c have out: "out = ''{}''" by (simp add: sanitizePatch_cleaned)
    have "sanitizePatch L out remove = Inr out"
      using assms(1) cleaned_id [OF nil(1), of remove] nil(2)
      by (simp add: sanitizePatch_cleaned out dropped_def)
    with True d out cl rest show ?thesis by (auto simp: dropped_iff)
  next
    case False
    have dec: "unmarshalMap L out = Inr c"
      using assms(2) [OF d] assms(3) d c False cleaned_unchanged [of d remove c]
      by (auto simp: sanitizePatch_cleaned split: if_splits)
    moreover have "sanitizePatch L out remove = Inr out"
      using dec again False by (simp add: sanitizePatch_cleaned)
    ultimately show ?thesis using d cl rest False by (auto simp: dropped_iff)
  qed
qed

definition patch_lib :: lib where
  "patch_lib = example_lib
     \<lparr>unmarshalMap := (\<lambda>s. if s = ''{}'' then Inr []
        else if s = ''spec'' then Inr [(''spec'', JInt 1)]
        else Inr [(''kind'', JStr ''Pod''), (''spec'', JInt 1)]),
      marshalMap := (\<lambda>m. if m = [(''spec'', JInt 1)] then Inr ''spec''
        else if m = [] then Inr ''{}'' else Inl (Err ''marshal''))\<rparr>"

lemma patch_lib_sanitize: "sanitizePatch patch_lib ''patch'' False = Inr ''spec''"
  by (simp add: sanitizePatch_def patch_lib_def drop_server_fields_def removeMetadataFields_def
      emptyMaps_def)

theorem sanitizePatch_clean_witness:
  "\<exists>c. unmarshalMap patch_lib ''spec'' = Inr c \<and> server_clean c \<and> map_of c ''spec'' = Some (JInt 1) \<and>
     sanitizePatch patch_lib ''spec'' False = Inr ''spec''"
proof -
  have a: "unmarshalMap patch_lib ''{}'' = Inr []"
    and b: "marshalMap patch_lib m = Inr s \<Longrightarrow> unmarshalMap patch_lib s = Inr m" for m s
    by (auto simp: patch_lib_def split: if_splits)
  have d: "unmarshalMap patch_lib ''patch'' = Inr [(''kind'', JStr ''Pod''), (''spec'', JInt 1)]" by (simp add: patch_lib_def)
  from sanitizePatch_clean [OF a b patch_lib_sanitize] d show ?thesis
    by (auto simp: rest_kept_def split: if_splits)
qed

end
