(* ===== verification/Apply_Process.thy ===== *)
theory Apply_Process
  imports Apply_Compare
begin

text \<open>
  pkg/apply/desiredset_process.go, desiredset_crud.go, desiredset_owner.go and the entry points of
  desiredset_apply.go and desiredset.go: one kind of the desired set against the cluster (create,
  update, delete, replace), all kinds in turn, and the search for an object's owner.

  The client's operations are those of \<open>kube\<close>; the state is \<open>astate\<close> (the world and the
  merge-style cache). A range over a Go map whose body changes the map visits the keys the map had
  at the start, in its order, with the values they have when reached, and skips keys removed
  meanwhile; entries added meanwhile are not visited (Go may visit them: the lemmas \<open>*_revisit\<close>
  show that it makes no difference).
\<close>

section \<open>Ranging over a map that changes\<close>

fun range_map :: "('k \<Rightarrow> 'v \<Rightarrow> ('k, 'v) gomap \<Rightarrow> err + ('k, 'v) gomap) \<Rightarrow> 'k list
    \<Rightarrow> ('k, 'v) gomap \<Rightarrow> err + ('k, 'v) gomap" where
  "range_map body [] m = Inr m"
| "range_map body (k # ks) m =
     (case map_of m k of
        None \<Rightarrow> range_map body ks m
      | Some v \<Rightarrow> (case body k v m of Inl e \<Rightarrow> Inl e | Inr m' \<Rightarrow> range_map body ks m'))"

section \<open>Scopes, owners and namespaces\<close>

definition IsNamespaced :: "('a) lib_scheme \<Rightarrow> gvk \<Rightarrow> err + bool" where
  "IsNamespaced L g =
     (case restScope L (GroupKind g) (Version g) of
        Inl err \<Rightarrow> Inl err
      | Inr s \<Rightarrow> Inr (s = ScopeNamespace))"

definition ownerRefFor :: "('a) lib_scheme \<Rightarrow> kobj \<Rightarrow> gvk \<Rightarrow> OwnerReference" where
  "ownerRefFor L ownerMeta ownerGvk =
     \<lparr>refAPIVersion = gvString L ownerGvk, refKind = Kind ownerGvk, refName = Name ownerMeta,
      refUID = UID ownerMeta, refController = True, refBlockOwnerDeletion = True\<rparr>"

definition assign_one ::
  "('a) lib_scheme \<Rightarrow> kobj \<Rightarrow> gvk \<Rightarrow> bool \<Rightarrow> gvk \<Rightarrow> ObjectKey \<Rightarrow> kobj \<Rightarrow> ObjectByKey \<Rightarrow> err + ObjectByKey"
where
  "assign_one L ownerMeta ownerGvk ownerNSed g k v objs =
     (case IsNamespaced L g of
        Inl err \<Rightarrow> Inl err
      | Inr nsed \<Rightarrow>
          if ownerNSed \<and> \<not> nsed then Inr objs
          else
            let assignNS = (nsed \<and> KeyNamespace k = []);
                assignOwner = \<not> (nsed \<and> KeyNamespace k \<noteq> [] \<and>
                                 KeyNamespace k \<noteq> Namespace ownerMeta \<and> ownerNSed)
            in if \<not> assignOwner then Inr objs
               else
                 let v = (if assignNS then v\<lparr>Namespace := Namespace ownerMeta\<rparr> else v);
                     shouldSet = \<not> list_ex (\<lambda>of'. UID ownerMeta = refUID of') (OwnerReferences v);
                     v = (if shouldSet \<and> UID ownerMeta \<noteq> [] \<and> should v AnnotationPrune
                          then v\<lparr>OwnerReferences := OwnerReferences v @ [ownerRefFor L ownerMeta ownerGvk]\<rparr>
                          else v);
                     objs = AList.update k v objs
                 in Inr (if assignNS
                         then AList.update (k\<lparr>KeyNamespace := Namespace ownerMeta\<rparr>) v (AList.delete k objs)
                         else objs))"

definition assignOwnerReference ::
  "('a) lib_scheme \<Rightarrow> applier \<Rightarrow> gvk \<Rightarrow> ObjectByKey \<Rightarrow> err + ObjectByKey" where
  "assignOwnerReference L a g objs =
     (case owner a of
        None \<Rightarrow> Inl (Err ''no owner set to assign owner reference'')
      | Some ownerMeta \<Rightarrow>
          (case gvkFor L ownerMeta of
             Inl err \<Rightarrow> Inl err
           | Inr ownerGvk \<Rightarrow>
               (case IsNamespaced L ownerGvk of
                  Inl err \<Rightarrow> Inl err
                | Inr ownerNSed \<Rightarrow>
                    range_map (assign_one L ownerMeta ownerGvk ownerNSed g) (map fst objs) objs)))"

definition adjust_one :: "applier \<Rightarrow> ObjectKey \<Rightarrow> kobj \<Rightarrow> ObjectByKey \<Rightarrow> err + ObjectByKey" where
  "adjust_one a k v objs =
     (if KeyNamespace k \<noteq> [] then Inr objs
      else Inr (AList.update (k\<lparr>KeyNamespace := defaultNamespace a\<rparr>)
                  (v\<lparr>Namespace := defaultNamespace a\<rparr>) (AList.delete k objs)))"

definition adjustNamespace :: "applier \<Rightarrow> ObjectByKey \<Rightarrow> err + ObjectByKey" where
  "adjustNamespace a objs = range_map (adjust_one a) (map fst objs) objs"

definition clear_one :: "ObjectKey \<Rightarrow> kobj \<Rightarrow> ObjectByKey \<Rightarrow> err + ObjectByKey" where
  "clear_one k v objs =
     (if KeyNamespace k = [] then Inr objs
      else Inr (AList.update (k\<lparr>KeyNamespace := []\<rparr>) (v\<lparr>Namespace := []\<rparr>) (AList.delete k objs)))"

definition clearNamespace :: "ObjectByKey \<Rightarrow> err + ObjectByKey" where
  "clearNamespace objs = range_map clear_one (map fst objs) objs"

section \<open>Comparing the desired and the existing set\<close>

definition sortObjectKeys :: "ObjectKey list \<Rightarrow> ObjectKey list" where
  "sortObjectKeys keys = sort_by ObjectKey_String keys"

definition may_prune :: "('a) lib_scheme \<Rightarrow> kobj \<Rightarrow> bool" where
  "may_prune L obj \<longleftrightarrow>
     should obj AnnotationPrune \<and> is_zero_time (DeletionTimestamp obj) \<and>
     (case Labels obj LabelHash of
        None \<Rightarrow> True
      | Some labelHash \<Rightarrow> labelHash = objectSetHash L (Annotations obj))"

definition compareSets ::
  "('a) lib_scheme \<Rightarrow> ObjectByKey \<Rightarrow> ObjectByKey
     \<Rightarrow> ObjectKey list \<times> ObjectKey list \<times> ObjectKey list" where
  "compareSets L existingSet newSet =
     (let toUpdate = [k. (k, obj) \<leftarrow> newSet, map_of existingSet k \<noteq> None, should obj AnnotationUpdate];
          toCreate = [k. (k, obj) \<leftarrow> newSet, map_of existingSet k = None, should obj AnnotationCreate];
          toDelete = [k. (k, obj) \<leftarrow> existingSet, map_of newSet k = None, may_prune L obj]
      in (sortObjectKeys toCreate, sortObjectKeys toDelete, sortObjectKeys toUpdate))"

definition filterCrossVersion :: "applier \<Rightarrow> ObjectSet \<Rightarrow> gvk \<Rightarrow> ObjectKey list \<Rightarrow> ObjectKey list" where
  "filterCrossVersion a objs g keys =
     filter (\<lambda>key. \<not> ObjectSet_Contains objs (GroupKind g) key \<and>
       \<not> (KeyNamespace key = defaultNamespace a \<and>
          ObjectSet_Contains objs (GroupKind g) (mk_key [] (KeyName key)))) keys"

section \<open>Client access\<close>

definition apply_newObj :: "('a) lib_scheme \<Rightarrow> gvk \<Rightarrow> bool \<Rightarrow> err + string" where
  "apply_newObj L g list' =
     (case schemeNew L g of
        NotRegistered \<Rightarrow>
          (if list' then Inr ''*unstructured.UnstructuredList'' else Inr unstructuredType)
      | NewErr err \<Rightarrow> Inl err
      | NewOk obj \<Rightarrow> Inr obj)"

definition apply_get ::
  "('w, 'a) kube_scheme \<Rightarrow> gvk \<Rightarrow> kobj option \<Rightarrow> string \<Rightarrow> string \<Rightarrow> 'w \<Rightarrow> (err + kobj) \<times> 'w" where
  "apply_get K g obj namespace name w =
     (case (case obj of None \<Rightarrow> apply_newObj K g False | Some obj \<Rightarrow> Inr (GoType obj)) of
        Inl err \<Rightarrow> (Inl err, w)
      | Inr goType \<Rightarrow> clGet K w g goType (mk_key namespace name))"

definition apply_delete ::
  "('w, 'a) kube_scheme \<Rightarrow> gvk \<Rightarrow> string \<Rightarrow> string \<Rightarrow> 'w \<Rightarrow> err option \<times> 'w" where
  "apply_delete K g namespace name w = clDelete K w g (mk_key namespace name)"

definition listBySelector ::
  "('w, 'a) kube_scheme \<Rightarrow> applier \<Rightarrow> gvk \<Rightarrow> label_selector \<Rightarrow> 'w \<Rightarrow> (err + ObjectByKey) \<times> 'w" where
  "listBySelector K a g selector w =
     (let g = g\<lparr>Kind := Kind g @ ''List''\<rparr> in
      case apply_newObj K g True of
        Inl err \<Rightarrow> (Inl err, w)
      | Inr goType \<Rightarrow>
          (case clList K w g (listerNamespace a) selector of
             (Inl err, w) \<Rightarrow> (Inl err, w)
           | (Inr items, w) \<Rightarrow> (Inr (fold (\<lambda>obj objs. AList.update (key_of obj) obj objs) items []), w)))"

fun get_each ::
  "('w, 'a) kube_scheme \<Rightarrow> gvk \<Rightarrow> (ObjectKey \<times> kobj) list \<Rightarrow> ObjectByKey \<Rightarrow> 'w
     \<Rightarrow> (err + ObjectByKey) \<times> 'w" where
  "get_each K g [] result w = (Inr result, w)"
| "get_each K g ((k, v) # kvs) result w =
     (case apply_get K g (Some v) (KeyNamespace k) (KeyName k) w of
        (Inl err, w) \<Rightarrow>
          if IsNotFound (Some err) then get_each K g kvs result w else (Inl err, w)
      | (Inr obj, w) \<Rightarrow> get_each K g kvs (AList.update k obj result) w)"

definition apply_list ::
  "('w, 'a) kube_scheme \<Rightarrow> applier \<Rightarrow> gvk \<Rightarrow> label_selector option \<Rightarrow> ObjectByKey \<Rightarrow> 'w
     \<Rightarrow> (err + ObjectByKey) \<times> 'w" where
  "apply_list K a g selector objs w =
     (case selector of
        Some selector \<Rightarrow> listBySelector K a g selector w
      | None \<Rightarrow> get_each K g objs [] w)"

section \<open>One kind\<close>

text \<open>
  The variables that the closures \<open>createF\<close>, \<open>deleteF\<close> and \<open>updateF\<close> of \<open>process\<close> share.
  \<open>desired\<close> is the map \<open>objs\<close>: with \<open>ensure\<close> its objects are the caller's and change, without it
  they are private copies.
\<close>

record 'w pstate =
  ast :: "'w astate"
  existing :: ObjectByKey
  desired :: ObjectByKey
  toUpdate :: "ObjectKey list"
  toReplace :: "ObjectKey list"

abbreviation set_world :: "'w \<Rightarrow> 'w pstate \<Rightarrow> 'w pstate" where
  "set_world w ps \<equiv> ps\<lparr>ast := (ast ps)\<lparr>world := w\<rparr>\<rparr>"

definition nil_deref :: err where
  "nil_deref = Err ''invalid memory address or nil pointer dereference''"

definition owner_conflict ::
  "('a) lib_scheme \<Rightarrow> gvk \<Rightarrow> string \<Rightarrow> ObjectKey \<Rightarrow> kobj \<Rightarrow> err \<Rightarrow> err" where
  "owner_conflict L g debugID' k existingObj err =
     (let anno = get_str (Annotations existingObj) in
      Wrap (''failed to update existing owned object '' @ ObjectKey_String k @ '' '' @ gvkString L g @
            '' for '' @ debugID' @ '', old subcontext ['' @ anno LabelSubContext @ ''] gvk ['' @
            anno LabelGVK @ ''] namespace ['' @ anno LabelNamespace @ ''] name ['' @ anno LabelName @
            '']: '') err)"

text \<open>What follows an "already exists" answer whose object could be read.\<close>

definition take_over ::
  "('a) lib_scheme \<Rightarrow> owner_changes \<Rightarrow> gvk \<Rightarrow> string \<Rightarrow> ObjectKey \<Rightarrow> kobj \<Rightarrow> kobj \<Rightarrow> err
     \<Rightarrow> 'w pstate \<Rightarrow> err option \<times> 'w pstate" where
  "take_over L valid g debugID' k obj existingObj err ps =
     (if \<not> annotationsMatch existingObj obj \<and>
         get_str (Labels existingObj) LabelHash \<noteq> [] \<and>
         \<not> isAssigningSubContext existingObj obj \<and> \<not> isAllowOwnerTransition valid existingObj obj
      then (Some (owner_conflict L g debugID' k existingObj err), ps)
      else
        (None, ps\<lparr>toUpdate := (if should obj AnnotationUpdate then toUpdate ps @ [k] else toUpdate ps),
                  existing := AList.update k existingObj (existing ps)\<rparr>))"

text \<open>The second half of \<open>createF\<close>: what becomes of the answer \<open>err\<close> of the create call.\<close>

definition createF_answer ::
  "('w, 'a) kube_scheme \<Rightarrow> applier \<Rightarrow> owner_changes \<Rightarrow> gvk \<Rightarrow> string \<Rightarrow> ObjectKey \<Rightarrow> kobj \<Rightarrow> kobj
     \<Rightarrow> err option \<Rightarrow> 'w pstate \<Rightarrow> err option \<times> 'w pstate" where
  "createF_answer K a valid g debugID' k wanted obj err ps =
     (let failed = (\<lambda>e. Some (Wrap (''failed to create '' @ ObjectKey_String k @ '' '' @
                      gvkString K g @ '' for '' @ debugID' @ '': '') e)) in
      case err of
        None \<Rightarrow> (None, ps)
      | Some e \<Rightarrow>
          if IsAlreadyExists (Some e)
          then (case apply_get K g (Some wanted) (KeyNamespace k) (KeyName k) (world (ast ps)) of
                  (Inr existingObj, w) \<Rightarrow> take_over K valid g debugID' k obj existingObj e (set_world w ps)
                | (Inl _, w) \<Rightarrow> (failed e, set_world w ps))
          else (failed e, ps))"

definition createF ::
  "('w, 'a) kube_scheme \<Rightarrow> applier \<Rightarrow> owner_changes \<Rightarrow> gvk \<Rightarrow> string \<Rightarrow> ObjectKey \<Rightarrow> 'w pstate
     \<Rightarrow> err option \<times> 'w pstate" where
  "createF K a valid g debugID' k ps =
     (case map_of (desired ps) k of
        None \<Rightarrow> (Some nil_deref, ps)
      | Some wanted \<Rightarrow>
     (case prepareObjectForCreate K g wanted (\<not> ensure a) of
        Inl err \<Rightarrow>
          (Some (Wrap (''failed to prepare create '' @ ObjectKey_String k @ '' '' @ gvkString K g @
                       '' for '' @ debugID' @ '': '') err), ps)
      | Inr obj \<Rightarrow>
     (case clCreate K (world (ast ps)) obj of
        (err, obj, w) \<Rightarrow>
          if ensure a
          then createF_answer K a valid g debugID' k obj obj err
                 (set_world w ps\<lparr>desired := AList.update k obj (desired ps)\<rparr>)
          else createF_answer K a valid g debugID' k wanted obj err (set_world w ps))))"

definition deleteF ::
  "('w, 'a) kube_scheme \<Rightarrow> gvk \<Rightarrow> string \<Rightarrow> ObjectKey \<Rightarrow> 'w pstate \<Rightarrow> err option \<times> 'w pstate" where
  "deleteF K g debugID' k ps =
     (case apply_delete K g (KeyNamespace k) (KeyName k) (world (ast ps)) of
        (Some err, w) \<Rightarrow>
          (Some (Wrap (''failed to delete '' @ ObjectKey_String k @ '' '' @ gvkString K g @
                       '' for '' @ debugID' @ '': '') err), set_world w ps)
      | (None, w) \<Rightarrow> (None, set_world w ps))"

definition replace_allowed :: "kobj \<Rightarrow> kobj \<Rightarrow> bool" where
  "replace_allowed existingObj newObj \<longleftrightarrow>
     get_str (Annotations newObj) AnnotationUpdate = ''true'' \<or>
     (should existingObj AnnotationPrune \<and> should existingObj AnnotationCreate)"

definition updateF ::
  "('w, 'a) kube_scheme \<Rightarrow> applier \<Rightarrow> gvk \<Rightarrow> string \<Rightarrow> ObjectKey \<Rightarrow> 'w pstate
     \<Rightarrow> err option \<times> 'w pstate" where
  "updateF K a g debugID' k ps =
     (case (map_of (existing ps) k, map_of (desired ps) k) of
        (Some oldObj, Some newObj) \<Rightarrow>
          (case compareObjects K a g oldObj newObj (ast ps) of
             (err, newObj, st) \<Rightarrow>
               let ps = ps\<lparr>ast := st\<rparr>;
                   ps = (if ensure a then ps\<lparr>desired := AList.update k newObj (desired ps)\<rparr> else ps)
               in (case err of
                     None \<Rightarrow> (None, ps)
                   | Some e \<Rightarrow>
                       if e = ErrReplace
                       then (None, if replace_allowed oldObj newObj
                                   then ps\<lparr>toReplace := toReplace ps @ [k]\<rparr> else ps)
                       else (Some (Wrap (''failed to update '' @ ObjectKey_String k @ '' '' @
                               gvkString K g @ '' for '' @ debugID' @ '': '') e), ps)))
      | _ \<Rightarrow> (Some nil_deref, ps))"

text \<open>\<open>for _, k := range keys { errs = append(errs, f(k)) }\<close>\<close>

fun for_keys ::
  "(ObjectKey \<Rightarrow> 'w pstate \<Rightarrow> err option \<times> 'w pstate) \<Rightarrow> ObjectKey list \<Rightarrow> 'w pstate
     \<Rightarrow> err option list \<times> 'w pstate" where
  "for_keys f [] ps = ([], ps)"
| "for_keys f (k # ks) ps =
     (case f k ps of (e, ps) \<Rightarrow> case for_keys f ks ps of (errs, ps) \<Rightarrow> (e # errs, ps))"

text \<open>The five loops at the end of \<open>process\<close>.\<close>

definition process_loops ::
  "('w, 'a) kube_scheme \<Rightarrow> applier \<Rightarrow> owner_changes \<Rightarrow> gvk \<Rightarrow> string
     \<Rightarrow> ObjectKey list \<Rightarrow> ObjectKey list \<Rightarrow> 'w pstate \<Rightarrow> err option list \<times> 'w pstate" where
  "process_loops K a valid g debugID' toCreate toDelete ps =
     (case for_keys (createF K a valid g debugID') toCreate ps of (errs1, ps) \<Rightarrow>
     (case for_keys (updateF K a g debugID') (toUpdate ps) ps of (errs2, ps) \<Rightarrow>
     (case (if noPrune a then ([], ps) else for_keys (deleteF K g debugID') toDelete ps) of (errs3, ps) \<Rightarrow>
     (case for_keys (deleteF K g debugID') (toReplace ps) ps of (errs4, ps) \<Rightarrow>
     (case for_keys (createF K a valid g debugID') (toReplace ps) ps of (errs5, ps) \<Rightarrow>
        (errs1 @ errs2 @ errs3 @ errs4 @ errs5, ps))))))"

definition desired_objs ::
  "('a) lib_scheme \<Rightarrow> applier \<Rightarrow> gvk \<Rightarrow> ObjectSet \<Rightarrow> err + ObjectByKey" where
  "desired_objs L a g allObjs =
     (let objs = get_objs (objects allObjs) g in
      case IsNamespaced L g of
        Inl err \<Rightarrow> Inl err
      | Inr nsed \<Rightarrow>
          (case (if owner a \<noteq> None then assignOwnerReference L a g objs else Inr objs) of
             Inl err \<Rightarrow> Inl err
           | Inr objs \<Rightarrow> if nsed then adjustNamespace a objs else clearNamespace objs))"

definition process ::
  "('w, 'a) kube_scheme \<Rightarrow> applier \<Rightarrow> owner_changes \<Rightarrow> string \<Rightarrow> label_selector option \<Rightarrow> gvk
     \<Rightarrow> ObjectSet \<Rightarrow> 'w astate \<Rightarrow> err option \<times> 'w astate" where
  "process K a valid debugID' selector g allObjs st =
     (case desired_objs K a g allObjs of
        Inl err \<Rightarrow> (Some err, st)
      | Inr objs \<Rightarrow>
     (case apply_list K a g selector objs (world st) of
        (Inl err, w) \<Rightarrow>
          (Some (Wrap (''failed to list '' @ gvkString K g @ '' for '' @ debugID' @ '': '') err),
           st\<lparr>world := w\<rparr>)
      | (Inr existingSet, w) \<Rightarrow>
          (case compareSets K existingSet objs of
             (toCreate, toDelete, toUpd) \<Rightarrow>
               (case process_loops K a valid g debugID' toCreate (filterCrossVersion a allObjs g toDelete)
                       \<lparr>ast = st\<lparr>world := w\<rparr>, existing = existingSet, desired = objs,
                        toUpdate = toUpd, toReplace = []\<rparr> of
                  (errs, ps) \<Rightarrow> (NewErrors errs, ast ps)))))"

section \<open>All kinds\<close>

fun process_each ::
  "('w, 'a) kube_scheme \<Rightarrow> applier \<Rightarrow> owner_changes \<Rightarrow> string \<Rightarrow> label_selector option \<Rightarrow> ObjectSet
     \<Rightarrow> gvk list \<Rightarrow> 'w astate \<Rightarrow> err option list \<times> 'w astate" where
  "process_each K a valid debugID' selector objs [] st = ([], st)"
| "process_each K a valid debugID' selector objs (g # gs) st =
     (case process K a valid debugID' selector g objs st of
        (e, st) \<Rightarrow> case process_each K a valid debugID' selector objs gs st of
          (errs, st) \<Rightarrow> (e # errs, st))"

definition apply_set ::
  "('w, 'a) kube_scheme \<Rightarrow> applier \<Rightarrow> owner_changes \<Rightarrow> ObjectSet \<Rightarrow> 'w astate
     \<Rightarrow> err option \<times> 'w astate" where
  "apply_set K a valid objs st =
     (let order = ObjectSet_GVKOrder (gvkString K) objs (knownGVK a) in
      case GetLabelsAndAnnotations K (ownerSubContext a) (owner a) of
        Inl err \<Rightarrow> (Some err, st)
      | Inr (labelSet, annotationSet) \<Rightarrow>
     (case injectLabelsAndAnnotations K objs labelSet annotationSet of
        Inl err \<Rightarrow> (Some err, st)
      | Inr objs \<Rightarrow>
     (case GetSelector K labelSet of
        Inl err \<Rightarrow> (Some err, st)
      | Inr sel \<Rightarrow>
          (case process_each K a valid (debugID a) sel objs order st of
             (errs, st) \<Rightarrow> (NewErrors errs, st)))))"

fun prune_gvks :: "('a) lib_scheme \<Rightarrow> kobj list \<Rightarrow> err + gvk list" where
  "prune_gvks L [] = Inr []"
| "prune_gvks L (obj # objs) =
     (case gvkFor L obj of
        Inl err \<Rightarrow> Inl err
      | Inr g \<Rightarrow> (case prune_gvks L objs of Inl err \<Rightarrow> Inl err | Inr gs \<Rightarrow> Inr (g # gs)))"

definition Apply ::
  "('w, 'a) kube_scheme \<Rightarrow> owner_changes \<Rightarrow> kobj option \<Rightarrow> kobj option list \<Rightarrow> applier \<Rightarrow> 'w astate
     \<Rightarrow> err option \<times> 'w astate" where
  "Apply K valid owner' objs a st =
     (case prune_gvks K (pruneObjects a) of
        Inl err \<Rightarrow> (Some err, st)
      | Inr newPruneGVKs \<Rightarrow>
          let a = (withPruneGVKs newPruneGVKs a)\<lparr>owner := owner'\<rparr> in
     (case (case owner' of
              None \<Rightarrow> Inr a
            | Some o' \<Rightarrow> (case gvkFor K o' of Inl err \<Rightarrow> Inl err | Inr g \<Rightarrow> Inr (a\<lparr>ownerGVK := g\<rparr>))) of
        Inl err \<Rightarrow> (Some err, st)
      | Inr a \<Rightarrow>
          (case NewObjectSet (gvkFor K) objs of
             (_, Some err) \<Rightarrow> (Some err, st)
           | (os, None) \<Rightarrow> apply_set K a valid os st)))"

definition Ensure ::
  "('w, 'a) kube_scheme \<Rightarrow> owner_changes \<Rightarrow> kobj option list \<Rightarrow> applier \<Rightarrow> 'w astate
     \<Rightarrow> err option \<times> 'w astate" where
  "Ensure K valid objs a st =
     Apply K valid None objs (a\<lparr>ensure := True, owner := None, ownerSubContext := []\<rparr>) st"

section \<open>Owners\<close>

definition getGVK :: "string \<Rightarrow> err + gvk" where
  "getGVK gvkLabel =
     (let parts = strings_Split gvkLabel '', Kind='' in
      if length parts \<noteq> 2 then Inl (Err (''invalid GVK format: '' @ gvkLabel))
      else (case strings_Cut (parts ! 0) ''/'' of
              (grp, version, _) \<Rightarrow> Inr \<lparr>Group = grp, Version = version, Kind = parts ! 1\<rparr>))"

definition FindOwner ::
  "('w, 'a) kube_scheme \<Rightarrow> kobj option \<Rightarrow> 'w \<Rightarrow> (err + kobj) \<times> 'w" where
  "FindOwner K obj w =
     (case obj of
        None \<Rightarrow> (Inl ErrOwnerNotFound, w)
      | Some obj \<Rightarrow>
          let anno = get_str (Annotations obj) in
          if anno LabelGVK = [] then (Inl ErrOwnerNotFound, w)
          else (case getGVK (anno LabelGVK) of
                  Inl err \<Rightarrow> (Inl err, w)
                | Inr g \<Rightarrow> apply_get K g None (anno LabelNamespace) (anno LabelName) w))"

definition PurgeOrphan ::
  "('w, 'a) kube_scheme \<Rightarrow> kobj option \<Rightarrow> 'w \<Rightarrow> err option \<times> 'w" where
  "PurgeOrphan K obj w =
     (case obj of
        None \<Rightarrow> (None, w)
      | Some obj \<Rightarrow>
          (case FindOwner K (Some obj) w of
             (Inr _, w) \<Rightarrow> (None, w)
           | (Inl err, w) \<Rightarrow>
               if IsNotFound (Some err)
               then (case gvkFor K obj of
                       Inl err \<Rightarrow> (Some err, w)
                     | Inr g \<Rightarrow> apply_delete K g (Namespace obj) (Name obj) w)
               else if err = ErrOwnerNotFound then (None, w)
               else (Some err, w)))"

end
