(* ===== verification/Apply_Sets.thy ===== *)
theory Apply_Sets
  imports Apply_Process
begin

text \<open>
  What one kind of an apply works on: the desired objects with their namespaces settled
  (\<open>assignOwnerReference\<close>, \<open>adjustNamespace\<close>, \<open>clearNamespace\<close>) and the three lists
  \<open>compareSets\<close> computes. All results are stated on \<open>map_of\<close>, so they hold for every order in
  which Go may range over the maps.
\<close>

section \<open>Namespaces\<close>

lemma range_map_skip:
  assumes "\<And>k v m. k \<in> set ks \<Longrightarrow> body k v m = Inr m"
  shows "range_map body ks m = Inr m"
  using assms by (induction ks arbitrary: m) (auto split: option.splits)

text \<open>Visiting an entry that the loop itself added changes nothing.\<close>

lemma adjust_one_revisit: "KeyNamespace k \<noteq> [] \<Longrightarrow> adjust_one a k v objs = Inr objs"
  by (simp add: adjust_one_def)

lemma clear_one_revisit: "KeyNamespace k = [] \<Longrightarrow> clear_one k v objs = Inr objs"
  by (simp add: clear_one_def)

text \<open>What \<open>assign_one\<close> makes of the owner references of one object.\<close>

definition with_owner :: "('a) lib_scheme \<Rightarrow> kobj \<Rightarrow> gvk \<Rightarrow> kobj \<Rightarrow> kobj" where
  "with_owner L own og v =
     (if \<not> list_ex (\<lambda>of'. UID own = refUID of') (OwnerReferences v) \<and> UID own \<noteq> [] \<and> should v AnnotationPrune
      then v\<lparr>OwnerReferences := OwnerReferences v @ [ownerRefFor L own og]\<rparr> else v)"

lemma with_owner_simps [simp]:
  "with_owner L own og (with_owner L own og v) = with_owner L own og v"
  "Namespace (with_owner L own og v) = Namespace v"
  by (simp_all add: with_owner_def should_def ownerRefFor_def)

lemma kobj_same_Namespace [simp]: "Namespace v = n \<Longrightarrow> v\<lparr>Namespace := n\<rparr> = v"
  by simp

lemma assign_one_value:
  assumes "IsNamespaced L g = Inr nsed" and "\<not> (onsed \<and> \<not> nsed)"
    and "\<not> (nsed \<and> KeyNamespace k \<noteq> [] \<and> KeyNamespace k \<noteq> Namespace own \<and> onsed)"
  shows "assign_one L own og onsed g k v objs = Inr
    (if nsed \<and> KeyNamespace k = []
     then AList.update (k\<lparr>KeyNamespace := Namespace own\<rparr>) (with_owner L own og (v\<lparr>Namespace := Namespace own\<rparr>))
            (AList.delete k (AList.update k (with_owner L own og (v\<lparr>Namespace := Namespace own\<rparr>)) objs))
     else AList.update k (with_owner L own og v) objs)"
proof -
  have "nsed \<or> \<not> onsed" and "\<not> nsed \<or> KeyNamespace k = [] \<or> KeyNamespace k = Namespace own \<or> \<not> onsed"
    using assms(2,3) by auto
  then show ?thesis
    by (elim disjE) (simp_all add: assign_one_def with_owner_def assms(1) Let_def)
qed

text \<open>A visit of the entry that the visit of \<open>k\<close> has put in place changes nothing.\<close>

lemma assign_one_revisit:
  assumes nsed: "IsNamespaced L g = Inr nsed" and "\<not> (onsed \<and> \<not> nsed)"
    and "\<not> (nsed \<and> KeyNamespace k \<noteq> [] \<and> KeyNamespace k \<noteq> Namespace own \<and> onsed)"
    and first: "assign_one L own og onsed g k v objs = Inr objs'"
    and "k' = (if nsed \<and> KeyNamespace k = [] then k\<lparr>KeyNamespace := Namespace own\<rparr> else k)"
    and "map_of objs' k' = Some v'" and second: "assign_one L own og onsed g k' v' objs' = Inr objs''"
  shows "map_of objs'' = map_of objs'"
proof (cases "nsed \<and> KeyNamespace k = []")
  case True
  with first assms(5) assign_one_value [OF assms(1-3)]
  have objs': "objs' = AList.update k' (with_owner L own og (v\<lparr>Namespace := Namespace own\<rparr>))
       (AList.delete k (AList.update k (with_owner L own og (v\<lparr>Namespace := Namespace own\<rparr>)) objs))"
    and k': "KeyNamespace k' = Namespace own" by simp_all
  then have v': "with_owner L own og v' = v'" "Namespace v' = Namespace own" using assms(6) by auto
  have same: "k'\<lparr>KeyNamespace := Namespace own\<rparr> = k'" using k' by simp
  from k' have "\<not> (nsed \<and> KeyNamespace k' \<noteq> [] \<and> KeyNamespace k' \<noteq> Namespace own \<and> onsed)" by simp
  from assign_one_value [OF assms(1,2) this, of og v' objs'] second
  show ?thesis using v' same assms(6) by (auto simp: fun_eq_iff split: if_splits)
next
  case False
  with first assms(5) assign_one_value [OF assms(1-3)]
  have "objs' = AList.update k (with_owner L own og v) objs" "k' = k" by (simp_all split: if_splits)
  moreover from this assms(6) have "with_owner L own og v' = v'" by auto
  ultimately show ?thesis
    using second False assms(6) assign_one_value [OF assms(1-3), of og v' objs'] by (auto simp: fun_eq_iff split: if_splits)
qed

text \<open>
  Both loops move the entries whose key satisfies \<open>P\<close> to the key \<open>f k\<close>, with the value \<open>g v\<close>. When
  a target never satisfies \<open>P\<close> and no two entries have the same target, the result does not depend on
  the order.
\<close>

definition move_one :: "('k \<Rightarrow> bool) \<Rightarrow> ('k \<Rightarrow> 'k) \<Rightarrow> ('v \<Rightarrow> 'v) \<Rightarrow> 'k \<Rightarrow> 'v \<Rightarrow> ('k, 'v) gomap
    \<Rightarrow> err + ('k, 'v) gomap" where
  "move_one P f g k v m = (if \<not> P k then Inr m else Inr (AList.update (f k) (g v) (AList.delete k m)))"

lemma range_move:
  assumes "distinct ks" and "gomap_ok objs"
    and "\<forall>k. P k \<longrightarrow> \<not> P (f k)" and "inj_on f {k \<in> set ks. P k}"
    and "\<forall>k \<in> set ks. P k \<longrightarrow> map_of objs k \<noteq> None"
  shows "\<exists>objs'. range_map (move_one P f g) ks objs = Inr objs' \<and> gomap_ok objs' \<and>
    (\<forall>k \<in> set ks. P k \<longrightarrow> map_of objs' k = None \<and>
       map_of objs' (f k) = map_option g (map_of objs k)) \<and>
    (\<forall>k. k \<notin> {k \<in> set ks. P k} \<and> k \<notin> f ` {k \<in> set ks. P k} \<longrightarrow> map_of objs' k = map_of objs k)"
  using assms
proof (induction ks arbitrary: objs)
  case Nil
  then show ?case by simp
next
  case (Cons k ks)
  have inj: "inj_on f {k \<in> set ks. P k}"
    using Cons.prems(4) by (rule inj_on_subset) auto
  show ?case
  proof (cases "P k")
    case False
    have eq: "{x \<in> set (k # ks). P x} = {x \<in> set ks. P x}" using False by auto
    have step: "range_map (move_one P f g) (k # ks) objs = range_map (move_one P f g) ks objs"
      using False by (simp add: move_one_def split: option.splits)
    show ?thesis
      unfolding step eq using Cons.IH [of objs] Cons.prems inj False by auto
  next
    case True
    then obtain v where v: "map_of objs k = Some v" using Cons.prems(5) by auto
    let ?objs = "AList.update (f k) (g v) (AList.delete k objs)"
    have step: "range_map (move_one P f g) (k # ks) objs = range_map (move_one P f g) ks ?objs"
      using True v by (simp add: move_one_def)
    have sep: "k' \<noteq> k \<and> k' \<noteq> f k \<and> f k' \<noteq> f k" if "k' \<in> set ks" "P k'" for k'
      using that Cons.prems(1,3,4) True by (auto dest: inj_onD)
    have fk: "f k \<noteq> k" using Cons.prems(3) True by auto
    have "\<exists>objs'. range_map (move_one P f g) ks ?objs = Inr objs' \<and> gomap_ok objs' \<and>
      (\<forall>k \<in> set ks. P k \<longrightarrow> map_of objs' k = None \<and>
         map_of objs' (f k) = map_option g (map_of ?objs k)) \<and>
      (\<forall>k. k \<notin> {k \<in> set ks. P k} \<and> k \<notin> f ` {k \<in> set ks. P k} \<longrightarrow> map_of objs' k = map_of ?objs k)"
    proof (rule Cons.IH)
      show "\<forall>k' \<in> set ks. P k' \<longrightarrow> map_of ?objs k' \<noteq> None"
        using Cons.prems(5) sep by auto
    qed (use Cons.prems inj in auto)
    then obtain objs' where o': "range_map (move_one P f g) ks ?objs = Inr objs'" "gomap_ok objs'"
      and moved: "\<And>k. k \<in> set ks \<Longrightarrow> P k \<Longrightarrow> map_of objs' k = None \<and>
         map_of objs' (f k) = map_option g (map_of ?objs k)"
      and others: "\<And>k. k \<notin> {k \<in> set ks. P k} \<Longrightarrow> k \<notin> f ` {k \<in> set ks. P k} \<Longrightarrow>
         map_of objs' k = map_of ?objs k"
      by blast
    have "map_of objs' k = None"
      using others [of k] Cons.prems(1,3) True fk by auto
    moreover have "map_of objs' (f k) = Some (g v)"
    proof -
      have "f k \<notin> f ` {k \<in> set ks. P k}" using sep by fastforce
      then show ?thesis using others [of "f k"] Cons.prems(3) True by simp
    qed
    moreover have "map_of objs' (f k') = map_option g (map_of objs k')" if "k' \<in> set ks" "P k'" for k'
      using moved [OF that] sep [OF that] by simp
    moreover have "map_of objs' x = map_of objs x"
      if x: "x \<notin> {k' \<in> set (k # ks). P k'}" "x \<notin> f ` {k' \<in> set (k # ks). P k'}" for x
    proof -
      have "x \<noteq> k" "x \<noteq> f k" "x \<notin> {k \<in> set ks. P k}" "x \<notin> f ` {k \<in> set ks. P k}"
        using x True by auto
      then show ?thesis using others [of x] by simp
    qed
    moreover have "map_of objs' k' = None" if "k' \<in> set ks" "P k'" for k'
      using moved [OF that] by simp
    ultimately show ?thesis
      unfolding step using o'(1,2) v by (intro exI [of _ objs'] conjI) (simp_all add: o')
  qed
qed

lemma range_move_all:
  assumes "gomap_ok objs" and "\<forall>k. P k \<longrightarrow> \<not> P (f k)" and "inj_on f {k \<in> fst ` set objs. P k}"
  obtains objs' where "range_map (move_one P f g) (map fst objs) objs = Inr objs'" and "gomap_ok objs'"
    and "\<And>k. k \<in> fst ` set objs \<Longrightarrow> P k \<Longrightarrow>
      map_of objs' k = None \<and> map_of objs' (f k) = map_option g (map_of objs k)"
    and "\<And>k. k \<notin> {k \<in> fst ` set objs. P k} \<Longrightarrow> k \<notin> f ` {k \<in> fst ` set objs. P k} \<Longrightarrow>
      map_of objs' k = map_of objs k"
proof -
  have "\<forall>k \<in> set (map fst objs). P k \<longrightarrow> map_of objs k \<noteq> None"
    unfolding list.set_map by (metis map_of_eq_None_iff)
  from range_move [OF assms(1,1,2) _ this, of g] assms(3) obtain objs' where
    "range_map (move_one P f g) (map fst objs) objs = Inr objs'" "gomap_ok objs'"
    "\<forall>k \<in> fst ` set objs. P k \<longrightarrow> map_of objs' k = None \<and> map_of objs' (f k) = map_option g (map_of objs k)"
    "\<forall>k. k \<notin> {k \<in> fst ` set objs. P k} \<and> k \<notin> f ` {k \<in> fst ` set objs. P k} \<longrightarrow> map_of objs' k = map_of objs k"
    unfolding list.set_map by blast
  then show thesis using that by meson
qed

lemma adjust_one_move:
  "adjust_one a = move_one (\<lambda>k. KeyNamespace k = []) (\<lambda>k. k\<lparr>KeyNamespace := defaultNamespace a\<rparr>)
     (\<lambda>v. v\<lparr>Namespace := defaultNamespace a\<rparr>)"
  by (simp add: fun_eq_iff adjust_one_def move_one_def)

lemma clear_one_move:
  "clear_one = move_one (\<lambda>k. KeyNamespace k \<noteq> []) (\<lambda>k. k\<lparr>KeyNamespace := []\<rparr>) (\<lambda>v. v\<lparr>Namespace := []\<rparr>)"
  by (simp add: fun_eq_iff clear_one_def move_one_def)

lemma map_of_key: "map_of m k = Some v \<Longrightarrow> k \<in> fst ` set m"
  by (metis map_of_eq_None_iff option.distinct(1))

lemma mk_key_eta: "KeyNamespace k = ns \<Longrightarrow> mk_key ns (KeyName k) = k"
  by (cases k) simp

lemma mk_key_upd: "k\<lparr>KeyNamespace := ns\<rparr> = mk_key ns (KeyName k)"
  by (cases k) simp

text \<open>Settling namespaces: after \<open>adjustNamespace\<close> (for a namespaced kind, with a default
  namespace) no key is left without a namespace; an object given without one is found under the default
  namespace, with its namespace field set, and takes the place of one given there explicitly; every
  other object stays where it was. The order of the range makes no difference.\<close>

theorem adjustNamespace_settles:
  assumes "gomap_ok objs" and "defaultNamespace a \<noteq> []"
  shows "\<exists>objs'. adjustNamespace a objs = Inr objs' \<and> gomap_ok objs' \<and>
    (\<forall>n. map_of objs' (mk_key [] n) = None) \<and>
    (\<forall>n v. map_of objs (mk_key [] n) = Some v \<longrightarrow>
       map_of objs' (mk_key (defaultNamespace a) n) = Some (v\<lparr>Namespace := defaultNamespace a\<rparr>)) \<and>
    (\<forall>k. KeyNamespace k \<noteq> [] \<and>
       (KeyNamespace k = defaultNamespace a \<longrightarrow> map_of objs (mk_key [] (KeyName k)) = None) \<longrightarrow>
       map_of objs' k = map_of objs k)"
proof -
  let ?P = "\<lambda>k. KeyNamespace k = []" and ?f = "\<lambda>k. mk_key (defaultNamespace a) (KeyName k)"
  have "inj_on ?f {k \<in> fst ` set objs. ?P k}"
    by (auto intro!: inj_onI dest!: mk_key_eta)
  then obtain objs' where run: "adjustNamespace a objs = Inr objs'" "gomap_ok objs'"
    and moved: "\<And>k. k \<in> fst ` set objs \<Longrightarrow> ?P k \<Longrightarrow> map_of objs' k = None \<and>
       map_of objs' (?f k) = map_option (\<lambda>v. v\<lparr>Namespace := defaultNamespace a\<rparr>) (map_of objs k)"
    and others: "\<And>k. k \<notin> {k \<in> fst ` set objs. ?P k} \<Longrightarrow> k \<notin> ?f ` {k \<in> fst ` set objs. ?P k} \<Longrightarrow>
       map_of objs' k = map_of objs k"
    using assms
    by (elim range_move_all [of objs ?P ?f "\<lambda>v. v\<lparr>Namespace := defaultNamespace a\<rparr>", rotated 2])
      (auto simp: adjustNamespace_def adjust_one_move mk_key_upd)
  have "map_of objs' (mk_key [] n) = None" for n
  proof (cases "mk_key [] n \<in> fst ` set objs")
    case True
    then show ?thesis using moved [of "mk_key [] n"] by simp
  next
    case False
    moreover have "mk_key [] n \<notin> ?f ` {k \<in> fst ` set objs. ?P k}" using assms(2) by auto
    moreover have "map_of objs (mk_key [] n) = None" using False by (metis map_of_eq_None_iff)
    ultimately show ?thesis using others [of "mk_key [] n"] by simp
  qed
  moreover have "map_of objs' (mk_key (defaultNamespace a) n) = Some (v\<lparr>Namespace := defaultNamespace a\<rparr>)"
    if "map_of objs (mk_key [] n) = Some v" for n v
    using moved [of "mk_key [] n"] map_of_key [OF that] that by simp
  moreover have "map_of objs' k = map_of objs k"
    if "KeyNamespace k \<noteq> []"
      "KeyNamespace k = defaultNamespace a \<longrightarrow> map_of objs (mk_key [] (KeyName k)) = None" for k
  proof (rule others)
    show "k \<notin> {k \<in> fst ` set objs. ?P k}" using that by simp
    show "k \<notin> ?f ` {k \<in> fst ` set objs. ?P k}"
    proof
      assume "k \<in> ?f ` {k \<in> fst ` set objs. ?P k}"
      then obtain k' where k': "k = ?f k'" "k' \<in> fst ` set objs" "KeyNamespace k' = []" by blast
      then have "mk_key [] (KeyName k) = k'" by (simp add: mk_key_eta)
      with that k' show False by (metis (no_types) ObjectKey.select_convs(2) map_of_eq_None_iff)
    qed
  qed
  ultimately show ?thesis using run by blast
qed

definition example_gvk :: gvk where
  "example_gvk = \<lparr>Group = [], Version = ''v1'', Kind = ''ConfigMap''\<rparr>"

definition example_applier :: applier where
  "example_applier = New (\<lambda>_. None)"

lemma example_applier_simps [simp]:
  "defaultNamespace example_applier = ''default''" "listerNamespace example_applier = []"
  "pruneTypes example_applier = []" "pruneObjects example_applier = []"
  "reconcilers example_applier = (\<lambda>_. None)" "ownerSubContext example_applier = []"
  "owner example_applier = None" "ensure example_applier = False" "noPrune example_applier = False"
  by (simp_all add: example_applier_def New_def)

theorem adjustNamespace_settles_witness:
  "\<exists>objs'. adjustNamespace example_applier [(mk_key [] ''cm'', empty_obj\<lparr>Name := ''cm''\<rparr>)] = Inr objs' \<and>
     map_of objs' (mk_key ''default'' ''cm'') = Some (empty_obj\<lparr>Name := ''cm'', Namespace := ''default''\<rparr>)"
proof -
  have "gomap_ok [(mk_key [] ''cm'', empty_obj\<lparr>Name := ''cm''\<rparr>)]"
    "defaultNamespace example_applier \<noteq> []" by simp_all
  from adjustNamespace_settles [OF this] show ?thesis by auto
qed

text \<open>
  For a cluster-scoped kind the namespaces are dropped: when no two objects have the same name every
  object is found under its bare name. (With two objects of one name in different namespaces the one
  Go's map order visits last wins.)
\<close>

lemma clearNamespace_settles:
  assumes "gomap_ok objs" and "inj_on KeyName (fst ` set objs)"
  shows "\<exists>objs'. clearNamespace objs = Inr objs' \<and> gomap_ok objs' \<and>
    (\<forall>k v. map_of objs k = Some v \<longrightarrow> map_of objs' (mk_key [] (KeyName k)) =
       Some (if KeyNamespace k = [] then v else v\<lparr>Namespace := []\<rparr>))"
proof -
  let ?P = "\<lambda>k. KeyNamespace k \<noteq> []" and ?f = "\<lambda>k. mk_key [] (KeyName k)"
  have "inj_on ?f {k \<in> fst ` set objs. ?P k}"
    using assms(2) by (auto intro!: inj_onI dest: inj_onD)
  then obtain objs' where run: "clearNamespace objs = Inr objs'" "gomap_ok objs'"
    and moved: "\<And>k. k \<in> fst ` set objs \<Longrightarrow> ?P k \<Longrightarrow>
       map_of objs' (?f k) = map_option (\<lambda>v. v\<lparr>Namespace := []\<rparr>) (map_of objs k)"
    and others: "\<And>k. k \<notin> {k \<in> fst ` set objs. ?P k} \<Longrightarrow> k \<notin> ?f ` {k \<in> fst ` set objs. ?P k} \<Longrightarrow>
       map_of objs' k = map_of objs k"
    using assms
    by (elim range_move_all [of objs ?P ?f "\<lambda>v. v\<lparr>Namespace := []\<rparr>", rotated 2])
      (auto simp: clearNamespace_def clear_one_move mk_key_upd)
  have "map_of objs' (mk_key [] (KeyName k)) = Some (if KeyNamespace k = [] then v else v\<lparr>Namespace := []\<rparr>)"
    if v: "map_of objs k = Some v" for k v
  proof (cases "KeyNamespace k = []")
    case False
    with moved [OF map_of_key [OF v]] v show ?thesis by simp
  next
    case True
    then have "k = mk_key [] (KeyName k)" by (simp add: mk_key_eta)
    moreover have "k \<notin> ?f ` {k \<in> fst ` set objs. ?P k}"
    proof
      assume "k \<in> ?f ` {k \<in> fst ` set objs. ?P k}"
      then obtain k' where k': "k = ?f k'" "k' \<in> fst ` set objs" "?P k'" by blast
      then have "k = k'" using assms(2) map_of_key [OF v] by (intro inj_onD [OF assms(2)]) simp_all
      with k' True show False by simp
    qed
    ultimately show ?thesis using others [of k] v True by (metis (mono_tags, lifting) mem_Collect_eq)
  qed
  then show ?thesis using run by blast
qed

section \<open>The three lists\<close>

definition keys_where :: "('k \<Rightarrow> 'v \<Rightarrow> bool) \<Rightarrow> ('k, 'v) gomap \<Rightarrow> 'k list" where
  "keys_where P m = map fst (filter (\<lambda>(k, v). P k v) m)"

lemma comprehension_keys_where:
  "[k. (k, obj) \<leftarrow> m, Q k, P k obj] = keys_where (\<lambda>k obj. Q k \<and> P k obj) m"
proof (induction m)
  case Nil
  then show ?case by (simp add: keys_where_def)
next
  case (Cons kv m)
  then show ?case by (cases kv) (simp add: keys_where_def)
qed

lemma set_keys_where: "gomap_ok m \<Longrightarrow>
    set (keys_where P m) = {k. case map_of m k of None \<Rightarrow> False | Some v \<Rightarrow> P k v}"
  by (auto simp: keys_where_def map_of_mem_iff image_iff split: option.splits)
    (metis map_of_is_SomeI option.distinct(1) option.inject)+

lemma distinct_keys_where: "gomap_ok m \<Longrightarrow> distinct (keys_where P m)"
  by (simp add: keys_where_def distinct_map_filter)

lemma compareSets_keys_where:
  "compareSets L ex new =
     (sortObjectKeys (keys_where (\<lambda>k obj. map_of ex k = None \<and> should obj AnnotationCreate) new),
      sortObjectKeys (keys_where (\<lambda>k obj. map_of new k = None \<and> may_prune L obj) ex),
      sortObjectKeys (keys_where (\<lambda>k obj. map_of ex k \<noteq> None \<and> should obj AnnotationUpdate) new))"
  unfolding compareSets_def Let_def comprehension_keys_where ..

lemmas sort_keys_simps = sortObjectKeys_def set_sort_by distinct_sort_by

definition create_key :: "ObjectByKey \<Rightarrow> ObjectByKey \<Rightarrow> ObjectKey \<Rightarrow> bool" where
  "create_key ex new k = (case map_of new k of
     None \<Rightarrow> False | Some obj \<Rightarrow> map_of ex k = None \<and> should obj AnnotationCreate)"

definition update_key :: "ObjectByKey \<Rightarrow> ObjectByKey \<Rightarrow> ObjectKey \<Rightarrow> bool" where
  "update_key ex new k = (case map_of new k of
     None \<Rightarrow> False | Some obj \<Rightarrow> map_of ex k \<noteq> None \<and> should obj AnnotationUpdate)"

definition delete_key :: "('a) lib_scheme \<Rightarrow> ObjectByKey \<Rightarrow> ObjectByKey \<Rightarrow> ObjectKey \<Rightarrow> bool" where
  "delete_key L ex new k = (case map_of ex k of
     None \<Rightarrow> False | Some obj \<Rightarrow> map_of new k = None \<and> may_prune L obj)"

lemmas plan_defs = create_key_def update_key_def delete_key_def

lemma compareSets_sets:
  assumes "gomap_ok ex" and "gomap_ok new" and "compareSets L ex new = (c, d, u)"
  shows "set c = {k. create_key ex new k}" "set d = {k. delete_key L ex new k}"
    "set u = {k. update_key ex new k}"
    and "distinct c" "distinct d" "distinct u"
    and "sorted (map ObjectKey_String c)" "sorted (map ObjectKey_String d)"
    "sorted (map ObjectKey_String u)"
proof -
  have eqs: "c = sortObjectKeys (keys_where (\<lambda>k obj. map_of ex k = None \<and> should obj AnnotationCreate) new)"
    "d = sortObjectKeys (keys_where (\<lambda>k obj. map_of new k = None \<and> may_prune L obj) ex)"
    "u = sortObjectKeys (keys_where (\<lambda>k obj. map_of ex k \<noteq> None \<and> should obj AnnotationUpdate) new)"
    using assms(3) unfolding compareSets_keys_where by blast+
  show "set c = {k. create_key ex new k}" "set d = {k. delete_key L ex new k}"
    "set u = {k. update_key ex new k}"
    unfolding eqs sort_keys_simps plan_defs set_keys_where [OF assms(1)] set_keys_where [OF assms(2)] by (rule refl)+
  show "distinct c" "distinct d" "distinct u"
    unfolding eqs sort_keys_simps using assms by (simp_all only: distinct_keys_where)
  show "sorted (map ObjectKey_String c)" "sorted (map ObjectKey_String d)"
    "sorted (map ObjectKey_String u)"
    unfolding eqs sort_keys_simps by (rule sorted_sort_by)+
qed

text \<open>\<open>compareSets\<close> plans each object once: it creates the wanted objects that do not exist,
  updates the wanted ones that do, and deletes the existing ones that are no longer wanted, may be pruned,
  are not already being deleted and carry either no hash label or the hash of their own annotations; an
  object whose annotation opts out appears in no list, no object in two, and each list is sorted.\<close>

theorem compareSets_partition:
  assumes "gomap_ok ex" and "gomap_ok new" and "compareSets L ex new = (toCreate, toDelete, toUpd)"
  shows "(\<forall>k. k \<in> set toCreate \<longleftrightarrow> create_key ex new k) \<and>
    (\<forall>k. k \<in> set toUpd \<longleftrightarrow> update_key ex new k) \<and>
    (\<forall>k. k \<in> set toDelete \<longleftrightarrow> delete_key L ex new k) \<and>
    distinct (toCreate @ toDelete @ toUpd) \<and>
    sorted (map ObjectKey_String toCreate) \<and> sorted (map ObjectKey_String toDelete) \<and>
    sorted (map ObjectKey_String toUpd)"
  using compareSets_sets [OF assms] by (auto simp: plan_defs split: option.splits)

definition owned_cm :: "string \<Rightarrow> kobj" where
  "owned_cm n = empty_obj\<lparr>Name := n, Namespace := ''ns''\<rparr>"

theorem compareSets_partition_witness:
  "let ex = [(mk_key ''ns'' ''old'', owned_cm ''old''), (mk_key ''ns'' ''kept'', owned_cm ''kept'')];
       new = [(mk_key ''ns'' ''kept'', owned_cm ''kept''), (mk_key ''ns'' ''new'', owned_cm ''new'')]
   in case compareSets example_lib ex new of (c, d, u) \<Rightarrow>
        mk_key ''ns'' ''new'' \<in> set c \<and> mk_key ''ns'' ''old'' \<in> set d \<and> mk_key ''ns'' ''kept'' \<in> set u"
proof -
  let ?ex = "[(mk_key ''ns'' ''old'', owned_cm ''old''), (mk_key ''ns'' ''kept'', owned_cm ''kept'')]"
  let ?new = "[(mk_key ''ns'' ''kept'', owned_cm ''kept''), (mk_key ''ns'' ''new'', owned_cm ''new'')]"
  obtain c d u where r: "compareSets example_lib ?ex ?new = (c, d, u)" by (metis prod_cases3)
  have "gomap_ok ?ex" "gomap_ok ?new" by simp_all
  from compareSets_partition [OF this r] r show ?thesis
    by (simp add: plan_defs owned_cm_def should_def may_prune_def is_zero_time_def)
qed

lemma keys_where_perm:
  assumes "gomap_ok m" and "gomap_ok m'" and "set m = set m'"
  shows "mset (keys_where P m) = mset (keys_where P m')"
proof -
  have "set (keys_where P m) = set (keys_where P m')"
    unfolding set_keys_where [OF assms(1)] set_keys_where [OF assms(2)] map_of_perm [OF assms] ..
  moreover have "distinct (keys_where P m)" "distinct (keys_where P m')"
    using assms(1,2) by (simp_all only: distinct_keys_where)
  ultimately show ?thesis by (simp only: set_eq_iff_mset_eq_distinct)
qed

lemma sortObjectKeys_cong:
  assumes "mset xs = mset ys" and "\<forall>k \<in> set xs. key_ok k"
  shows "sortObjectKeys xs = sortObjectKeys ys"
proof -
  have "inj_on ObjectKey_String (set ys)"
    using assms mset_eq_setD ObjectKey_String_inj_on by metis
  then have "sortObjectKeys xs = sort_by ObjectKey_String ys"
    using assms(1) by (intro sort_by_unique) (simp_all add: sortObjectKeys_def sort_by_def)
  then show ?thesis by (simp add: sortObjectKeys_def)
qed

text \<open>The plan does not depend on the order in which Go ranges over the two maps: for keys whose
  namespace and name hold no slash, two orders of the same maps give the same three lists.\<close>

theorem compareSets_order_free:
  assumes "gomap_ok ex" and "gomap_ok ex'" and "set ex = set ex'"
    and "gomap_ok new" and "gomap_ok new'" and "set new = set new'"
    and "\<forall>k \<in> fst ` (set ex \<union> set new). key_ok k"
  shows "compareSets L ex new = compareSets L ex' new'"
proof -
  have maps: "map_of ex = map_of ex'" "map_of new = map_of new'"
    by (rule map_of_perm [OF assms(1-3)], rule map_of_perm [OF assms(4-6)])
  have ok: "\<forall>k \<in> set (keys_where P ex). key_ok k" "\<forall>k \<in> set (keys_where P new). key_ok k"
    for P :: "ObjectKey \<Rightarrow> kobj \<Rightarrow> bool"
    using assms(7) by (auto simp: keys_where_def)
  have "sortObjectKeys (keys_where P new) = sortObjectKeys (keys_where P new')" for P
    by (rule sortObjectKeys_cong [OF keys_where_perm [OF assms(4-6)] ok(2)])
  moreover have "sortObjectKeys (keys_where P ex) = sortObjectKeys (keys_where P ex')" for P
    by (rule sortObjectKeys_cong [OF keys_where_perm [OF assms(1-3)] ok(1)])
  ultimately show ?thesis
    unfolding compareSets_keys_where maps by simp
qed

theorem compareSets_order_free_witness:
  "compareSets example_lib [] [(mk_key [] ''b'', owned_cm ''b''), (mk_key [] ''a'', owned_cm ''a'')] =
   compareSets example_lib [] [(mk_key [] ''a'', owned_cm ''a''), (mk_key [] ''b'', owned_cm ''b'')]"
  by (rule compareSets_order_free) (auto simp: key_ok_def no_slash_def)

section \<open>Kinds in another version\<close>

lemma filterCrossVersion_set:
  "set (filterCrossVersion a objs g keys) = {key \<in> set keys. \<not> ObjectSet_Contains objs (GroupKind g) key \<and>
     \<not> (KeyNamespace key = defaultNamespace a \<and>
        ObjectSet_Contains objs (GroupKind g) (mk_key [] (KeyName key)))}"
  by (auto simp: filterCrossVersion_def)

end
