(* ===== verification/Apply_Trace.thy ===== *)
theory Apply_Trace
  imports Apply_Sets
begin

text \<open>
  What an apply asks of the API server. \<open>recording K\<close> is the client \<open>K\<close> with a log of the calls made
  through it in the world; the properties say which deletes and patches appear in the log.
\<close>

section \<open>A client that keeps a log\<close>

datatype call =
    CGet gvk ObjectKey
  | CList gvk string
  | CCreate kobj
  | CPatch kobj patchType string
  | CDelete gvk ObjectKey

definition recording :: "'w kube \<Rightarrow> ('w \<times> call list) kube" where
  "recording K = lib.extend (lib.truncate K)
     (kube.fields
       (\<lambda>(w, log) g t k. case clGet K w g t k of (r, w) \<Rightarrow> (r, w, log @ [CGet g k]))
       (\<lambda>(w, log) g ns sel. case clList K w g ns sel of (r, w) \<Rightarrow> (r, w, log @ [CList g ns]))
       (\<lambda>(w, log) obj. case clCreate K w obj of (e, obj', w) \<Rightarrow> (e, obj', w, log @ [CCreate obj]))
       (\<lambda>(w, log) obj pt patch. case clPatch K w obj pt patch of
          (e, obj', w) \<Rightarrow> (e, obj', w, log @ [CPatch obj pt patch]))
       (\<lambda>(w, log) g k. case clDelete K w g k of (e, w) \<Rightarrow> (e, w, log @ [CDelete g k])))"

fun deletes :: "call list \<Rightarrow> (gvk \<times> ObjectKey) list" where
  "deletes [] = []"
| "deletes (CDelete g k # cs) = (g, k) # deletes cs"
| "deletes (c # cs) = deletes cs"

lemma deletes_append [simp]: "deletes (xs @ ys) = deletes xs @ deletes ys"
  by (induction xs rule: deletes.induct) auto

lemma recording_lib [simp]:
  "gvkFor (recording K) = gvkFor K" "gvkString (recording K) = gvkString K"
  "sha1Hex (recording K) = sha1Hex K" "restScope (recording K) = restScope K"
  "gvString (recording K) = gvString K" "schemeNew (recording K) = schemeNew K"
  by (simp_all add: recording_def lib.defs kube.defs)

lemma recording_calls:
  "clGet (recording K) w g t k =
     (case clGet K (fst w) g t k of (r, w') \<Rightarrow> (r, w', snd w @ [CGet g k]))"
  "clList (recording K) w g ns sel =
     (case clList K (fst w) g ns sel of (r, w') \<Rightarrow> (r, w', snd w @ [CList g ns]))"
  "clCreate (recording K) w obj =
     (case clCreate K (fst w) obj of (e, obj', w') \<Rightarrow> (e, obj', w', snd w @ [CCreate obj]))"
  "clPatch (recording K) w obj pt patch =
     (case clPatch K (fst w) obj pt patch of (e, obj', w') \<Rightarrow> (e, obj', w', snd w @ [CPatch obj pt patch]))"
  "clDelete (recording K) w g k =
     (case clDelete K (fst w) g k of (e, w') \<Rightarrow> (e, w', snd w @ [CDelete g k]))"
  by (simp_all add: recording_def lib.defs kube.defs split: prod.splits)

lemma recording_may_prune [simp]: "may_prune (recording K) = may_prune K"
  unfolding fun_eq_iff may_prune_def objectSetHash_def recording_lib by simp

lemma recording_IsNamespaced [simp]: "IsNamespaced (recording K) = IsNamespaced K"
  by (simp add: fun_eq_iff IsNamespaced_def)

lemma recording_ownerRefFor [simp]: "ownerRefFor (recording K) = ownerRefFor K"
  by (simp add: fun_eq_iff ownerRefFor_def)

lemma recording_desired_objs [simp]: "desired_objs (recording K) = desired_objs K"
proof -
  have one: "assign_one (recording K) = assign_one K"
    unfolding fun_eq_iff assign_one_def recording_IsNamespaced recording_ownerRefFor by simp
  show ?thesis
    unfolding fun_eq_iff desired_objs_def assignOwnerReference_def recording_IsNamespaced recording_lib one
    by simp
qed

section \<open>The log of each step\<close>

abbreviation log_of :: "('w \<times> call list) pstate \<Rightarrow> call list" where
  "log_of ps \<equiv> snd (world (ast ps))"

lemma apply_get_log:
  "apply_get (recording K) g obj ns n w = (r, w') \<Longrightarrow> deletes (snd w') = deletes (snd w)"
  by (auto simp: apply_get_def recording_calls split: sum.splits prod.splits option.splits)

lemma get_each_log:
  "get_each (recording K) g kvs res w = (r, w') \<Longrightarrow> deletes (snd w') = deletes (snd w)"
proof (induction kvs arbitrary: res w)
  case Nil
  then show ?case by simp
next
  case (Cons kv kvs)
  then show ?case
    by (cases kv) (auto split: prod.splits sum.splits if_splits dest!: apply_get_log)
qed

lemma apply_list_log:
  "apply_list (recording K) a g sel objs w = (r, w') \<Longrightarrow> deletes (snd w') = deletes (snd w)"
  by (auto simp: apply_list_def listBySelector_def Let_def recording_calls
      split: option.splits sum.splits prod.splits dest: get_each_log)

lemma take_over_frame:
  "take_over L valid g d k obj ex err ps = (e, ps') \<Longrightarrow>
     ast ps' = ast ps \<and> desired ps' = desired ps \<and> toReplace ps' = toReplace ps"
  by (auto simp: take_over_def split: if_splits)

lemma createF_answer_log:
  "createF_answer (recording K) a valid g d k wanted obj err ps = (e, ps') \<Longrightarrow>
     deletes (log_of ps') = deletes (log_of ps) \<and> toReplace ps' = toReplace ps \<and>
     desired ps' = desired ps"
  by (auto simp: createF_answer_def Let_def split: option.splits sum.splits prod.splits if_splits
      dest!: apply_get_log take_over_frame)

lemma createF_log:
  assumes "createF (recording K) a valid g d k ps = (e, ps')"
  shows "deletes (log_of ps') = deletes (log_of ps) \<and> toReplace ps' = toReplace ps \<and>
    dom (map_of (desired ps')) = dom (map_of (desired ps))"
  using assms
  by (auto simp: createF_def recording_calls split: option.splits sum.splits prod.splits if_splits
      dest!: createF_answer_log)

lemma send_patch_log:
  "send_patch (recording K) a g old new pt patch st = (b, e, new', st') \<Longrightarrow>
     \<exists>obj. snd (world st') = snd (world st) @ [CPatch obj pt patch] \<and>
       ResourceVersion obj = ResourceVersion old \<and>
       (if ensure a then obj = new\<lparr>ResourceVersion := ResourceVersion old\<rparr>
        else key_of obj = key_of old)"
  by (auto simp: send_patch_def recording_calls unstructured_ref_def key_of_def
      split: if_splits prod.splits)

lemma applyPatch_log:
  assumes "applyPatch (recording K) a g old new st = (b, e, new', st')"
  shows "world st' = world st \<or>
    (\<exists>obj pt patch. snd (world st') = snd (world st) @ [CPatch obj pt patch] \<and> b \<and>
       ResourceVersion obj = ResourceVersion old \<and> patch \<noteq> ''{}'' \<and>
       (if ensure a then obj = new\<lparr>ResourceVersion := ResourceVersion old\<rparr>
        else key_of obj = key_of old))"
  using assms
  by (auto simp: applyPatch_def Let_def send_patch_def recording_calls unstructured_ref_def key_of_def
      split: sum.splits prod.splits if_splits bool.splits)

lemma compareObjects_applyPatch:
  "compareObjects K a g old new st = (e, new', st') \<Longrightarrow>
     \<exists>b e' n. applyPatch K a g old new st = (b, e', n, st')"
  by (auto simp: compareObjects_def split: prod.splits option.splits bool.splits if_splits)

lemma compareObjects_log:
  assumes "compareObjects (recording K) a g old new st = (e, new', st')"
  shows "deletes (snd (world st')) = deletes (snd (world st))"
  using compareObjects_applyPatch [OF assms] applyPatch_log by fastforce

text \<open>
  The update of \<open>k\<close> that starts in \<open>ps\<close> ends in a replacement: comparing the existing with the wanted object asks for it, and
  either the wanted object says that it is to be updated or the existing one lets itself be pruned and created again.
\<close>

definition must_replace :: "('w, 'a) kube_scheme \<Rightarrow> applier \<Rightarrow> gvk \<Rightarrow> ObjectKey \<Rightarrow> 'w pstate \<Rightarrow> bool" where
  "must_replace K a g k ps \<longleftrightarrow>
     (case (map_of (existing ps) k, map_of (desired ps) k) of
        (Some old, Some new) \<Rightarrow>
          (case compareObjects K a g old new (ast ps) of
             (err, new, _) \<Rightarrow> err = Some ErrReplace \<and>
               (Annotations new AnnotationUpdate = Some ''true'' \<or>
                Annotations old AnnotationPrune \<noteq> Some ''false'' \<and> Annotations old AnnotationCreate \<noteq> Some ''false''))
      | _ \<Rightarrow> False)"

text \<open>The calls of a loop, each with the state in which it starts, and the update calls of \<open>process\<close>.\<close>

fun visits ::
  "(ObjectKey \<Rightarrow> 'w pstate \<Rightarrow> err option \<times> 'w pstate) \<Rightarrow> ObjectKey list \<Rightarrow> 'w pstate \<Rightarrow> (ObjectKey \<times> 'w pstate) list" where
  "visits f [] ps = []"
| "visits f (k # ks) ps = (k, ps) # visits f ks (snd (f k ps))"

definition update_calls ::
  "('w, 'a) kube_scheme \<Rightarrow> applier \<Rightarrow> owner_changes \<Rightarrow> gvk \<Rightarrow> string \<Rightarrow> ObjectKey list \<Rightarrow> 'w pstate
     \<Rightarrow> (ObjectKey \<times> 'w pstate) list" where
  "update_calls K a valid g d toCreate ps =
     (let ps = snd (for_keys (createF K a valid g d) toCreate ps) in visits (updateF K a g d) (toUpdate ps) ps)"

definition replacements ::
  "('w, 'a) kube_scheme \<Rightarrow> applier \<Rightarrow> gvk \<Rightarrow> (ObjectKey \<times> 'w pstate) list \<Rightarrow> ObjectKey list" where
  "replacements K a g calls = map fst (filter (\<lambda>(k, ps). must_replace K a g k ps) calls)"

lemma get_str_true: "get_str m k = ''true'' \<longleftrightarrow> m k = Some ''true''"
  by (auto simp: get_str_def split: option.splits)

lemma should_iff: "should obj l \<longleftrightarrow> Annotations obj l \<noteq> Some ''false''"
  by (auto simp: should_def get_str_def split: option.splits)

lemma updateF_log:
  assumes "updateF (recording K) a g d k ps = (e, ps')"
  shows "deletes (log_of ps') = deletes (log_of ps) \<and>
    dom (map_of (desired ps')) = dom (map_of (desired ps)) \<and>
    toReplace ps' = toReplace ps @ (if must_replace (recording K) a g k ps then [k] else [])"
  using assms
  by (auto simp: updateF_def Let_def must_replace_def replace_allowed_def get_str_true should_iff
      split: option.splits prod.splits if_splits dest!: compareObjects_log)

lemma must_replace_wanted: "must_replace K a g k ps \<Longrightarrow> k \<in> dom (map_of (desired ps))"
  by (auto simp: must_replace_def split: option.splits)

lemma deleteF_log:
  assumes "deleteF (recording K) g d k ps = (e, ps')"
  shows "deletes (log_of ps') = deletes (log_of ps) @ [(g, k)] \<and> toReplace ps' = toReplace ps \<and>
    desired ps' = desired ps"
  using assms
  by (auto simp: deleteF_def apply_delete_def recording_calls split: option.splits prod.splits)

lemma for_keys_create_log:
  "for_keys (createF (recording K) a valid g d) ks ps = (es, ps') \<Longrightarrow>
     deletes (log_of ps') = deletes (log_of ps) \<and> toReplace ps' = toReplace ps \<and>
     dom (map_of (desired ps')) = dom (map_of (desired ps))"
  by (induction ks arbitrary: ps es) (auto split: prod.splits dest!: createF_log)

lemma for_keys_update_log:
  "for_keys (updateF (recording K) a g d) ks ps = (es, ps') \<Longrightarrow>
     deletes (log_of ps') = deletes (log_of ps) \<and>
     dom (map_of (desired ps')) = dom (map_of (desired ps)) \<and>
     toReplace ps' = toReplace ps @ replacements (recording K) a g (visits (updateF (recording K) a g d) ks ps) \<and>
     set (replacements (recording K) a g (visits (updateF (recording K) a g d) ks ps)) \<subseteq> dom (map_of (desired ps))"
proof (induction ks arbitrary: ps es)
  case Nil
  then show ?case by (simp add: replacements_def)
next
  case (Cons k ks)
  from Cons.prems obtain e ps1 es1 where
    s: "updateF (recording K) a g d k ps = (e, ps1)" "for_keys (updateF (recording K) a g d) ks ps1 = (es1, ps')"
    by (auto split: prod.splits)
  from updateF_log [OF s(1)] Cons.IH [OF s(2)] must_replace_wanted [of "recording K" a g k ps] show ?case
    by (simp add: s(1) replacements_def)
qed

lemma for_keys_delete_log:
  "for_keys (deleteF (recording K) g d) ks ps = (es, ps') \<Longrightarrow>
     deletes (log_of ps') = deletes (log_of ps) @ map (Pair g) ks \<and> toReplace ps' = toReplace ps"
  by (induction ks arbitrary: ps es) (auto split: prod.splits dest!: deleteF_log)

lemma process_loops_log:
  fixes toCreate
  defines "reps \<equiv> \<lambda>K a valid g d ps. replacements K a g (update_calls K a valid g d toCreate ps)"
  assumes "process_loops (recording K) a valid g d toCreate toDelete ps = (errs, ps')" and "toReplace ps = []"
  shows "deletes (log_of ps') = deletes (log_of ps) @
      map (Pair g) ((if noPrune a then [] else toDelete) @ reps (recording K) a valid g d ps) \<and>
    set (reps (recording K) a valid g d ps) \<subseteq> dom (map_of (desired ps))"
proof -
  obtain es1 ps1 where c: "for_keys (createF (recording K) a valid g d) toCreate ps = (es1, ps1)" by fastforce
  obtain es2 ps2 where u: "for_keys (updateF (recording K) a g d) (toUpdate ps1) ps1 = (es2, ps2)" by fastforce
  have r: "reps (recording K) a valid g d ps =
      replacements (recording K) a g (visits (updateF (recording K) a g d) (toUpdate ps1) ps1)"
    by (simp add: reps_def update_calls_def c Let_def)
  note C = for_keys_create_log [OF c] and U = for_keys_update_log [OF u]
  then have "toReplace ps2 = reps (recording K) a valid g d ps" using assms(3) by (simp add: r)
  with assms(2) C U show ?thesis
    unfolding process_loops_def r [symmetric]
    by (auto simp: c u split: prod.splits if_splits dest!: for_keys_create_log for_keys_delete_log)
qed

section \<open>Which objects an apply deletes\<close>

lemma get_each_ok:
  "get_each K g kvs res w = (Inr m, w') \<Longrightarrow> gomap_ok res \<Longrightarrow>
     gomap_ok m \<and> fst ` set m \<subseteq> fst ` set res \<union> fst ` set kvs"
proof (induction kvs arbitrary: res w)
  case Nil
  then show ?case by simp
next
  case (Cons kv kvs)
  obtain k v where kv: "kv = (k, v)" by fastforce
  obtain r w1 where g: "apply_get K g (Some v) (KeyNamespace k) (KeyName k) w = (r, w1)" by fastforce
  show ?case
  proof (cases r)
    case (Inl e)
    with Cons.prems g kv have "get_each K g kvs res w1 = (Inr m, w')" by (simp split: if_splits)
    from Cons.IH [OF this Cons.prems(2)] kv show ?thesis by auto
  next
    case (Inr obj)
    with Cons.prems g kv have "get_each K g kvs (AList.update k obj res) w1 = (Inr m, w')" by simp
    from Cons.IH [OF this] Cons.prems(2) kv show ?thesis by (auto simp: keys_update)
  qed
qed

lemma gomap_ok_fold_update: "gomap_ok m \<Longrightarrow> gomap_ok (fold (\<lambda>x m. AList.update (f x) (g x) m) xs m)"
  by (induction xs arbitrary: m) auto

lemma apply_list_ok: "apply_list K a g sel objs w = (Inr m, w') \<Longrightarrow> gomap_ok m"
  by (auto simp: apply_list_def listBySelector_def Let_def gomap_ok_fold_update
      split: option.splits sum.splits prod.splits dest: get_each_ok)

lemma range_map_inv:
  assumes step: "\<And>k v m m'. body k v m = Inr m' \<Longrightarrow> I m \<Longrightarrow> I m'"
    and run: "range_map body ks m = Inr m'" and "I m"
  shows "I m'"
  using run \<open>I m\<close>
proof (induction ks arbitrary: m)
  case Nil
  then show ?case by simp
next
  case (Cons k ks)
  show ?case
  proof (cases "map_of m k")
    case None
    with Cons show ?thesis by simp
  next
    case (Some v)
    with Cons.prems obtain m1 where "body k v m = Inr m1" "range_map body ks m1 = Inr m'"
      by (auto split: sum.splits)
    with Cons.IH step Cons.prems(2) show ?thesis by blast
  qed
qed

lemma assign_one_ok: "assign_one L om og ons g k v m = Inr m' \<Longrightarrow> gomap_ok m \<Longrightarrow> gomap_ok m'"
  by (auto simp: assign_one_def Let_def split: sum.splits if_splits)

lemma move_one_ok: "move_one P f g k v m = Inr m' \<Longrightarrow> gomap_ok m \<Longrightarrow> gomap_ok m'"
  by (auto simp: move_one_def split: if_splits)

lemma desired_objs_ok:
  assumes "desired_objs L a g S = Inr objs" and "set_inv S"
  shows "gomap_ok objs"
proof -
  have ok: "gomap_ok (get_objs (objects S) g)"
    using assms(2) by (intro gomap_ok_get_objs) (auto simp: set_inv_def)
  note settle = range_map_inv [where I = gomap_ok, OF move_one_ok]
    range_map_inv [where I = gomap_ok, OF assign_one_ok]
  obtain m where m: "(if owner a \<noteq> None then assignOwnerReference L a g (get_objs (objects S) g)
      else Inr (get_objs (objects S) g)) = Inr m"
    and s: "adjustNamespace a m = Inr objs \<or> clearNamespace m = Inr objs"
    using assms(1) by (auto simp: desired_objs_def Let_def split: sum.splits if_splits)
  have "gomap_ok m"
    using m ok settle(2) by (auto simp: assignOwnerReference_def split: if_splits option.splits sum.splits)
  with s show ?thesis
    by (auto simp: adjustNamespace_def clearNamespace_def adjust_one_move clear_one_move intro: settle(1))
qed

abbreviation start_state ::
  "'w astate \<Rightarrow> 'w \<Rightarrow> ObjectByKey \<Rightarrow> ObjectByKey \<Rightarrow> ObjectKey list \<Rightarrow> 'w pstate" where
  "start_state st w ex objs u \<equiv> \<lparr>ast = st\<lparr>world := w\<rparr>, existing = ex, desired = objs, toUpdate = u, toReplace = []\<rparr>"

lemma process_deletes_log:
  assumes "desired_objs K a g S = Inr objs"
    and "apply_list (recording K) a g sel objs (w, []) = (Inr ex, w1)"
    and "compareSets K ex objs = (c, d, u)"
    and "process (recording K) a valid dbg sel g S st = (err, st')" and "world st = (w, [])"
  defines "reps \<equiv> replacements (recording K) a g (update_calls (recording K) a valid g dbg c (start_state st w1 ex objs u))"
  shows "deletes (snd (world st')) =
      map (Pair g) ((if noPrune a then [] else filterCrossVersion a S g d) @ reps) \<and>
    set reps \<subseteq> dom (map_of objs)"
proof -
  have cs: "compareSets (recording K) ex objs = (c, d, u)"
    using assms(3) unfolding compareSets_keys_where recording_may_prune .
  obtain errs ps where loops: "process_loops (recording K) a valid g dbg c (filterCrossVersion a S g d)
      (start_state st w1 ex objs u) = (errs, ps)"
    by fastforce
  have "st' = ast ps"
    using assms(4) unfolding process_def by (simp add: assms(1,2,5) cs loops)
  then show ?thesis
    using process_loops_log [OF loops] apply_list_log [OF assms(2)] unfolding reps_def by simp
qed

lemma process_prunes:
  assumes "set_inv S" and "desired_objs K a g S = Inr objs"
    and "apply_list (recording K) a g sel objs (w, []) = (Inr ex, w1)" and "compareSets K ex objs = (c, d, u)"
  shows "k \<in> set (filterCrossVersion a S g d) \<longleftrightarrow> delete_key K ex objs k \<and> k \<in> set (filterCrossVersion a S g [k])"
proof -
  have "gomap_ok ex" "gomap_ok objs"
    using apply_list_ok [OF assms(3)] desired_objs_ok [OF assms(2,1)] .
  from compareSets_sets(2) [OF this assms(4)] show ?thesis by (auto simp: filterCrossVersion_set)
qed


lemma example_desired_objs:
  "desired_objs (memory_kube example_lib) example_applier example_gvk empty_ObjectSet = Inr []"
  by (simp add: desired_objs_def empty_ObjectSet_def get_objs_def IsNamespaced_def adjustNamespace_def
      example_lib_def)

text \<open>A cluster with an object to be pruned and one whose reconciler asks for a replacement.\<close>

abbreviation replace_kube :: "kobj list kube" where
  "replace_kube \<equiv> memory_kube (patch_lib\<lparr>marshalObj := \<lambda>o'. Inr (ResourceVersion o' @ ''x'')\<rparr>)"

abbreviation replacer :: applier where
  "replacer \<equiv> example_applier\<lparr>reconcilers := \<lambda>_. Some (\<lambda>_ _. (False, Some ErrReplace))\<rparr>"

definition kept_set :: ObjectSet where
  "kept_set = fst (NewObjectSet (\<lambda>_. Inr example_gvk) [Some (owned_cm ''kept'')])"

lemma kept_set_simps:
  "objects kept_set = [(example_gvk, [(mk_key ''ns'' ''kept'', owned_cm ''kept'')])]"
  "objectsByGK kept_set = [(GroupKind example_gvk, [(mk_key ''ns'' ''kept'', owned_cm ''kept'')])]"
  by (simp_all add: kept_set_def NewObjectSet_def ObjectSet_add_def ObjectByGVK_Add_def ObjectByGK_Add_def empty_ObjectSet_def
      get_objs_def Let_def owned_cm_def key_of_def)

lemma kept_must_replace:
  "map_of (existing ps) (mk_key ''ns'' ''kept'') = Some ((owned_cm ''kept'')\<lparr>ResourceVersion := ''7''\<rparr>) \<Longrightarrow>
   map_of (desired ps) (mk_key ''ns'' ''kept'') = Some (owned_cm ''kept'') \<Longrightarrow> patchCache (ast ps) = [] \<Longrightarrow>
   must_replace (recording replace_kube) replacer example_gvk (mk_key ''ns'' ''kept'') ps"
  by (simp add: must_replace_def compareObjects_def applyPatch_def originalAndModified_def getOriginalBytes_def
      getOriginalObject_def appliedFromAnnotation_def prepareObjectForCreate_def serializeApplied_def
      ToMapInterface_def createPatch_def getMergeStyle_def sanitizePatch_def drop_server_fields_def
      removeMetadataFields_def emptyMaps_def run_reconciler_def recording_def memory_kube_def lib.defs kube.defs
      patch_lib_def example_lib_def owned_cm_def Let_def get_str_def appliedToAnnotation_def label_defs)


text \<open>Without an owner and a sub-context (as for \<open>Ensure\<close>) there is no selector, the cluster is asked
  only for the wanted objects, and nothing is pruned: every delete is the first half of a replacement.\<close>

theorem no_selector_no_prune:
  fixes K :: "'w kube"
  assumes "set_inv S" and "desired_objs K a g S = Inr objs" and "world st = (w, [])"
    and "process (recording K) a valid dbg None g S st = (err, st')"
  shows "\<forall>(g', k) \<in> set (deletes (snd (world st'))). g' = g \<and> map_of objs k \<noteq> None"
proof -
  obtain r w1 where l: "apply_list (recording K) a g None objs (w, []) = (r, w1)" by (metis surj_pair)
  show ?thesis
  proof (cases r)
    case (Inl e)
    have "st' = st\<lparr>world := w1\<rparr>"
      using assms(4) unfolding process_def by (simp add: assms(2,3) l Inl)
    then show ?thesis using apply_list_log [OF l] by simp
  next
    case (Inr ex)
    then have "fst ` set ex \<subseteq> fst ` set objs"
      using l get_each_ok [of "recording K" g objs "[]" "(w, [])" ex w1] by (simp add: apply_list_def)
    then have "map_of ex k = Some v \<Longrightarrow> map_of objs k \<noteq> None" for k v
      by (metis map_of_eq_None_iff map_of_key subsetD)
    then have "\<not> delete_key K ex objs k" for k
      by (simp add: delete_key_def split: option.splits)
    moreover have l: "apply_list (recording K) a g None objs (w, []) = (Inr ex, w1)" using l Inr by simp
    moreover obtain c d u where cs: "compareSets K ex objs = (c, d, u)" by (metis prod_cases3)
    ultimately show ?thesis
      using process_deletes_log [OF assms(2) l cs assms(4,3)] process_prunes [OF assms(1,2) l cs] by (auto split: if_splits)
  qed
qed

theorem no_selector_no_prune_witness:
  "let st = \<lparr>world = ([owned_cm ''old''], []), patchCache = []\<rparr>;
       st' = snd (process (recording example_kube) example_applier (\<lambda>_. False) [] None example_gvk
               empty_ObjectSet st)
   in deletes (snd (world st')) = []"
proof -
  let ?st = "\<lparr>world = ([owned_cm ''old''], []), patchCache = []\<rparr>"
  obtain err st' where run: "process (recording example_kube) example_applier (\<lambda>_. False) [] None example_gvk
      empty_ObjectSet ?st = (err, st')" by fastforce
  from no_selector_no_prune [OF set_inv_empty example_desired_objs _ run]
  have "deletes (snd (world st')) = []" by (cases "deletes (snd (world st'))") auto
  with run show ?thesis by (simp add: Let_def)
qed

section \<open>Taking over, patching, orphans\<close>

text \<open>
  When the object \<open>found\<close> may be taken over for \<open>obj\<close>: both carry the same ownership, or nobody owns it, or its owner
  now takes a sub-context, or the change of the sub-context is registered and \<open>found\<close> records no other owner.
\<close>

definition may_take_over :: "owner_changes \<Rightarrow> kobj \<Rightarrow> kobj \<Rightarrow> bool" where
  "may_take_over valid found obj \<longleftrightarrow>
     (let f = get_str (Annotations found); n = get_str (Annotations obj); owner_labels = {LabelGVK, LabelNamespace, LabelName} in
      (\<forall>l \<in> {LabelSubContext, LabelHash} \<union> owner_labels. f l = n l) \<or>
      get_str (Labels found) LabelHash = [] \<or>
      f LabelSubContext = [] \<and> n LabelSubContext \<noteq> [] \<and> (\<forall>l \<in> owner_labels. f l = n l) \<or>
      n LabelSubContext \<noteq> [] \<and> (\<forall>l \<in> owner_labels. f l = [] \<or> f l = n l) \<and>
        valid (f LabelSubContext @ '' => '' @ n LabelSubContext))"

lemma may_take_over_code:
  "may_take_over valid found obj \<longleftrightarrow> annotationsMatch found obj \<or> get_str (Labels found) LabelHash = [] \<or>
     isAssigningSubContext found obj \<or> isAllowOwnerTransition valid found obj"
  by (auto simp: may_take_over_def annotationsMatch_def isAssigningSubContext_def isAllowOwnerTransition_def
      ownerChangeKey_def Let_def)

text \<open>C9: an object that somebody else owns is never taken over. When the create of the prepared object is answered
  with "already exists" and the object can be read, that object joins the existing set (and is to be updated,
  unless the wanted object says otherwise) if it may be taken over for the object the create was sent for; if not, the create
  reports an error and the plan stays as it was. In every other case the plan stays as it was, and the create reports the error
  it met.\<close>

theorem createF_takeover_safe:
  assumes "map_of (desired ps) k = Some wanted" and "prepareObjectForCreate K g wanted (\<not> ensure a) = Inr sent"
    and "clCreate K (world (ast ps)) sent = (err, obj, w)"
    and "apply_get K g (Some (if ensure a then obj else wanted)) (KeyNamespace k) (KeyName k) w = (answer, w')"
    and "createF K a valid g dbg k ps = (e, ps')"
  shows "case (IsAlreadyExists err, answer) of
      (True, Inr found) \<Rightarrow>
        if may_take_over valid found obj
        then e = None \<and> existing ps' = AList.update k found (existing ps) \<and>
          toUpdate ps' = toUpdate ps @ (if should obj AnnotationUpdate then [k] else [])
        else e \<noteq> None \<and> existing ps' = existing ps \<and> toUpdate ps' = toUpdate ps
    | _ \<Rightarrow> (e = None \<longleftrightarrow> err = None) \<and> existing ps' = existing ps \<and> toUpdate ps' = toUpdate ps"
proof -
  have exists: "IsAlreadyExists err \<Longrightarrow> err \<noteq> None" by (cases err) (simp_all add: has_reason_def)
  have run: "createF_answer K a valid g dbg k (if ensure a then obj else wanted) obj err
      (if ensure a then set_world w ps\<lparr>desired := AList.update k obj (desired ps)\<rparr> else set_world w ps) = (e, ps')"
    using assms(1-3,5) by (simp add: createF_def split: if_splits)
  show ?thesis
    using run assms(4) exists
    by (cases answer; cases err; cases "IsAlreadyExists err")
      (auto simp: createF_answer_def take_over_def may_take_over_code Let_def split: if_splits)
qed

definition foreign_cm :: kobj where
  "foreign_cm = (owned_cm ''cm'')\<lparr>Labels := [LabelHash \<mapsto> ''other''], Annotations := [LabelSubContext \<mapsto> ''other'']\<rparr>"

text \<open>An object nobody owns is taken over, an object of another sub-context is not.\<close>

theorem createF_takeover_safe_witness:
  "let run = (\<lambda>there. createF example_kube example_applier (\<lambda>_. False) example_gvk [] (mk_key ''ns'' ''cm'')
     \<lparr>ast = \<lparr>world = [there], patchCache = []\<rparr>, existing = [],
      desired = [(mk_key ''ns'' ''cm'', owned_cm ''cm'')], toUpdate = [], toReplace = []\<rparr>)
   in fst (run (owned_cm ''cm'')) = None \<and> existing (snd (run (owned_cm ''cm''))) = [(mk_key ''ns'' ''cm'', owned_cm ''cm'')] \<and>
     toUpdate (snd (run (owned_cm ''cm''))) = [mk_key ''ns'' ''cm''] \<and>
     fst (run foreign_cm) \<noteq> None \<and> existing (snd (run foreign_cm)) = [] \<and> toUpdate (snd (run foreign_cm)) = []"
proof -
  let ?ps = "\<lambda>there. \<lparr>ast = \<lparr>world = [there], patchCache = []\<rparr>, existing = [],
      desired = [(mk_key ''ns'' ''cm'', owned_cm ''cm'')], toUpdate = [], toReplace = []\<rparr>"
  let ?run = "\<lambda>there. createF example_kube example_applier (\<lambda>_. False) example_gvk [] (mk_key ''ns'' ''cm'') (?ps there)"
  obtain sent where sent: "prepareObjectForCreate example_kube example_gvk (owned_cm ''cm'') (\<not> ensure example_applier) = Inr sent"
    and s: "key_of sent = mk_key ''ns'' ''cm''" "Annotations sent LabelSubContext = None" "Annotations sent AnnotationUpdate = None"
    by (simp add: prepareObjectForCreate_def serializeApplied_def ToMapInterface_def memory_kube_def lib.defs kube.defs
        example_lib_def owned_cm_def key_of_def Let_def appliedToAnnotation_def label_defs)
  have there: "key_of (owned_cm ''cm'') = mk_key ''ns'' ''cm''" "key_of foreign_cm = mk_key ''ns'' ''cm''"
    by (simp_all add: owned_cm_def foreign_cm_def key_of_def)
  have create: "clCreate example_kube (world (ast (?ps x))) sent = (Some (ApiErr AlreadyExists ''exists''), sent, [x])"
    and get: "apply_get example_kube example_gvk (Some (if ensure example_applier then sent else owned_cm ''cm'')) (KeyNamespace (mk_key ''ns'' ''cm''))
      (KeyName (mk_key ''ns'' ''cm'')) [x] = (Inr x, [x])" if "key_of x = mk_key ''ns'' ''cm''" for x
    using that s(1) by (simp_all add: apply_get_def)
  have wanted: "map_of (desired (?ps x)) (mk_key ''ns'' ''cm'') = Some (owned_cm ''cm'')" for x by simp
  note safe = createF_takeover_safe [OF wanted sent create get]
  have ok: "may_take_over (\<lambda>_. False) (owned_cm ''cm'') sent" "\<not> may_take_over (\<lambda>_. False) foreign_cm sent"
    using s(2) by (simp_all add: may_take_over_def owned_cm_def foreign_cm_def get_str_def)
  have u: "should sent AnnotationUpdate" using s(3) by (simp add: should_iff)
  from safe [OF there(1) there(1), of "\<lambda>_. False" "[]" "fst (?run (owned_cm ''cm''))" "snd (?run (owned_cm ''cm''))"]
    safe [OF there(2) there(2), of "\<lambda>_. False" "[]" "fst (?run foreign_cm)" "snd (?run foreign_cm)"] ok u
  show ?thesis by (simp add: has_reason_def Let_def)
qed

text \<open>Bringing one object up to date sends at most one patch, never an empty one, and only
  with the resource version that was read, so a write that happened in between makes the server refuse it;
  without \<open>ensure\<close> the patch goes to the object that was read. If no patch is sent the world is untouched.\<close>

theorem compareObjects_one_patch:
  fixes K :: "'w kube"
  assumes "compareObjects (recording K) a g old new st = (e, new', st')"
  shows "world st' = world st \<or>
    (\<exists>obj pt patch. snd (world st') = snd (world st) @ [CPatch obj pt patch] \<and>
       ResourceVersion obj = ResourceVersion old \<and> patch \<noteq> ''{}'' \<and>
       (if ensure a then obj = new\<lparr>ResourceVersion := ResourceVersion old\<rparr>
        else key_of obj = key_of old))"
  using compareObjects_applyPatch [OF assms] applyPatch_log by blast

abbreviation patch_kube :: "kobj list kube" where
  "patch_kube \<equiv> memory_kube patch_lib"

lemma example_patch:
  "compareObjects (recording patch_kube) example_applier example_gvk
     ((owned_cm ''cm'')\<lparr>ResourceVersion := ''7''\<rparr>) (owned_cm ''new'') \<lparr>world = ([], []), patchCache = []\<rparr> =
   (None, owned_cm ''new'',
    \<lparr>world = ([], [CPatch (unstructured_ref patch_lib example_gvk ''ns'' ''cm'' ''7'') MergePatchType ''spec'']),
     patchCache = [(example_gvk, MergePatchType, None)]\<rparr>)"
  by (simp add: compareObjects_def applyPatch_def originalAndModified_def getOriginalBytes_def
      getOriginalObject_def appliedFromAnnotation_def prepareObjectForCreate_def serializeApplied_def
      ToMapInterface_def createPatch_def getMergeStyle_def sanitizePatch_def drop_server_fields_def
      removeMetadataFields_def emptyMaps_def run_reconciler_def send_patch_def unstructured_ref_def
      recording_def memory_kube_def lib.defs kube.defs patch_lib_def example_lib_def owned_cm_def Let_def
      appliedToAnnotation_def label_defs)

theorem compareObjects_one_patch_witness:
  "\<exists>obj pt patch. snd (world (snd (snd (compareObjects (recording patch_kube) example_applier example_gvk
      ((owned_cm ''cm'')\<lparr>ResourceVersion := ''7''\<rparr>) (owned_cm ''new'')
      \<lparr>world = ([], []), patchCache = []\<rparr>)))) = [CPatch obj pt patch] \<and> ResourceVersion obj = ''7'' \<and>
     key_of obj = mk_key ''ns'' ''cm''"
proof -
  from compareObjects_one_patch [OF example_patch] show ?thesis
    unfolding example_patch by (auto simp: owned_cm_def key_of_def)
qed

lemma cut_at_sep:
  "c \<notin> set s \<Longrightarrow> cut_at (s @ (c # cs) @ t) (c # cs) = Some (s, t)"
  by (induction s) auto

lemma cut_at_sep_None: "c \<notin> set s \<Longrightarrow> cut_at s (c # cs) = None"
  by (induction s) auto

lemma Split_two:
  assumes "c \<notin> set s" and "c \<notin> set t"
  shows "strings_Split (s @ (c # cs) @ t) (c # cs) = [s, t]"
proof -
  have "strings_Split t (c # cs) = [t]"
    using cut_at_sep_None [OF assms(2), of cs] by (subst strings_Split.simps) simp
  then show ?thesis
    using cut_at_sep [OF assms(1), of cs t] by (subst strings_Split.simps) simp
qed

text \<open>The documented text of a kind.\<close>

definition gvk_text :: "gvk \<Rightarrow> string" where
  "gvk_text g = Group g @ ''/'' @ Version g @ '', Kind='' @ Kind g"

definition gvk_plain :: "gvk \<Rightarrow> bool" where
  "gvk_plain g \<longleftrightarrow> CHR ''/'' \<notin> set (Group g) \<and> CHR '','' \<notin> set (Group g @ Version g @ Kind g)"

lemma getGVK_text:
  assumes "gvk_plain g"
  shows "getGVK (gvk_text g) = Inr g"
proof -
  have "strings_Split (gvk_text g) '', Kind='' = [Group g @ ''/'' @ Version g, Kind g]"
    using Split_two [of "CHR '',''" "Group g @ ''/'' @ Version g" "Kind g" "'' Kind=''"] assms
    by (simp add: gvk_plain_def gvk_text_def)
  moreover have "strings_Cut (Group g @ ''/'' @ Version g) ''/'' = (Group g, Version g, True)"
    using assms by (simp add: gvk_plain_def)
  ultimately show ?thesis by (simp add: getGVK_def)
qed

text \<open>C29: the owner recorded on an object is found again: for an object stamped by
  an apply of the owner \<open>o'\<close>, \<open>FindOwner\<close> looks up exactly that owner's kind, namespace and
  name. The kind prints as documented and holds no comma, its group no slash.\<close>

theorem FindOwner_stamped:
  assumes "gvkString K = gvk_text" and "gvkFor K o' = Inr g" and "gvk_plain g"
    and "GetLabelsAndAnnotations K sub (Some o') = Inr (labels, annotations)"
  shows "FindOwner K (Some (inject_one labels annotations obj)) w =
    apply_get K g None (Namespace o') (Name o') w"
proof -
  have a: "annotations = owner_annotations K sub g o'"
    using assms(4) unfolding GetLabels_owner [OF assms(2)] by simp
  have l: "get_str (Annotations (inject_one labels annotations obj)) LabelGVK = gvk_text g"
    "get_str (Annotations (inject_one labels annotations obj)) LabelName = Name o'"
    "get_str (Annotations (inject_one labels annotations obj)) LabelNamespace = Namespace o'"
    by (simp_all add: a inject_one_def setLabels_def setAnnotations_def owner_annotations_def assms(1) get_str_def)
  have "gvk_text g \<noteq> []" by (simp add: gvk_text_def)
  then show ?thesis by (simp add: FindOwner_def Let_def l getGVK_text [OF assms(3)])
qed

theorem FindOwner_stamped_witness:
  "let o' = empty_obj\<lparr>Name := ''own'', Namespace := ''ns''\<rparr>;
       la = projr (GetLabelsAndAnnotations example_kube [] (Some o'))
   in FindOwner example_kube (Some (inject_one (fst la) (snd la) (owned_cm ''cm''))) [o'] = (Inr o', [o'])"
proof -
  let ?o = "empty_obj\<lparr>Name := ''own'', Namespace := ''ns''\<rparr>"
  let ?g = "\<lparr>Group = [], Version = ''v1'', Kind = ''Object''\<rparr>"
  have s: "gvkString example_kube = gvk_text" by (simp add: example_lib_def gvk_text_def fun_eq_iff)
  have g: "gvkFor example_kube ?o = Inr ?g" by (simp add: example_lib_def)
  have p: "gvk_plain ?g" by (simp add: gvk_plain_def)
  have n: "apply_get example_kube ?g None ''ns'' ''own'' [?o] = (Inr ?o, [?o])"
    by (simp add: apply_get_def apply_newObj_def key_of_def example_lib_def)
  from FindOwner_stamped [OF s g p GetLabels_owner [OF g, of "[]"], of "owned_cm ''cm''" "[?o]"] n
  show ?thesis
    unfolding Let_def GetLabels_owner [OF g] sum.sel fst_conv snd_conv by simp
qed

text \<open>\<open>PurgeOrphan\<close> deletes an object only when it names an owner and the API
  server answers that this owner does not exist; then it deletes that object and nothing else.\<close>

theorem PurgeOrphan_safe:
  fixes K :: "'w kube"
  assumes "PurgeOrphan (recording K) (Some obj) (w, []) = (e, w')"
  shows "(if IsNotFound (case fst (FindOwner (recording K) (Some obj) (w, [])) of Inl e \<Rightarrow> Some e | Inr _ \<Rightarrow> None)
      \<and> \<not> isl (gvkFor K obj)
    then deletes (snd w') = [(projr (gvkFor K obj), key_of obj)] \<and>
      get_str (Annotations obj) LabelGVK \<noteq> []
    else deletes (snd w') = [])"
proof -
  obtain r w1 where f: "FindOwner (recording K) (Some obj) (w, []) = (r, w1)" by (metis surj_pair)
  have l: "deletes (snd w1) = []"
    using f by (auto simp: FindOwner_def Let_def split: if_splits sum.splits dest!: apply_get_log)
  have a: "r = Inl x \<Longrightarrow> IsNotFound (Some x) \<Longrightarrow> get_str (Annotations obj) LabelGVK \<noteq> []" for x
    using f by (auto simp: FindOwner_def Let_def split: if_splits)
  show ?thesis
    using assms f l a
    by (auto simp: PurgeOrphan_def apply_delete_def recording_calls key_of_def
        split: sum.splits prod.splits if_splits)
qed

definition orphan :: kobj where
  "orphan = (owned_cm ''cm'')\<lparr>Annotations := [LabelGVK \<mapsto> ''/v1, Kind=Object'', LabelName \<mapsto> ''own'']\<rparr>"

lemma example_owner_missing:
  "FindOwner (recording example_kube) (Some orphan) ([orphan], []) =
     (Inl (ApiErr NotFound ''not found''), [orphan],
      [CGet \<lparr>Group = [], Version = ''v1'', Kind = ''Object''\<rparr> (mk_key [] ''own'')])"
proof -
  have g: "getGVK ''/v1, Kind=Object'' = Inr \<lparr>Group = [], Version = ''v1'', Kind = ''Object''\<rparr>"
    using getGVK_text [of "\<lparr>Group = [], Version = ''v1'', Kind = ''Object''\<rparr>"]
    by (simp add: gvk_text_def gvk_plain_def)
  show ?thesis
    by (simp add: FindOwner_def orphan_def Let_def g apply_get_def apply_newObj_def recording_calls
        example_lib_def owned_cm_def key_of_def get_str_def)
qed

theorem PurgeOrphan_safe_witness:
  "deletes (snd (snd (PurgeOrphan (recording example_kube) (Some orphan) ([orphan], [])))) =
     [(projr (gvkFor example_lib orphan), key_of orphan)]"
proof -
  obtain e w' where run: "PurgeOrphan (recording example_kube) (Some orphan) ([orphan], []) = (e, w')"
    by (metis surj_pair)
  have "gvkFor example_lib orphan = Inr \<lparr>Group = [], Version = ''v1'', Kind = ''Object''\<rparr>"
    by (simp add: example_lib_def orphan_def owned_cm_def)
  with PurgeOrphan_safe [OF run] run show ?thesis by (simp add: example_owner_missing)
qed

section \<open>Two owners with one hash\<close>

text \<open>C39: the owner hash does not separate the owner's fields, and an apply of one owner
  prunes the objects of another: for two owners of the same kind and sub-context whose name and
  namespace concatenate alike, every object stamped for the first is selected by the second's
  selector and passes the test for pruning (unless it opts out or is being deleted).\<close>

theorem owner_hash_collision:
  assumes "\<And>l v s. newRequirement L l v = Inr s \<Longrightarrow> selMatches s = (\<lambda>m. m l = Some v)"
    and "GetLabelsAndAnnotations L sub (Some o1) = Inr (labels1, annotations1)"
    and "GetLabelsAndAnnotations L sub (Some o2) = Inr (labels2, annotations2)"
    and "gvkFor L o1 = gvkFor L o2" and "Name o1 @ Namespace o1 = Name o2 @ Namespace o2"
    and "GetSelector L labels2 = Inr (Some sel)"
    and "should obj AnnotationPrune" and "DeletionTimestamp obj = None"
  shows "selMatches sel (Labels (inject_one labels1 annotations1 obj)) \<and>
    may_prune L (inject_one labels1 annotations1 obj)"
proof -
  obtain g where g: "gvkFor L o1 = Inr g"
    using assms(2) by (auto simp: GetLabelsAndAnnotations_def Let_def split: sum.splits)
  then have g2: "gvkFor L o2 = Inr g" using assms(4) by simp
  have l: "labels1 = [(LabelHash, objectSetHash L (map_of (owner_annotations L sub g o1)))]"
    "annotations1 = owner_annotations L sub g o1" "labels2 = labels1"
    using assms(2,3,5) unfolding GetLabels_owner [OF g] GetLabels_owner [OF g2] hash_owner_annotations
    by simp_all
  have "selMatches sel = (\<lambda>m. m LabelHash = Some (get_str (map_of labels1) LabelHash))"
    using assms(1,6) l(3) by (auto simp: GetSelector_def split: if_splits sum.splits)
  moreover have "Labels (inject_one labels1 annotations1 obj) LabelHash =
      Some (get_str (map_of labels1) LabelHash)"
    by (simp add: inject_one_def setLabels_def setAnnotations_def l(1) get_str_def)
  moreover have "get_str (map_of labels1) LabelHash = objectSetHash L (Annotations (inject_one labels1 annotations1 obj))"
    by (simp add: inject_one_def setLabels_def setAnnotations_def l(1,2) owner_annotations_def get_str_def
        objectSetHash_def hashOrder_def)
  moreover have "should (inject_one labels1 annotations1 obj) AnnotationPrune"
    using assms(7) by (simp add: should_def inject_one_def setLabels_def setAnnotations_def l(2)
        owner_annotations_def get_str_def label_defs)
  ultimately show ?thesis
    using assms(8) by (simp add: may_prune_def is_zero_time_def inject_one_def setLabels_def setAnnotations_def)
qed

theorem owner_hash_collision_witness:
  "let o1 = empty_obj\<lparr>Name := ''app'', Namespace := ''prod''\<rparr>;
       o2 = empty_obj\<lparr>Name := ''appp'', Namespace := ''rod''\<rparr>;
       la = projr (GetLabelsAndAnnotations example_lib [] (Some o1))
   in key_of o1 \<noteq> key_of o2 \<and> may_prune example_lib (inject_one (fst la) (snd la) (owned_cm ''cm''))"
proof -
  let ?o1 = "empty_obj\<lparr>Name := ''app'', Namespace := ''prod''\<rparr>"
  let ?o2 = "empty_obj\<lparr>Name := ''appp'', Namespace := ''rod''\<rparr>"
  have g: "gvkFor example_lib ?o1 = Inr \<lparr>Group = [], Version = ''v1'', Kind = ''Object''\<rparr>"
    "gvkFor example_lib ?o2 = Inr \<lparr>Group = [], Version = ''v1'', Kind = ''Object''\<rparr>"
    by (simp_all add: example_lib_def)
  have r: "newRequirement example_lib l v = Inr s \<Longrightarrow> selMatches s = (\<lambda>m. m l = Some v)" for l v s
    by (auto simp: example_lib_def)
  let ?h = "objectSetHash example_lib (map_of (owner_annotations example_lib []
     \<lparr>Group = [], Version = ''v1'', Kind = ''Object''\<rparr> ?o2))"
  have s: "GetSelector example_lib [(LabelHash, ?h)] =
      Inr (Some \<lparr>selMatches = (\<lambda>m. m LabelHash = Some ?h), selString = LabelHash @ ''='' @ ?h\<rparr>)"
    by (simp add: GetSelector_def example_lib_def get_str_def)
  from owner_hash_collision [OF r GetLabels_owner [OF g(1), of "[]"] GetLabels_owner [OF g(2), of "[]"]
      trans [OF g(1) g(2) [symmetric]] _ s, of "owned_cm ''cm''"]
  show ?thesis
    by (simp add: GetLabels_owner [OF g(1)] Let_def key_of_def owned_cm_def should_def)
qed

end
