(* ===== verification/Apply_Server.thy ===== *)
theory Apply_Server
  imports Apply_Trace
begin

text \<open>
  The API server behind the applier's client: a map from kinds and keys to objects, \<open>cl w\<close>. \<open>api_server\<close> is what is
  relied on of its documented behaviour, one law per call; the lemmas say what one create, update or delete of the
  applier makes of the cluster.
\<close>

section \<open>The server behind the client\<close>

type_synonym cluster = "gvk \<Rightarrow> ObjectKey \<Rightarrow> kobj option"

text \<open>An object that is being deleted stays until its finalizers are gone.\<close>

definition terminating :: "kobj option \<Rightarrow> bool" where
  "terminating x \<longleftrightarrow> (case x of None \<Rightarrow> False | Some s \<Rightarrow> \<not> is_zero_time (DeletionTimestamp s))"

definition put :: "cluster \<Rightarrow> gvk \<Rightarrow> ObjectKey \<Rightarrow> kobj option \<Rightarrow> cluster" where
  "put c g k x = c(g := (c g)(k := x))"

lemma put_simps [simp]: "put c g k x g' k' = (if g' = g \<and> k' = k then x else c g' k')"
  by (simp add: put_def)

text \<open>What a read gives of the stored object \<open>s\<close> of kind \<open>g\<close>: a value of some Go type of that kind with the same metadata.\<close>

definition read_as :: "('a) lib_scheme \<Rightarrow> gvk \<Rightarrow> kobj \<Rightarrow> kobj \<Rightarrow> bool" where
  "read_as L g s obj \<longleftrightarrow> key_of obj = key_of s \<and> Labels obj = Labels s \<and> Annotations obj = Annotations s \<and>
     DeletionTimestamp obj = DeletionTimestamp s \<and> gvkFor L obj = Inr g"

text \<open>The kind of an object is a matter of its Go type and its type meta.\<close>

definition kinds_law :: "('a) lib_scheme \<Rightarrow> bool" where
  "kinds_law L \<longleftrightarrow>
     (\<forall>x y. GoType x = GoType y \<and> TypeMeta x = TypeMeta y \<longrightarrow> gvkFor L x = gvkFor L y) \<and>
     (\<forall>x g. gvkFor L x = Inr g \<longrightarrow> gvkFor L (x\<lparr>TypeMeta := apiVersionAndKind L g\<rparr>) = Inr g) \<and>
     (\<forall>x g ns n rv. gvkFor L x = Inr g \<longrightarrow> gvkFor L (unstructured_ref L g ns n rv) = Inr g)"

definition get_law :: "('w, 'a) kube_scheme \<Rightarrow> ('w \<Rightarrow> cluster) \<Rightarrow> bool" where
  "get_law K cl \<longleftrightarrow> (\<forall>w g t k. case clGet K w g t k of (r, w') \<Rightarrow> cl w' = cl w \<and>
     (case r of Inr obj \<Rightarrow> (\<exists>s. cl w g k = Some s \<and> read_as K g s obj)
      | Inl e \<Rightarrow> IsNotFound (Some e) \<longrightarrow> cl w g k = None))"

text \<open>The objects of a list: those of the namespace (of all, when it is empty) that the selector matches.\<close>

definition in_list :: "cluster \<Rightarrow> gvk \<Rightarrow> string \<Rightarrow> label_selector \<Rightarrow> ObjectKey \<Rightarrow> bool" where
  "in_list c g ns sel k \<longleftrightarrow> (case c g k of None \<Rightarrow> False
     | Some s \<Rightarrow> (ns = [] \<or> KeyNamespace k = ns) \<and> selMatches sel (Labels s))"

definition list_law :: "('w, 'a) kube_scheme \<Rightarrow> ('w \<Rightarrow> cluster) \<Rightarrow> bool" where
  "list_law K cl \<longleftrightarrow> (\<forall>w g ns sel. case clList K w (g\<lparr>Kind := Kind g @ ''List''\<rparr>) ns sel of (r, w') \<Rightarrow> cl w' = cl w \<and>
     (case r of Inl e \<Rightarrow> True
      | Inr items \<Rightarrow> key_of ` set items = {k. in_list (cl w) g ns sel k} \<and>
          (\<forall>obj \<in> set items. \<exists>s. cl w g (key_of obj) = Some s \<and> read_as K g s obj)))"

text \<open>A create stores an object under the key of the one it is given, if there is none, and returns it.\<close>

definition create_law :: "('w, 'a) kube_scheme \<Rightarrow> ('w \<Rightarrow> cluster) \<Rightarrow> bool" where
  "create_law K cl \<longleftrightarrow> (\<forall>w obj g. gvkFor K obj = Inr g \<and> Name obj \<noteq> [] \<longrightarrow>
     (case clCreate K w obj of (err, obj', w') \<Rightarrow>
        key_of obj' = key_of obj \<and> gvkFor K obj' = Inr g \<and>
        (err = None \<longrightarrow> cl w g (key_of obj) = None \<and>
           (\<exists>s. \<not> terminating (Some s) \<and> cl w' = put (cl w) g (key_of obj) (Some s))) \<and>
        (IsAlreadyExists err \<longrightarrow> cl w' = cl w \<and> cl w g (key_of obj) \<noteq> None)))"

text \<open>A patch, whatever comes of it, concerns its object alone, creates none, and does not remove or start to remove it (an object that is
  being deleted may go with its last finalizer).\<close>

definition patch_law :: "('w, 'a) kube_scheme \<Rightarrow> ('w \<Rightarrow> cluster) \<Rightarrow> bool" where
  "patch_law K cl \<longleftrightarrow> (\<forall>w obj g pt patch. gvkFor K obj = Inr g \<longrightarrow>
     (case clPatch K w obj pt patch of (err, obj', w') \<Rightarrow>
        key_of obj' = key_of obj \<and> gvkFor K obj' = Inr g \<and>
        (\<exists>x. cl w' = put (cl w) g (key_of obj) x \<and> (cl w g (key_of obj) = None \<longrightarrow> x = None) \<and>
           (cl w g (key_of obj) \<noteq> None \<and> \<not> terminating (cl w g (key_of obj)) \<longrightarrow> x \<noteq> None \<and> \<not> terminating x))))"

definition delete_law :: "('w, 'a) kube_scheme \<Rightarrow> ('w \<Rightarrow> cluster) \<Rightarrow> bool" where
  "delete_law K cl \<longleftrightarrow> (\<forall>w g k. case clDelete K w g k of (err, w') \<Rightarrow>
     err = None \<longrightarrow> (\<exists>x. cl w' = put (cl w) g k x \<and> (x = None \<or> terminating x)))"

definition keys_law :: "('w \<Rightarrow> cluster) \<Rightarrow> bool" where
  "keys_law cl \<longleftrightarrow> (\<forall>w g k s. cl w g k = Some s \<longrightarrow> key_of s = k \<and> KeyName k \<noteq> [])"

definition api_server :: "('w, 'a) kube_scheme \<Rightarrow> ('w \<Rightarrow> cluster) \<Rightarrow> bool" where
  "api_server K cl \<longleftrightarrow> kinds_law K \<and> keys_law cl \<and> get_law K cl \<and> list_law K cl \<and> create_law K cl \<and> patch_law K cl \<and> delete_law K cl"

lemma keys_lawD: "api_server K cl \<Longrightarrow> cl w g k = Some s \<Longrightarrow> key_of s = k \<and> KeyName k \<noteq> []"
  by (auto simp: api_server_def keys_law_def)

lemma get_law_cases:
  assumes "api_server K cl" and "clGet K w g t k = (r, w')"
  shows "cl w' = cl w \<and> (case r of Inr obj \<Rightarrow> (\<exists>s. cl w g k = Some s \<and> read_as K g s obj)
      | Inl e \<Rightarrow> IsNotFound (Some e) \<longrightarrow> cl w g k = None)"
proof -
  have "get_law K cl" using assms(1) by (simp add: api_server_def)
  from this [unfolded get_law_def, THEN spec, of w, THEN spec, of g, THEN spec, of t, THEN spec, of k] assms(2)
  show ?thesis by simp
qed

lemma create_lawD:
  assumes "api_server K cl" and "clCreate K w obj = (err, obj', w')" and "gvkFor K obj = Inr g" and "Name obj \<noteq> []"
  shows "key_of obj' = key_of obj" and "gvkFor K obj' = Inr g"
    and "err = None \<Longrightarrow> cl w g (key_of obj) = None \<and>
      (\<exists>s. \<not> terminating (Some s) \<and> cl w' = put (cl w) g (key_of obj) (Some s))"
    and "IsAlreadyExists err \<Longrightarrow> cl w' = cl w \<and> cl w g (key_of obj) \<noteq> None"
  using assms unfolding api_server_def create_law_def by (auto dest!: spec [of _ w] spec [of _ obj] spec [of _ g])

lemma patch_lawD:
  assumes "api_server K cl" and "clPatch K w obj pt patch = (err, obj', w')" and "gvkFor K obj = Inr g"
  shows "key_of obj' = key_of obj" and "gvkFor K obj' = Inr g"
    and "\<exists>x. cl w' = put (cl w) g (key_of obj) x \<and> (cl w g (key_of obj) = None \<longrightarrow> x = None) \<and>
      (cl w g (key_of obj) \<noteq> None \<and> \<not> terminating (cl w g (key_of obj)) \<longrightarrow> x \<noteq> None \<and> \<not> terminating x)"
  using assms unfolding api_server_def patch_law_def
  by (auto dest!: spec [of _ w] spec [of _ obj] spec [of _ g] spec [of _ pt] spec [of _ patch])

lemma delete_lawD:
  assumes "api_server K cl" and "clDelete K w g k = (None, w')"
  shows "\<exists>x. cl w' = put (cl w) g k x \<and> (x = None \<or> terminating x)"
  using assms unfolding api_server_def delete_law_def by (auto dest!: spec [of _ w] spec [of _ g] spec [of _ k])

lemma kinds_lawD:
  assumes "api_server K cl"
  shows "GoType x = GoType y \<Longrightarrow> TypeMeta x = TypeMeta y \<Longrightarrow> gvkFor K x = gvkFor K y"
    and "gvkFor K x = Inr g \<Longrightarrow> gvkFor K (x\<lparr>TypeMeta := apiVersionAndKind K g\<rparr>) = Inr g"
    and "gvkFor K x = Inr g \<Longrightarrow> gvkFor K (unstructured_ref K g ns n rv) = Inr g"
  using assms unfolding api_server_def kinds_law_def by blast+

section \<open>One call\<close>

text \<open>The objects of a plan: each under its own key, of the kind, and with a name.\<close>

definition of_kind :: "('a) lib_scheme \<Rightarrow> gvk \<Rightarrow> ObjectByKey \<Rightarrow> bool" where
  "of_kind L g m \<longleftrightarrow> (\<forall>k obj. map_of m k = Some obj \<longrightarrow> key_of obj = k \<and> gvkFor L obj = Inr g \<and> KeyName k \<noteq> [])"

text \<open>Every object of the set has a name: none is left for the server to generate.\<close>

definition all_named :: "ObjectSet \<Rightarrow> bool" where
  "all_named S \<longleftrightarrow> (\<forall>(g, m) \<in> set (objects S). \<forall>(k, obj) \<in> set m. Name obj \<noteq> [])"

definition plan_ok :: "('a) lib_scheme \<Rightarrow> gvk \<Rightarrow> 'w pstate \<Rightarrow> bool" where
  "plan_ok L g ps \<longleftrightarrow> of_kind L g (existing ps) \<and> of_kind L g (desired ps)"

lemma of_kind_update: "of_kind L g m \<Longrightarrow> key_of obj = k \<Longrightarrow> gvkFor L obj = Inr g \<Longrightarrow> KeyName k \<noteq> [] \<Longrightarrow>
    of_kind L g (AList.update k obj m)"
  by (auto simp: of_kind_def)

lemma of_kindD: "of_kind L g m \<Longrightarrow> map_of m k = Some obj \<Longrightarrow> key_of obj = k \<and> gvkFor L obj = Inr g \<and> KeyName k \<noteq> []"
  by (auto simp: of_kind_def)

lemma mk_key_id [simp]: "mk_key (KeyNamespace k) (KeyName k) = k"
  by (simp add: mk_key_eta)

lemma apply_get_ok:
  assumes "api_server K cl" and "apply_get K g (Some v) (KeyNamespace k) (KeyName k) w = (r, w')"
  shows "cl w' = cl w" and "r = Inr found \<Longrightarrow> \<exists>s. cl w g k = Some s \<and> read_as K g s found"
    and "r = Inr found \<Longrightarrow> key_of found = k \<and> gvkFor K found = Inr g"
    and "r = Inl e \<Longrightarrow> IsNotFound (Some e) \<Longrightarrow> cl w g k = None"
proof -
  have "clGet K w g (GoType v) k = (r, w')" using assms(2) by (simp add: apply_get_def)
  note law = get_law_cases [OF assms(1) this]
  show "cl w' = cl w" and "r = Inr found \<Longrightarrow> \<exists>s. cl w g k = Some s \<and> read_as K g s found"
    and "r = Inl e \<Longrightarrow> IsNotFound (Some e) \<Longrightarrow> cl w g k = None"
    using law by auto
  show "r = Inr found \<Longrightarrow> key_of found = k \<and> gvkFor K found = Inr g"
    using law keys_lawD [OF assms(1), of w g k] by (auto simp: read_as_def)
qed

text \<open>One create, update or delete of the key \<open>k\<close> that succeeds, on the cluster.\<close>

definition created :: "gvk \<Rightarrow> ObjectKey \<Rightarrow> cluster \<Rightarrow> cluster \<Rightarrow> bool" where
  "created g k c c' \<longleftrightarrow> c' g k \<noteq> None \<and>
     (if c g k = None then \<exists>x. c' = put c g k x \<and> \<not> terminating x else c' = c)"

definition updated :: "gvk \<Rightarrow> ObjectKey \<Rightarrow> cluster \<Rightarrow> cluster \<Rightarrow> bool" where
  "updated g k c c' \<longleftrightarrow> (\<exists>x. c' = put c g k x \<and> (c g k = None \<longrightarrow> x = None) \<and>
     (c g k \<noteq> None \<and> \<not> terminating (c g k) \<longrightarrow> x \<noteq> None \<and> \<not> terminating x))"

definition deleted :: "gvk \<Rightarrow> ObjectKey \<Rightarrow> cluster \<Rightarrow> cluster \<Rightarrow> bool" where
  "deleted g k c c' \<longleftrightarrow> (\<exists>x. c' = put c g k x \<and> (x = None \<or> terminating x))"

lemma put_same: "put c g k (c g k) = c"
  by (simp add: put_def)

lemma updated_refl: "updated g k c c"
  unfolding updated_def using put_same [symmetric] by blast

lemma take_over_ok:
  assumes "take_over L valid g d k obj found err ps = (None, ps')"
  shows "ast ps' = ast ps \<and> desired ps' = desired ps \<and> toReplace ps' = toReplace ps \<and>
    existing ps' = AList.update k found (existing ps) \<and> set (toUpdate ps') \<subseteq> insert k (set (toUpdate ps))"
  using assms by (auto simp: take_over_def split: if_splits)

lemma createF_answer_ok:
  assumes "createF_answer K a valid g d k wanted obj err ps = (None, ps')"
    and server: "api_server K cl" and "plan_ok K g ps" and "KeyName k \<noteq> []"
  shows "cl (world (ast ps')) = cl (world (ast ps)) \<and> plan_ok K g ps' \<and> desired ps' = desired ps \<and>
    toReplace ps' = toReplace ps \<and>
    (err = None \<and> toUpdate ps' = toUpdate ps \<or> IsAlreadyExists err \<and> set (toUpdate ps') \<subseteq> insert k (set (toUpdate ps)))"
proof (cases err)
  case None
  with assms show ?thesis by (simp add: createF_answer_def)
next
  case (Some e)
  obtain r w where g: "apply_get K g (Some wanted) (KeyNamespace k) (KeyName k) (world (ast ps)) = (r, w)" by fastforce
  from assms(1) Some g have ae: "IsAlreadyExists (Some e)"
    by (auto simp: createF_answer_def Let_def split: if_splits)
  obtain found where r: "r = Inr found" and t: "take_over K valid g d k obj found e (set_world w ps) = (None, ps')"
    using assms(1) Some g ae by (auto simp: createF_answer_def Let_def split: sum.splits)
  have "cl w = cl (world (ast ps))" "key_of found = k \<and> gvkFor K found = Inr g"
    using apply_get_ok [OF server g] r by auto
  then show ?thesis
    using take_over_ok [OF t] assms(3,4) Some ae by (simp add: plan_ok_def of_kind_update)
qed

lemma prepare_kind:
  assumes "api_server K cl" and "prepareObjectForCreate K g obj clone = Inr obj'" and "gvkFor K obj = Inr g"
  shows "key_of obj' = key_of obj \<and> gvkFor K obj' = Inr g"
proof -
  obtain x where x: "obj' = x\<lparr>TypeMeta := apiVersionAndKind K g\<rparr>" "GoType x = GoType obj" "TypeMeta x = TypeMeta obj"
    "key_of x = key_of obj"
    using assms(2) by (auto simp: prepareObjectForCreate_def Let_def key_of_def split: sum.splits if_splits)
  then have "gvkFor K x = Inr g" using kinds_lawD(1) [OF assms(1), of x obj] assms(3) by simp
  with x kinds_lawD(2) [OF assms(1)] show ?thesis by (simp add: key_of_def)
qed

lemma createF_ok:
  assumes "createF K a valid g d k ps = (None, ps')" and server: "api_server K cl" and plan: "plan_ok K g ps"
  shows "created g k (cl (world (ast ps))) (cl (world (ast ps'))) \<and> plan_ok K g ps' \<and>
    toReplace ps' = toReplace ps \<and> dom (map_of (desired ps')) = dom (map_of (desired ps)) \<and>
    set (toUpdate ps') \<subseteq> insert k (set (toUpdate ps))"
proof -
  obtain wanted obj where w: "map_of (desired ps) k = Some wanted"
    and p: "prepareObjectForCreate K g wanted (\<not> ensure a) = Inr obj"
    using assms(1) by (auto simp: createF_def split: option.splits sum.splits)
  obtain err obj' w' where c: "clCreate K (world (ast ps)) obj = (err, obj', w')" by (metis prod_cases3)
  have kw: "key_of wanted = k" "gvkFor K wanted = Inr g" "KeyName k \<noteq> []"
    using of_kindD [OF _ w] plan by (auto simp: plan_ok_def)
  then have ko: "key_of obj = k" "gvkFor K obj = Inr g" using prepare_kind [OF server p] by auto
  then have "Name obj \<noteq> []" using kw(3) by (metis key_of_simps(1))
  note law = create_lawD [OF server c ko(2) this]
  let ?ps = "if ensure a then set_world w' ps\<lparr>desired := AList.update k obj' (desired ps)\<rparr> else set_world w' ps"
  have ans: "createF_answer K a valid g d k (if ensure a then obj' else wanted) obj' err ?ps = (None, ps')"
    using assms(1) w p c by (simp add: createF_def split: if_splits)
  have "plan_ok K g ?ps" using plan law(1,2) ko kw(3) by (simp add: plan_ok_def of_kind_update)
  note A = createF_answer_ok [OF ans server this kw(3)]
  have "created g k (cl (world (ast ps))) (cl w')"
    using A law(3,4) ko(1) by (auto simp: created_def)
  with A w show ?thesis by (auto split: if_splits)
qed

lemma applyPatch_ok:
  assumes "applyPatch K a g old new st = (b, e, new', st')" and server: "api_server K cl"
    and "key_of old = k" and "key_of new = k" and "gvkFor K new = Inr g"
  shows "updated g k (cl (world st)) (cl (world st')) \<and> key_of new' = k \<and> gvkFor K new' = Inr g"
proof -
  have sent: "updated g k (cl (world st)) (cl (world st'')) \<and> key_of n = k \<and> gvkFor K n = Inr g"
    if "send_patch K a g old new pt patch st0 = (b, e, n, st'')" and "world st0 = world st" for pt patch st0 st'' n
  proof -
    let ?r = "if ensure a then new\<lparr>ResourceVersion := ResourceVersion old\<rparr>
      else unstructured_ref K g (Namespace old) (Name old) (ResourceVersion old)"
    have kr: "key_of ?r = k" "gvkFor K ?r = Inr g"
      using assms(3-5) kinds_lawD(3) [OF server assms(5)] kinds_lawD(1) [OF server, of "new\<lparr>ResourceVersion := ResourceVersion old\<rparr>" new]
      by (auto simp: unstructured_ref_def key_of_def)
    obtain err n' w' where c: "clPatch K (world st) ?r pt patch = (err, n', w')" by (metis prod_cases3)
    have "n = (if ensure a then n' else new)" "world st'' = w'"
      using that c by (auto simp: send_patch_def split: if_splits)
    with patch_lawD [OF server c kr(2)] kr(1) assms(4,5) show ?thesis
      by (auto simp: updated_def)
  qed
  show ?thesis
    using assms(1,4,5) sent
    by (auto simp: applyPatch_def Let_def updated_refl split: sum.splits prod.splits if_splits bool.splits)
qed

lemma compareObjects_ok:
  assumes "compareObjects K a g old new st = (e, new', st')" and server: "api_server K cl"
    and "key_of old = k" and "key_of new = k" and "gvkFor K new = Inr g" and "gvkFor K old = Inr g"
  shows "updated g k (cl (world st)) (cl (world st')) \<and> key_of new' = k \<and> gvkFor K new' = Inr g"
proof -
  obtain b e' n st1 where p: "applyPatch K a g old new st = (b, e', n, st1)" by (metis prod_cases4)
  from applyPatch_ok [OF p server assms(3-5)] assms(1,3,6) p show ?thesis
    by (auto simp: compareObjects_def split: option.splits bool.splits if_splits)
qed

lemma updateF_ok:
  assumes "updateF K a g d k ps = (None, ps')" and server: "api_server K cl" and plan: "plan_ok K g ps"
  shows "updated g k (cl (world (ast ps))) (cl (world (ast ps'))) \<and> plan_ok K g ps' \<and>
    toUpdate ps' = toUpdate ps \<and> dom (map_of (desired ps')) = dom (map_of (desired ps)) \<and>
    set (toReplace ps') \<subseteq> insert k (set (toReplace ps)) \<inter> (set (toReplace ps) \<union> dom (map_of (desired ps)))"
proof -
  obtain old new where o: "map_of (existing ps) k = Some old" "map_of (desired ps) k = Some new"
    using assms(1) by (auto simp: updateF_def split: option.splits)
  obtain err new' st' where c: "compareObjects K a g old new (ast ps) = (err, new', st')" by (metis prod_cases3)
  have k: "key_of old = k" "gvkFor K old = Inr g" "key_of new = k" "gvkFor K new = Inr g" "KeyName k \<noteq> []"
    using of_kindD [OF _ o(1)] of_kindD [OF _ o(2)] plan by (auto simp: plan_ok_def)
  note C = compareObjects_ok [OF c server k(1,3,4,2)]
  show ?thesis
    using assms(1) o c C plan k(5)
    by (auto simp: updateF_def Let_def plan_ok_def of_kind_update split: option.splits if_splits)
qed

lemma deleteF_ok:
  assumes "deleteF K g d k ps = (None, ps')" and server: "api_server K cl"
  shows "deleted g k (cl (world (ast ps))) (cl (world (ast ps'))) \<and> existing ps' = existing ps \<and>
    desired ps' = desired ps \<and> toReplace ps' = toReplace ps \<and> toUpdate ps' = toUpdate ps"
  using assms(1) delete_lawD [OF server, of "world (ast ps)" g k]
  by (auto simp: deleteF_def apply_delete_def deleted_def split: prod.splits option.splits)

end
