(* ===== verification/Table_Server.thy ===== *)
theory Table_Server
  imports Apply_Server
begin

text \<open>
  A server that keeps its objects in a list and obeys the laws, and the apply of one object for a sub-context on it, for
  the examples that show the hypotheses of the properties can hold.
\<close>

section \<open>A server\<close>

text \<open>A library in which an \<open>Unstructured\<close> has the kind of its type meta and every other value that of its Go type, and a
  server that keeps its objects in a list.\<close>

definition table_gvk :: "kobj \<Rightarrow> gvk" where
  "table_gvk x = \<lparr>Group = [], Version = ''v1'',
     Kind = (if GoType x = unstructuredType then snd (TypeMeta x) else GoType x)\<rparr>"

definition table_lib :: lib where
  "table_lib = example_lib\<lparr>gvkFor := \<lambda>x. Inr (table_gvk x)\<rparr>"

definition table_cluster :: "kobj list \<Rightarrow> cluster" where
  "table_cluster w g k = find (\<lambda>x. key_of x = k \<and> table_gvk x = g \<and> KeyName k \<noteq> []) w"

definition table_kube :: "kobj list kube" where
  "table_kube = lib.extend table_lib (kube.fields
     (\<lambda>w g t k. (case table_cluster w g k of None \<Rightarrow> Inl (ApiErr NotFound ''not found'') | Some x \<Rightarrow> Inr x, w))
     (\<lambda>w g ns sel. let h = g\<lparr>Kind := take (length (Kind g) - 4) (Kind g)\<rparr> in
        (Inr (filter (\<lambda>x. table_cluster w h (key_of x) = Some x \<and>
            (ns = [] \<or> Namespace x = ns) \<and> selMatches sel (Labels x)) w), w))
     (\<lambda>w x. if table_cluster w (table_gvk x) (key_of x) = None then (None, x, w @ [x\<lparr>DeletionTimestamp := None\<rparr>])
        else (Some (ApiErr AlreadyExists ''exists''), x, w))
     (\<lambda>w x pt patch. (None, x, w))
     (\<lambda>w g k. (None, filter (\<lambda>x. \<not> (key_of x = k \<and> table_gvk x = g)) w)))"

lemma table_kube_simps [simp]:
  "clGet table_kube w g t k = (case table_cluster w g k of None \<Rightarrow> Inl (ApiErr NotFound ''not found'') | Some x \<Rightarrow> Inr x, w)"
  "clList table_kube w g ns sel = (Inr (filter (\<lambda>x.
     table_cluster w (g\<lparr>Kind := take (length (Kind g) - 4) (Kind g)\<rparr>) (key_of x) = Some x \<and>
     (ns = [] \<or> Namespace x = ns) \<and> selMatches sel (Labels x)) w), w)"
  "clCreate table_kube w x = (if table_cluster w (table_gvk x) (key_of x) = None
     then (None, x, w @ [x\<lparr>DeletionTimestamp := None\<rparr>]) else (Some (ApiErr AlreadyExists ''exists''), x, w))"
  "clPatch table_kube w x pt patch = (None, x, w)"
  "clDelete table_kube w g k = (None, filter (\<lambda>x. \<not> (key_of x = k \<and> table_gvk x = g)) w)"
  "gvkFor table_kube x = Inr (table_gvk x)" "apiVersionAndKind table_kube g = (Version g, Kind g)"
  "gvkString table_kube = gvkString example_lib" "restScope table_kube = restScope example_lib"
  "schemeNew table_kube = schemeNew example_lib" "sha1Hex table_kube = sha1Hex example_lib"
  "newRequirement table_kube = newRequirement example_lib" "marshalObj table_kube = marshalObj example_lib"
  "jsonMergePatch table_kube = jsonMergePatch example_lib" "clientGoNew table_kube = clientGoNew example_lib"
  "decodeNumbers table_kube = decodeNumbers example_lib" "marshalMap table_kube = marshalMap example_lib"
  by (simp_all add: table_kube_def table_lib_def Let_def lib.defs kube.defs example_lib_def)

lemma table_cluster_Some: "table_cluster w g k = Some x \<Longrightarrow> x \<in> set w \<and> key_of x = k \<and> table_gvk x = g \<and> KeyName k \<noteq> []"
  by (auto simp: table_cluster_def find_Some_iff)

lemma find_snoc: "find P (xs @ [x]) = (case find P xs of None \<Rightarrow> if P x then Some x else None | Some y \<Rightarrow> Some y)"
  by (induction xs) auto

lemma find_filter_not: "find P (filter (\<lambda>x. \<not> Q x) xs) = find (\<lambda>x. P x \<and> \<not> Q x) xs"
  by (induction xs) auto

lemma table_list: "clList table_kube w (g\<lparr>Kind := Kind g @ ''List''\<rparr>) ns sel =
    (Inr (filter (\<lambda>x. table_cluster w g (key_of x) = Some x \<and> (ns = [] \<or> Namespace x = ns) \<and> selMatches sel (Labels x)) w), w)"
  by simp

lemma table_list_law: "list_law table_kube table_cluster"
proof -
  have "key_of ` set (filter (\<lambda>x. table_cluster w g (key_of x) = Some x \<and> (ns = [] \<or> Namespace x = ns) \<and>
      selMatches sel (Labels x)) w) = {k. in_list (table_cluster w) g ns sel k}" for w g ns sel
  proof (intro set_eqI iffI)
    fix k assume "k \<in> {k. in_list (table_cluster w) g ns sel k}"
    then obtain x where x: "table_cluster w g k = Some x" "ns = [] \<or> KeyNamespace k = ns" "selMatches sel (Labels x)"
      by (auto simp: in_list_def split: option.splits)
    from table_cluster_Some [OF x(1)] x show "k \<in> key_of ` set (filter (\<lambda>x. table_cluster w g (key_of x) = Some x \<and>
        (ns = [] \<or> Namespace x = ns) \<and> selMatches sel (Labels x)) w)" by auto
  qed (auto simp: in_list_def)
  then show ?thesis unfolding list_law_def table_list
    by (auto simp: read_as_def dest: table_cluster_Some)
qed

lemma table_create_law: "create_law table_kube table_cluster"
proof -
  have "table_cluster (w @ [x\<lparr>DeletionTimestamp := None\<rparr>]) =
      put (table_cluster w) (table_gvk x) (key_of x) (Some (x\<lparr>DeletionTimestamp := None\<rparr>))"
    if "Name x \<noteq> []" "table_cluster w (table_gvk x) (key_of x) = None" for w x
  proof (intro ext)
    fix g k
    have "table_gvk (x\<lparr>DeletionTimestamp := None\<rparr>) = table_gvk x" "key_of (x\<lparr>DeletionTimestamp := None\<rparr>) = key_of x"
      by (simp_all add: table_gvk_def key_of_def)
    with that show "table_cluster (w @ [x\<lparr>DeletionTimestamp := None\<rparr>]) g k =
        put (table_cluster w) (table_gvk x) (key_of x) (Some (x\<lparr>DeletionTimestamp := None\<rparr>)) g k"
      by (auto simp: table_cluster_def find_snoc split: option.split)
  qed
  then show ?thesis unfolding create_law_def
    by (auto simp: terminating_def is_zero_time_def intro!: exI [of _ "_\<lparr>DeletionTimestamp := None\<rparr>"])
qed

lemma table_delete: "table_cluster (filter (\<lambda>x. \<not> (key_of x = k \<and> table_gvk x = g)) w) = put (table_cluster w) g k None"
proof (intro ext)
  fix g' k'
  show "table_cluster (filter (\<lambda>x. \<not> (key_of x = k \<and> table_gvk x = g)) w) g' k' = put (table_cluster w) g k None g' k'"
    unfolding table_cluster_def find_filter_not put_simps by (auto simp: find_None_iff intro!: arg_cong2 [where f = find])
qed

lemma table_api_server: "api_server table_kube table_cluster"
proof -
  have "kinds_law table_kube" by (auto simp: kinds_law_def table_gvk_def unstructured_ref_def)
  moreover have "keys_law table_cluster" by (auto simp: keys_law_def dest: table_cluster_Some)
  moreover have "get_law table_kube table_cluster"
    by (auto simp: get_law_def read_as_def dest: table_cluster_Some split: option.splits)
  moreover have "patch_law table_kube table_cluster" by (auto simp: patch_law_def intro!: exI put_same [symmetric])
  moreover have "delete_law table_kube table_cluster" by (simp add: delete_law_def table_delete [simplified]) blast
  ultimately show ?thesis using table_list_law table_create_law by (simp add: api_server_def)
qed

definition cm_named :: "string \<Rightarrow> kobj" where
  "cm_named n = empty_obj\<lparr>GoType := ''ConfigMap'', Namespace := ''ns'', Name := n\<rparr>"

text \<open>The same, stamped for the sub-context \<open>s\<close>.\<close>

definition cm_of_s :: "string \<Rightarrow> kobj" where
  "cm_of_s n = (cm_named n)\<lparr>Labels := [LabelHash \<mapsto> ''s''], Annotations := [LabelSubContext \<mapsto> ''s'']\<rparr>"

abbreviation cm_gvk :: gvk where
  "cm_gvk \<equiv> \<lparr>Group = [], Version = ''v1'', Kind = ''ConfigMap''\<rparr>"

definition single :: "kobj \<Rightarrow> ObjectSet" where
  "single x = fst (NewObjectSet (gvkFor table_kube) [Some x])"

definition sub_s :: applier where
  "sub_s = WithOwnerSubContext ''s'' example_applier"

lemma cm_simps [simp]:
  "GoType (cm_named n) = ''ConfigMap''" "Namespace (cm_named n) = ''ns''" "Name (cm_named n) = n" "key_of (cm_named n) = mk_key ''ns'' n"
  "Labels (cm_named n) = Map.empty" "Annotations (cm_named n) = Map.empty" "DeletionTimestamp (cm_named n) = None"
  "table_gvk (cm_named n) = cm_gvk" "GoType (cm_of_s n) = ''ConfigMap''" "Namespace (cm_of_s n) = ''ns''" "Name (cm_of_s n) = n"
  "key_of (cm_of_s n) = mk_key ''ns'' n" "table_gvk (cm_of_s n) = cm_gvk" "Labels (cm_of_s n) = [LabelHash \<mapsto> ''s'']"
  "Annotations (cm_of_s n) = [LabelSubContext \<mapsto> ''s'']" "DeletionTimestamp (cm_of_s n) = None"
  by (simp_all add: cm_named_def cm_of_s_def empty_obj_def table_gvk_def key_of_def)

lemma sub_s_simps [simp]:
  "ownerSubContext sub_s = ''s''" "owner sub_s = None" "ensure sub_s = False" "noPrune sub_s = False" "pruneTypes sub_s = []"
  "defaultNamespace sub_s = ''default''" "listerNamespace sub_s = []" "reconcilers sub_s = (\<lambda>_. None)" "knownGVK sub_s = []"
  by (simp_all add: sub_s_def WithOwnerSubContext_def knownGVK_def)

lemma single_simps:
  "table_gvk x = cm_gvk \<Longrightarrow> objects (single x) = [(cm_gvk, [(key_of x, x)])]"
  "table_gvk x = cm_gvk \<Longrightarrow> gvkOrder (single x) = [cm_gvk]"
  "table_gvk x = cm_gvk \<Longrightarrow> objectsByGK (single x) = [(GroupKind cm_gvk, [(key_of x, x)])]"
  "table_gvk x = cm_gvk \<Longrightarrow> NewObjectSet (gvkFor table_kube) [Some x] = (single x, None)"
  by (simp_all add: single_def NewObjectSet_def ObjectSet_add_def ObjectByGVK_Add_def ObjectByGK_Add_def empty_ObjectSet_def get_objs_def Let_def)

lemma single_labels: "GetLabelsAndAnnotations table_kube ''s'' None = Inr ([(LabelHash, ''s'')], [(LabelSubContext, ''s'')])"
  by (simp add: GetLabels_subcontext objectSetHash_def hashOrder_def example_lib_def get_str_def)

lemma single_inject:
  "injectLabelsAndAnnotations table_kube (single (cm_named n)) [(LabelHash, ''s'')] [(LabelSubContext, ''s'')] = Inr (single (cm_of_s n))"
proof -
  have "inject_one [(LabelHash, ''s'')] [(LabelSubContext, ''s'')] (cm_named n) = cm_of_s n"
    by (auto simp: inject_one_def setLabels_def setAnnotations_def cm_of_s_def cm_named_def empty_obj_def)
  then show ?thesis
    using single_simps(4) [of "cm_of_s n"]
    by (simp add: injectLabelsAndAnnotations_def single_simps NewObjectSet_def)
qed

lemma single_selector: "GetSelector table_kube [(LabelHash, ''s'')] =
    Inr (Some \<lparr>selMatches = \<lambda>m. m LabelHash = Some ''s'', selString = LabelHash @ ''='' @ ''s''\<rparr>)"
  by (simp add: GetSelector_def example_lib_def get_str_def)

lemma single_desired: "desired_objs table_kube sub_s cm_gvk (single (cm_of_s n)) = Inr [(mk_key ''ns'' n, cm_of_s n)]"
  by (simp add: desired_objs_def single_simps get_objs_def IsNamespaced_def adjustNamespace_def adjust_one_def example_lib_def)

lemma single_list:
  "apply_list table_kube sub_s cm_gvk (Some \<lparr>selMatches = \<lambda>m. m LabelHash = Some ''s'', selString = sel\<rparr>) objs [cm_of_s n] =
     (Inr [(mk_key ''ns'' n, cm_of_s n)], [cm_of_s n])" if "n \<noteq> []"
  using that
  by (simp add: apply_list_def listBySelector_def Let_def table_cluster_def apply_newObj_def example_lib_def)

lemma single_may_prune: "may_prune table_kube (cm_of_s n)"
  by (simp add: may_prune_def should_def is_zero_time_def get_str_def objectSetHash_def hashOrder_def example_lib_def label_defs)

lemma single_compare: "n \<noteq> m \<Longrightarrow> compareSets table_kube [(mk_key ''ns'' m, cm_of_s m)] [(mk_key ''ns'' n, cm_of_s n)] =
    ([mk_key ''ns'' n], [mk_key ''ns'' m], [])"
  by (simp add: compareSets_def single_may_prune should_def label_defs get_str_def sortObjectKeys_def sort_by_def)

lemma single_filter: "n \<noteq> m \<Longrightarrow> filterCrossVersion sub_s (single (cm_of_s n)) cm_gvk [mk_key ''ns'' m] = [mk_key ''ns'' m]"
  by (simp add: filterCrossVersion_def ObjectSet_Contains_def single_simps get_objs_def)

lemma single_prepare: "\<exists>x. prepareObjectForCreate table_kube cm_gvk (cm_of_s n) True = Inr x \<and> key_of x = mk_key ''ns'' n \<and> table_gvk x = cm_gvk"
proof -
  obtain x where x: "prepareObjectForCreate table_kube cm_gvk (cm_of_s n) True = Inr x"
    by (simp add: prepareObjectForCreate_def serializeApplied_def ToMapInterface_def example_lib_def)
  with prepare_kind [OF table_api_server x] show ?thesis by simp
qed

lemma single_apply:
  "\<exists>st'. apply_set table_kube sub_s (\<lambda>_. False) (single (cm_named ''new'')) \<lparr>world = [cm_of_s ''old''], patchCache = []\<rparr> = (None, st')"
proof -
  obtain x where x: "prepareObjectForCreate table_kube cm_gvk (cm_of_s ''new'') True = Inr x" "key_of x = mk_key ''ns'' ''new''"
    "table_gvk x = cm_gvk" using single_prepare by blast
  then have "table_cluster [cm_of_s ''old''] (table_gvk x) (key_of x) = None" by (simp add: table_cluster_def)
  with x show ?thesis
    by (simp add: apply_set_def single_labels single_inject single_selector single_simps ObjectSet_GVKOrder_def process_def
      single_desired single_list single_compare single_filter process_loops_def createF_def createF_answer_def deleteF_def apply_delete_def
      NewErrors_def sort_by_def)
qed

lemma single_ok: "set_inv (single (cm_named n))" "all_named (single (cm_named n)) \<longleftrightarrow> n \<noteq> []"
  by (simp_all add: all_named_def single_simps) (simp add: single_def NewObjectSet_inv)

end
