(* ===== verification/Apply_Converge.thy ===== *)
theory Apply_Converge
  imports Table_Server
begin

text \<open>
  The composition of the applier's parts: what one apply makes of a cluster. An apply that reports no error leaves every
  wanted object in place, has removed what may be pruned, and has touched nothing else.
\<close>

section \<open>The loops\<close>

text \<open>What a loop of creates, updates or deletes over the keys \<open>ks\<close> does to the cluster.\<close>

definition grown :: "gvk \<Rightarrow> ObjectKey list \<Rightarrow> cluster \<Rightarrow> cluster \<Rightarrow> bool" where
  "grown g ks c c' \<longleftrightarrow> (\<forall>k \<in> set ks. c' g k \<noteq> None) \<and>
     (\<forall>g' k. c' g' k \<noteq> c g' k \<longrightarrow> g' = g \<and> k \<in> set ks \<and> c g' k = None \<and> \<not> terminating (c' g' k))"

definition kept :: "gvk \<Rightarrow> ObjectKey list \<Rightarrow> cluster \<Rightarrow> cluster \<Rightarrow> bool" where
  "kept g ks c c' \<longleftrightarrow> (\<forall>g' k. (c' g' k \<noteq> c g' k \<longrightarrow> g' = g \<and> k \<in> set ks) \<and> (c g' k = None \<longrightarrow> c' g' k = None) \<and>
     (c g' k \<noteq> None \<and> \<not> terminating (c g' k) \<longrightarrow> c' g' k \<noteq> None \<and> \<not> terminating (c' g' k)))"

definition gone :: "gvk \<Rightarrow> ObjectKey list \<Rightarrow> cluster \<Rightarrow> cluster \<Rightarrow> bool" where
  "gone g ks c c' \<longleftrightarrow> (\<forall>k \<in> set ks. c' g k = None \<or> terminating (c' g k)) \<and>
     (\<forall>g' k. c' g' k \<noteq> c g' k \<longrightarrow> g' = g \<and> k \<in> set ks)"

lemma grown_Nil: "grown g [] c c" by (simp add: grown_def)
lemma kept_Nil: "kept g [] c c" by (simp add: kept_def)
lemma gone_Nil: "gone g [] c c" by (simp add: gone_def)

lemma grown_Cons:
  assumes "created g k c c1" and "grown g ks c1 c2"
  shows "grown g (k # ks) c c2"
proof -
  obtain x where x: "x \<noteq> None" "c1 = put c g k x" "c g k \<noteq> None \<longrightarrow> x = c g k" "c g k = None \<longrightarrow> \<not> terminating x"
  proof (cases "c g k = None")
    case True
    with assms(1) obtain x where "c1 = put c g k x" "\<not> terminating x" "c1 g k \<noteq> None" by (auto simp: created_def)
    with True show ?thesis by (intro that [of x]) auto
  next
    case False
    with assms(1) have "c1 = c" by (simp add: created_def)
    with False show ?thesis by (intro that [of "c g k"]) (auto simp: put_same)
  qed
  have grow: "c2 g' k' \<noteq> c1 g' k' \<Longrightarrow> g' = g \<and> k' \<in> set ks \<and> c1 g' k' = None \<and> \<not> terminating (c2 g' k')" for g' k'
    using assms(2) unfolding grown_def by blast
  have at_k: "c2 g k = x" using grow [of g k] x(1,2) by (cases "c2 g k = c1 g k") auto
  show ?thesis
    unfolding grown_def
  proof (intro conjI ballI allI impI)
    fix k' assume "k' \<in> set (k # ks)"
    then show "c2 g k' \<noteq> None" using assms(2) at_k x(1) by (auto simp: grown_def)
  next
    fix g' k' assume ch: "c2 g' k' \<noteq> c g' k'"
    have "g' = g \<and> k' \<in> set (k # ks) \<and> c g' k' = None \<and> \<not> terminating (c2 g' k')"
    proof (cases "g' = g \<and> k' = k")
      case True
      with ch at_k x(3,4) show ?thesis by (cases "c g k = None") auto
    next
      case False
      then have same: "c1 g' k' = c g' k'" using x(2) by auto
      with ch have "c2 g' k' \<noteq> c1 g' k'" by simp
      from grow [OF this] same show ?thesis by auto
    qed
    then show "g' = g" "k' \<in> set (k # ks)" "c g' k' = None" "\<not> terminating (c2 g' k')" by auto
  qed
qed

lemma kept_Cons:
  assumes "updated g k c c1" and "kept g ks c1 c2"
  shows "kept g (k # ks) c c2"
proof -
  have one: "(c1 g' k' \<noteq> c g' k' \<longrightarrow> g' = g \<and> k' = k) \<and> (c g' k' = None \<longrightarrow> c1 g' k' = None) \<and>
      (c g' k' \<noteq> None \<and> \<not> terminating (c g' k') \<longrightarrow> c1 g' k' \<noteq> None \<and> \<not> terminating (c1 g' k'))" for g' k'
    using assms(1) by (auto simp: updated_def split: if_splits)
  have two: "(c2 g' k' \<noteq> c1 g' k' \<longrightarrow> g' = g \<and> k' \<in> set ks) \<and> (c1 g' k' = None \<longrightarrow> c2 g' k' = None) \<and>
      (c1 g' k' \<noteq> None \<and> \<not> terminating (c1 g' k') \<longrightarrow> c2 g' k' \<noteq> None \<and> \<not> terminating (c2 g' k'))" for g' k'
    using assms(2) unfolding kept_def by blast
  show ?thesis
    unfolding kept_def
  proof (intro allI)
    fix g' k'
    from one [of g' k'] two [of g' k']
    show "(c2 g' k' \<noteq> c g' k' \<longrightarrow> g' = g \<and> k' \<in> set (k # ks)) \<and> (c g' k' = None \<longrightarrow> c2 g' k' = None) \<and>
        (c g' k' \<noteq> None \<and> \<not> terminating (c g' k') \<longrightarrow> c2 g' k' \<noteq> None \<and> \<not> terminating (c2 g' k'))"
      by (cases "c2 g' k' = c1 g' k'") auto
  qed
qed

lemma gone_Cons:
  assumes "deleted g k c c1" and "gone g ks c1 c2"
  shows "gone g (k # ks) c c2"
proof -
  have one: "c1 g' k' \<noteq> c g' k' \<longrightarrow> g' = g \<and> k' = k" "c1 g k = None \<or> terminating (c1 g k)" for g' k'
    using assms(1) by (auto simp: deleted_def split: if_splits)
  have two: "c2 g' k' \<noteq> c1 g' k' \<longrightarrow> g' = g \<and> k' \<in> set ks" for g' k'
    using assms(2) unfolding gone_def by blast
  have three: "k' \<in> set ks \<Longrightarrow> c2 g k' = None \<or> terminating (c2 g k')" for k'
    using assms(2) unfolding gone_def by blast
  show ?thesis
    unfolding gone_def
  proof (intro conjI ballI allI impI)
    fix k' assume "k' \<in> set (k # ks)"
    then show "c2 g k' = None \<or> terminating (c2 g k')"
      using three one(2) two [of g k] by (cases "k' \<in> set ks") auto
  next
    fix g' k' assume "c2 g' k' \<noteq> c g' k'"
    then show "g' = g" "k' \<in> set (k # ks)" using one(1) [of g' k'] two [of g' k'] by auto
  qed
qed

abbreviation no_errors :: "err option list \<Rightarrow> bool" where
  "no_errors errs \<equiv> \<forall>e \<in> set errs. e = None"

text \<open>A loop in which every call succeeds keeps an invariant and adds up what the calls do.\<close>

lemma for_keys_adds_up:
  assumes "for_keys f ks ps = (errs, ps')" and "no_errors errs" and "I ps"
    and step: "\<And>k ps ps'. f k ps = (None, ps') \<Longrightarrow> I ps \<Longrightarrow> I ps' \<and> S k (c ps) (c ps')"
    and none: "\<And>x. R [] x x" and more: "\<And>k ks x y z. S k x y \<Longrightarrow> R ks y z \<Longrightarrow> R (k # ks) x z"
  shows "I ps' \<and> R ks (c ps) (c ps')"
  using assms(1-3)
proof (induction ks arbitrary: ps errs)
  case Nil
  then show ?case by (simp add: none)
next
  case (Cons k ks)
  from Cons.prems(1) obtain e ps1 errs1 where f: "f k ps = (e, ps1)" "for_keys f ks ps1 = (errs1, ps')" "errs = e # errs1"
    by (auto split: prod.splits)
  then have "f k ps = (None, ps1)" using Cons.prems(2) by simp
  from step [OF this Cons.prems(3)] have s: "I ps1" "S k (c ps) (c ps1)" by auto
  from Cons.IH [OF f(2) _ s(1)] Cons.prems(2) f(3) have "I ps' \<and> R ks (c ps1) (c ps')" by simp
  with more [OF s(2)] show ?case by blast
qed

abbreviation cluster_of :: "('w \<Rightarrow> cluster) \<Rightarrow> 'w pstate \<Rightarrow> cluster" where
  "cluster_of cl ps \<equiv> cl (world (ast ps))"

lemma create_loop:
  assumes "for_keys (createF K a valid g d) ks ps = (errs, ps')" and "no_errors errs" and "api_server K cl" and "plan_ok K g ps"
  shows "grown g ks (cluster_of cl ps) (cluster_of cl ps') \<and> plan_ok K g ps' \<and> toReplace ps' = toReplace ps \<and>
    dom (map_of (desired ps')) = dom (map_of (desired ps)) \<and> set (toUpdate ps') \<subseteq> set (toUpdate ps) \<union> set ks"
proof -
  have "(plan_ok K g ps' \<and> toReplace ps' = toReplace ps \<and> dom (map_of (desired ps')) = dom (map_of (desired ps))) \<and>
      grown g ks (cluster_of cl ps) (cluster_of cl ps')"
    by (rule for_keys_adds_up [where S = "created g" and R = "grown g" and c = "cluster_of cl", OF assms(1,2)])
      (use assms(4) createF_ok [OF _ assms(3)] grown_Nil grown_Cons in \<open>auto 0 3\<close>)
  moreover have "set (toUpdate ps') \<subseteq> set (toUpdate ps) \<union> set ks"
    using assms(1,2,4)
  proof (induction ks arbitrary: ps errs)
    case (Cons k ks)
    from Cons.prems(1,2) obtain ps1 errs1 where f: "createF K a valid g d k ps = (None, ps1)"
      "for_keys (createF K a valid g d) ks ps1 = (errs1, ps')" "no_errors errs1"
      by (auto split: prod.splits)
    from createF_ok [OF f(1) assms(3) Cons.prems(3)] Cons.IH [OF f(2,3)] show ?case by auto
  qed simp
  ultimately show ?thesis by blast
qed

lemma update_loop:
  assumes "for_keys (updateF K a g d) ks ps = (errs, ps')" and "no_errors errs" and "api_server K cl" and "plan_ok K g ps"
    and "set (toReplace ps) \<subseteq> dom (map_of (desired ps))"
  shows "kept g ks (cluster_of cl ps) (cluster_of cl ps') \<and> plan_ok K g ps' \<and>
    dom (map_of (desired ps')) = dom (map_of (desired ps)) \<and> set (toReplace ps') \<subseteq> dom (map_of (desired ps))"
proof -
  let ?I = "\<lambda>x. plan_ok K g x \<and> dom (map_of (desired x)) = dom (map_of (desired ps)) \<and>
    set (toReplace x) \<subseteq> dom (map_of (desired ps))"
  have step: "?I x' \<and> updated g k (cluster_of cl x) (cluster_of cl x')" if "updateF K a g d k x = (None, x')" "?I x" for k x x'
    using updateF_ok [OF that(1) assms(3)] that(2) by auto
  have "?I ps' \<and> kept g ks (cluster_of cl ps) (cluster_of cl ps')"
    by (rule for_keys_adds_up [where S = "updated g" and R = "kept g" and c = "cluster_of cl" and I = ?I, OF assms(1,2)])
      (use assms(4,5) step kept_Nil kept_Cons in auto)
  then show ?thesis by blast
qed

lemma delete_loop:
  assumes "for_keys (deleteF K g d) ks ps = (errs, ps')" and "no_errors errs" and "api_server K cl"
  shows "gone g ks (cluster_of cl ps) (cluster_of cl ps') \<and> existing ps' = existing ps \<and> desired ps' = desired ps \<and>
    toReplace ps' = toReplace ps \<and> toUpdate ps' = toUpdate ps"
proof -
  have "(existing ps' = existing ps \<and> desired ps' = desired ps \<and> toReplace ps' = toReplace ps \<and> toUpdate ps' = toUpdate ps) \<and>
      gone g ks (cluster_of cl ps) (cluster_of cl ps')"
    by (rule for_keys_adds_up [where S = "deleted g" and R = "gone g" and c = "cluster_of cl", OF assms(1,2)])
      (use deleteF_ok [OF _ assms(3)] gone_Nil gone_Cons in \<open>auto 0 3\<close>)
  then show ?thesis by blast
qed

section \<open>What the cluster has\<close>

text \<open>The objects that \<open>list\<close> finds in the cluster: all that the selector matches or, without one, the wanted ones.\<close>

definition found_key :: "applier \<Rightarrow> gvk \<Rightarrow> label_selector option \<Rightarrow> ObjectByKey \<Rightarrow> cluster \<Rightarrow> ObjectKey \<Rightarrow> bool" where
  "found_key a g sel objs c k \<longleftrightarrow> (case sel of
     Some sel \<Rightarrow> in_list c g (listerNamespace a) sel k
   | None \<Rightarrow> map_of objs k \<noteq> None \<and> c g k \<noteq> None)"

definition reads :: "('a) lib_scheme \<Rightarrow> gvk \<Rightarrow> cluster \<Rightarrow> ObjectByKey \<Rightarrow> bool" where
  "reads L g c ex \<longleftrightarrow> (\<forall>k obj. map_of ex k = Some obj \<longrightarrow> (\<exists>s. c g k = Some s \<and> read_as L g s obj))"

lemma readsD: "reads L g c ex \<Longrightarrow> map_of ex k = Some obj \<Longrightarrow> \<exists>s. c g k = Some s \<and> read_as L g s obj"
  by (simp add: reads_def)

lemma reads_of_kind: "api_server K cl \<Longrightarrow> reads K g (cl w) ex \<Longrightarrow> of_kind K g ex"
  unfolding of_kind_def by (metis keys_lawD read_as_def readsD)

lemma get_each_reads:
  assumes "get_each K g kvs res w = (Inr ex, w')" and server: "api_server K cl" and "reads K g (cl w) res"
  shows "cl w' = cl w \<and> reads K g (cl w) ex \<and>
    dom (map_of ex) = dom (map_of res) \<union> {k \<in> fst ` set kvs. cl w g k \<noteq> None}"
  using assms(1,3)
proof (induction kvs arbitrary: res w)
  case Nil
  then show ?case by simp
next
  case (Cons kv kvs)
  obtain k v where kv: "kv = (k, v)" by fastforce
  obtain r w1 where g: "apply_get K g (Some v) (KeyNamespace k) (KeyName k) w = (r, w1)" by fastforce
  note got = apply_get_ok [OF server g]
  show ?case
  proof (cases r)
    case (Inl e)
    with Cons.prems(1) g kv have e: "IsNotFound (Some e)" and rest: "get_each K g kvs res w1 = (Inr ex, w')"
      by (auto split: if_splits)
    have "cl w g k = None" using got(4) Inl e by simp
    then show ?thesis using Cons.IH [OF rest] Cons.prems(2) got(1) kv by auto
  next
    case (Inr obj)
    with Cons.prems(1) g kv have rest: "get_each K g kvs (AList.update k obj res) w1 = (Inr ex, w')" by simp
    obtain x where x: "cl w g k = Some x" "read_as K g x obj" using got(2) Inr by blast
    have "reads K g (cl w1) (AList.update k obj res)"
      using Cons.prems(2) x got(1) by (simp add: reads_def)
    have d: "dom (map_of (AList.update k obj res)) = insert k (dom (map_of res))" by auto
    have "cl w' = cl w1" and ex: "reads K g (cl w1) ex"
      and dex: "dom (map_of ex) = insert k (dom (map_of res)) \<union> {k \<in> fst ` set kvs. cl w1 g k \<noteq> None}"
      using Cons.IH [OF rest \<open>reads K g (cl w1) (AList.update k obj res)\<close>] unfolding d by blast+
    moreover have "insert k (dom (map_of res)) \<union> {k \<in> fst ` set kvs. cl w g k \<noteq> None} =
        dom (map_of res) \<union> {k \<in> fst ` set (kv # kvs). cl w g k \<noteq> None}"
      using x(1) kv by (simp only: list.set image_insert fst_conv) blast
    ultimately show ?thesis using got(1) by simp
  qed
qed

lemma fold_keyed_Some:
  "map_of (fold (\<lambda>x m. AList.update (f x) x m) xs m) k = Some x \<Longrightarrow> x \<in> set xs \<and> f x = k \<or> map_of m k = Some x"
proof (induction xs arbitrary: m)
  case Nil
  then show ?case by simp
next
  case (Cons y ys)
  from Cons.prems have "map_of (fold (\<lambda>x m. AList.update (f x) x m) ys (AList.update (f y) y m)) k = Some x" by simp
  from Cons.IH [OF this] show ?case by (cases "k = f y") auto
qed

lemma fold_keyed_keys: "fst ` set (fold (\<lambda>x m. AList.update (f x) x m) xs m) = f ` set xs \<union> fst ` set m"
  by (induction xs arbitrary: m) (simp_all add: keys_update)

lemma listBySelector_reads:
  assumes "listBySelector K a g sel w = (Inr ex, w')" and server: "api_server K cl"
  shows "cl w' = cl w \<and> reads K g (cl w) ex \<and> dom (map_of ex) = {k. in_list (cl w) g (listerNamespace a) sel k}"
proof -
  obtain items where l: "clList K w (g\<lparr>Kind := Kind g @ ''List''\<rparr>) (listerNamespace a) sel = (Inr items, w')"
    and ex: "ex = fold (\<lambda>obj objs. AList.update (key_of obj) obj objs) items []"
    using assms(1) by (auto simp: listBySelector_def Let_def split: sum.splits prod.splits)
  have "list_law K cl" using server by (simp add: api_server_def)
  from this [unfolded list_law_def, THEN spec, of w, THEN spec, of g, THEN spec, of "listerNamespace a", THEN spec, of sel] l
  have w: "cl w' = cl w" and keys: "key_of ` set items = {k. in_list (cl w) g (listerNamespace a) sel k}"
    and read: "\<forall>obj \<in> set items. \<exists>s. cl w g (key_of obj) = Some s \<and> read_as K g s obj"
    by auto
  have "reads K g (cl w) ex"
    unfolding reads_def
  proof (intro allI impI)
    fix k obj assume "map_of ex k = Some obj"
    then have "obj \<in> set items \<and> key_of obj = k" using fold_keyed_Some [of key_of items "[]" k obj] by (simp add: ex)
    with read show "\<exists>s. cl w g k = Some s \<and> read_as K g s obj" by blast
  qed
  moreover have "dom (map_of ex) = key_of ` set items"
    using fold_keyed_keys [of key_of items "[]"] by (simp add: dom_map_of_conv_image_fst ex)
  ultimately show ?thesis using w keys by simp
qed

lemma may_prune_read: "read_as L g s obj \<Longrightarrow> may_prune L' obj = may_prune L' s"
  unfolding may_prune_def should_def read_as_def by (elim conjE) (simp only:)

section \<open>The wanted objects\<close>

text \<open>Every object of a set stands under its own kind and key, and has a name.\<close>

definition set_kinds :: "('a) lib_scheme \<Rightarrow> ObjectSet \<Rightarrow> bool" where
  "set_kinds L S \<longleftrightarrow> (\<forall>g. of_kind L g (get_objs (objects S) g))"

lemma gvkFor_metadata:
  assumes "api_server K cl"
  shows "gvkFor K (obj\<lparr>Namespace := ns\<rparr>) = gvkFor K obj" and "gvkFor K (obj\<lparr>OwnerReferences := rs\<rparr>) = gvkFor K obj"
  by (rule kinds_lawD(1) [OF assms]; simp)+

lemma of_kind_delete: "of_kind L g m \<Longrightarrow> of_kind L g (AList.delete k m)"
  by (auto simp: of_kind_def split: if_splits)

lemma move_one_kind:
  assumes "api_server K cl" and "move_one P (\<lambda>k. k\<lparr>KeyNamespace := ns\<rparr>) (\<lambda>v. v\<lparr>Namespace := ns\<rparr>) k v m = Inr m'"
    and "of_kind K g m" and "map_of m k = Some v"
  shows "of_kind K g m'"
proof -
  have "key_of (v\<lparr>Namespace := ns\<rparr>) = k\<lparr>KeyNamespace := ns\<rparr>" "gvkFor K (v\<lparr>Namespace := ns\<rparr>) = Inr g"
    "KeyName (k\<lparr>KeyNamespace := ns\<rparr>) \<noteq> []"
    using of_kindD [OF assms(3,4)] gvkFor_metadata [OF assms(1)] by (auto simp: key_of_def)
  with assms(2,3) show ?thesis
    by (auto simp: move_one_def of_kind_delete of_kind_update split: if_splits)
qed

lemma with_owner_kind:
  assumes "api_server K cl"
  shows "key_of (with_owner L own og v) = key_of v" and "gvkFor K (with_owner L own og v) = gvkFor K v"
  using gvkFor_metadata [OF assms] by (simp_all add: with_owner_def key_of_def)

lemma assign_one_kind:
  assumes "api_server K cl" and "assign_one K own og onsed g k v m = Inr m'" and "of_kind K g m" and "map_of m k = Some v"
  shows "of_kind K g m'"
proof -
  note v = of_kindD [OF assms(3,4)] and kind = with_owner_kind [OF assms(1)] gvkFor_metadata [OF assms(1)]
  obtain nsed where n: "IsNamespaced K g = Inr nsed"
    using assms(2) by (auto simp: assign_one_def split: sum.splits)
  show ?thesis
  proof (cases "onsed \<and> \<not> nsed \<or> nsed \<and> KeyNamespace k \<noteq> [] \<and> KeyNamespace k \<noteq> Namespace own \<and> onsed")
    case True
    with assms(2,3) n show ?thesis by (auto simp: assign_one_def Let_def)
  next
    case False
    let ?v = "v\<lparr>Namespace := Namespace own\<rparr>"
    have del: "AList.delete k (AList.update k x m) = AList.delete k m" for x
      by (induction m) auto
    from False have "\<not> (onsed \<and> \<not> nsed)" "\<not> (nsed \<and> KeyNamespace k \<noteq> [] \<and> KeyNamespace k \<noteq> Namespace own \<and> onsed)" by auto
    note val = assign_one_value [OF n this, of og v m, unfolded del]
    show ?thesis
    proof (cases "nsed \<and> KeyNamespace k = []")
      case True
      with val assms(2) have m': "m' = AList.update (k\<lparr>KeyNamespace := Namespace own\<rparr>) (with_owner K own og ?v) (AList.delete k m)"
        by simp
      have "key_of (with_owner K own og ?v) = k\<lparr>KeyNamespace := Namespace own\<rparr>"
        using v unfolding kind(1) by (auto simp: key_of_def)
      moreover have "gvkFor K (with_owner K own og ?v) = Inr g" using v unfolding kind(2,3) by simp
      ultimately show ?thesis unfolding m' using v by (intro of_kind_update of_kind_delete assms(3)) auto
    next
      case False
      with val assms(2) have m': "m' = AList.update k (with_owner K own og v) m" by auto
      show ?thesis unfolding m' by (intro of_kind_update assms(3)) (use v in \<open>simp_all add: kind(1,2)\<close>)
    qed
  qed
qed

lemma range_map_kind:
  assumes "\<And>k v m m'. body k v m = Inr m' \<Longrightarrow> of_kind L g m \<Longrightarrow> map_of m k = Some v \<Longrightarrow> of_kind L g m'"
    and "range_map body ks m = Inr m'" and "of_kind L g m"
  shows "of_kind L g m'"
  using assms(2,3)
proof (induction ks arbitrary: m)
  case Nil
  then show ?case by simp
next
  case (Cons k ks)
  show ?case
  proof (cases "map_of m k")
    case None
    with Cons show ?thesis by simp
  next
    case (Some v)
    with Cons.prems obtain m1 where "body k v m = Inr m1" "range_map body ks m1 = Inr m'" by (auto split: sum.splits)
    with Cons assms(1) Some show ?thesis by blast
  qed
qed

lemma desired_objs_kind:
  assumes server: "api_server K cl" and "desired_objs K a g S = Inr objs" and "set_kinds K S"
  shows "of_kind K g objs"
proof -
  obtain m where m: "(if owner a \<noteq> None then assignOwnerReference K a g (get_objs (objects S) g)
      else Inr (get_objs (objects S) g)) = Inr m"
    and s: "adjustNamespace a m = Inr objs \<or> clearNamespace m = Inr objs"
    using assms(2) by (auto simp: desired_objs_def Let_def split: sum.splits if_splits)
  let ?s = "get_objs (objects S) g"
  have start: "of_kind K g ?s" using assms(3) by (simp add: set_kinds_def)
  have "m = ?s \<or> (\<exists>own og onsed. range_map (assign_one K own og onsed g) (map fst ?s) ?s = Inr m)"
    using m by (auto simp: assignOwnerReference_def split: if_splits option.splits sum.splits)
  moreover have "of_kind K g m'" if "range_map (assign_one K own og onsed g) ks ?s = Inr m'" for own og onsed ks m'
    by (rule range_map_kind [OF assign_one_kind [OF server] that start])
  ultimately have m_ok: "of_kind K g m" using start by blast
  obtain P ns where run:
    "range_map (move_one P (\<lambda>k. k\<lparr>KeyNamespace := ns\<rparr>) (\<lambda>v. v\<lparr>Namespace := ns\<rparr>)) (map fst m) m = Inr objs"
    using s unfolding adjustNamespace_def clearNamespace_def adjust_one_move clear_one_move by blast
  show ?thesis by (rule range_map_kind [OF move_one_kind [OF server] run m_ok])
qed

section \<open>One kind\<close>

definition prunable ::
  "('a) lib_scheme \<Rightarrow> applier \<Rightarrow> gvk \<Rightarrow> ObjectSet \<Rightarrow> label_selector option \<Rightarrow> ObjectByKey \<Rightarrow> cluster \<Rightarrow> ObjectKey \<Rightarrow> bool" where
  "prunable L a g S sel objs c k \<longleftrightarrow> \<not> noPrune a \<and> found_key a g sel objs c k \<and> map_of objs k = None \<and>
     (case c g k of None \<Rightarrow> False | Some s \<Rightarrow> may_prune L s) \<and> k \<in> set (filterCrossVersion a S g [k])"

lemma apply_list_reads:
  assumes "apply_list K a g sel objs w = (Inr ex, w')" and server: "api_server K cl"
  shows "cl w' = cl w \<and> reads K g (cl w) ex \<and> (\<forall>k. map_of ex k \<noteq> None \<longleftrightarrow> found_key a g sel objs (cl w) k)"
proof (cases sel)
  case None
  with assms(1) have "get_each K g objs [] w = (Inr ex, w')" by (simp add: apply_list_def)
  from get_each_reads [OF this server] have g: "cl w' = cl w" "reads K g (cl w) ex"
    "dom (map_of ex) = {k \<in> fst ` set objs. cl w g k \<noteq> None}" by (simp_all add: reads_def)
  have "map_of ex k \<noteq> None \<longleftrightarrow> k \<in> dom (map_of ex)" for k by blast
  moreover have "map_of objs k \<noteq> None \<longleftrightarrow> k \<in> fst ` set objs" for k by (simp add: map_of_eq_None_iff)
  ultimately show ?thesis using g None by (simp add: found_key_def)
next
  case (Some s)
  with assms(1) have "listBySelector K a g s w = (Inr ex, w')" by (simp add: apply_list_def)
  from listBySelector_reads [OF this server] have g: "cl w' = cl w" "reads K g (cl w) ex"
    "dom (map_of ex) = {k. in_list (cl w) g (listerNamespace a) s k}" by simp_all
  have "map_of ex k \<noteq> None \<longleftrightarrow> k \<in> dom (map_of ex)" for k by blast
  with g Some show ?thesis by (simp add: found_key_def)
qed

text \<open>What one kind of an apply without an error makes of the cluster.\<close>

definition settled ::
  "('a) lib_scheme \<Rightarrow> applier \<Rightarrow> gvk \<Rightarrow> ObjectSet \<Rightarrow> label_selector option \<Rightarrow> ObjectByKey \<Rightarrow> cluster \<Rightarrow> cluster \<Rightarrow> bool" where
  "settled L a g S sel objs c c' \<longleftrightarrow>
     (\<forall>k obj. map_of objs k = Some obj \<and> should obj AnnotationCreate \<longrightarrow> c' g k \<noteq> None \<or> terminating (c g k)) \<and>
     (\<forall>k. prunable L a g S sel objs c k \<longrightarrow> c' g k = None \<or> terminating (c' g k)) \<and>
     (\<forall>k. c' g k \<noteq> c g k \<longrightarrow> map_of objs k \<noteq> None \<or> prunable L a g S sel objs c k)"

text \<open>The five loops one after the other, on the cluster: the creates, the updates, the deletes, and the two halves of the
  replacements \<open>rep\<close>.\<close>

lemma five_loops:
  assumes grow: "grown g cr c c1" and kept: "kept g up c1 c2" and gone: "gone g dels c2 c3"
    and rep: "gone g rep c3 c4" "grown g rep c4 c'"
    and sub: "set cr \<union> set up \<union> set rep \<subseteq> W" "set dels \<inter> W = {}"
  shows five_wanted: "k \<in> W \<Longrightarrow> k \<in> set cr \<or> c g k \<noteq> None \<Longrightarrow> c' g k \<noteq> None \<or> terminating (c g k)"
    and five_deleted: "k \<in> set dels \<Longrightarrow> c' g k = None \<or> terminating (c' g k)"
    and five_frame: "c' g' k \<noteq> c g' k \<Longrightarrow> g' = g \<and> (k \<in> W \<or> k \<in> set dels)"
proof -
  show "c' g k \<noteq> None \<or> terminating (c g k)" if k: "k \<in> W" and has: "k \<in> set cr \<or> c g k \<noteq> None"
  proof (cases "k \<in> set rep")
    case True
    then show ?thesis using rep(2) by (simp add: grown_def)
  next
    case False
    have c1: "c1 g k \<noteq> None" "terminating (c1 g k) \<Longrightarrow> terminating (c g k)"
      using grow has unfolding grown_def by metis+
    have "c2 g k \<noteq> None \<or> terminating (c g k)" using kept c1 by (auto simp: kept_def)
    moreover have "c3 g k = c2 g k" using gone sub(2) k by (auto simp: gone_def)
    moreover have "c4 g k = c3 g k" using rep(1) False by (auto simp: gone_def)
    moreover have "c' g k = c4 g k" using rep(2) False by (auto simp: grown_def)
    ultimately show ?thesis by simp
  qed
  show "c' g k = None \<or> terminating (c' g k)" if k: "k \<in> set dels"
  proof -
    from k have "k \<notin> set rep" using sub by blast
    then have "c4 g k = c3 g k" "c' g k = c4 g k" using rep unfolding gone_def grown_def by blast+
    with gone k show ?thesis by (simp add: gone_def)
  qed
  show "g' = g \<and> (k \<in> W \<or> k \<in> set dels)" if "c' g' k \<noteq> c g' k"
  proof -
    from that consider "c1 g' k \<noteq> c g' k" | "c2 g' k \<noteq> c1 g' k" | "c3 g' k \<noteq> c2 g' k" | "c4 g' k \<noteq> c3 g' k" | "c' g' k \<noteq> c4 g' k"
      by metis
    then show ?thesis
      using grow kept gone rep sub unfolding grown_def kept_def gone_def by cases blast+
  qed
qed

lemma loops_settle:
  assumes "process_loops K a valid g d toCreate toDelete ps = (errs, ps')" and "no_errors errs"
    and server: "api_server K cl" and "plan_ok K g ps" and "toReplace ps = []"
    and "set toCreate \<union> set (toUpdate ps) \<subseteq> dom (map_of (desired ps))" and "set toDelete \<inter> dom (map_of (desired ps)) = {}"
  defines "c \<equiv> cluster_of cl ps" and "c' \<equiv> cluster_of cl ps'" and "dels \<equiv> if noPrune a then [] else toDelete"
  shows "(\<forall>k \<in> dom (map_of (desired ps)). (k \<in> set toCreate \<or> c g k \<noteq> None) \<longrightarrow> c' g k \<noteq> None \<or> terminating (c g k))"
    and "\<forall>k \<in> set dels. c' g k = None \<or> terminating (c' g k)"
    and "\<forall>g' k. c' g' k \<noteq> c g' k \<longrightarrow> g' = g \<and> (k \<in> dom (map_of (desired ps)) \<or> k \<in> set dels)"
proof -
  let ?W = "dom (map_of (desired ps))"
  obtain e1 ps1 where l1: "for_keys (createF K a valid g d) toCreate ps = (e1, ps1)" by fastforce
  obtain e2 ps2 where l2: "for_keys (updateF K a g d) (toUpdate ps1) ps1 = (e2, ps2)" by fastforce
  obtain e3 ps3 where l3: "for_keys (deleteF K g d) dels ps2 = (e3, ps3)" by fastforce
  obtain e4 ps4 where l4: "for_keys (deleteF K g d) (toReplace ps3) ps3 = (e4, ps4)" by fastforce
  obtain e5 where l5: "for_keys (createF K a valid g d) (toReplace ps4) ps4 = (e5, ps')"
    and none: "no_errors e1" "no_errors e2" "no_errors e3" "no_errors e4" "no_errors e5"
    using assms(1,2) l1 l2 l3 l4 by (auto simp: process_loops_def dels_def split: prod.splits if_splits)
  let ?c1 = "cluster_of cl ps1" and ?c2 = "cluster_of cl ps2" and ?c3 = "cluster_of cl ps3" and ?c4 = "cluster_of cl ps4"
  note s1 = create_loop [OF l1 none(1) server assms(4)]
  have s2: "kept g (toUpdate ps1) ?c1 ?c2" "plan_ok K g ps2" "dom (map_of (desired ps2)) = ?W" "set (toReplace ps2) \<subseteq> ?W"
    using update_loop [OF l2 none(2) server] s1 assms(5) by auto
  note s3 = delete_loop [OF l3 none(3) server]
  note s4 = delete_loop [OF l4 none(4) server]
  have R: "toReplace ps3 = toReplace ps2" "toReplace ps4 = toReplace ps2" "plan_ok K g ps4" using s3 s4 s2(2) by (auto simp: plan_ok_def)
  note s5 = create_loop [OF l5 none(5) server R(3)]
  have grow: "grown g toCreate c ?c1" and gone3: "gone g dels ?c2 ?c3" and gone4: "gone g (toReplace ps2) ?c3 ?c4"
    and grow5: "grown g (toReplace ps2) ?c4 c'" using s1 s3 s4 s5 R by (simp_all add: c_def c'_def)
  have sub: "set toCreate \<union> set (toUpdate ps1) \<union> set (toReplace ps2) \<subseteq> ?W" "set dels \<inter> ?W = {}"
    using s1 s2(4) assms(6,7) by (auto simp: dels_def)
  note F = five_loops [OF grow s2(1) gone3 gone4 grow5 sub]
  show "\<forall>k \<in> ?W. (k \<in> set toCreate \<or> c g k \<noteq> None) \<longrightarrow> c' g k \<noteq> None \<or> terminating (c g k)"
    and "\<forall>k \<in> set dels. c' g k = None \<or> terminating (c' g k)"
    and "\<forall>g' k. c' g' k \<noteq> c g' k \<longrightarrow> g' = g \<and> (k \<in> ?W \<or> k \<in> set dels)"
    using F by blast+
qed

lemma planned_deletes:
  assumes l: "apply_list K a g sel objs w = (Inr ex, w')" and server: "api_server K cl"
    and ok: "gomap_ok ex" "gomap_ok objs" and cs: "compareSets K ex objs = (cr, de, up)"
  shows "k \<in> set (if noPrune a then [] else filterCrossVersion a S g de) \<longleftrightarrow> prunable K a g S sel objs (cl w) k"
proof -
  note L = apply_list_reads [OF l server]
  note C = compareSets_sets(2) [OF ok cs]
  have "k \<in> set de \<longleftrightarrow> (\<exists>obj. map_of ex k = Some obj \<and> map_of objs k = None \<and> may_prune K obj)"
    using C by (auto simp: delete_key_def split: option.splits)
  also have "\<dots> \<longleftrightarrow> found_key a g sel objs (cl w) k \<and> map_of objs k = None \<and>
      (case cl w g k of None \<Rightarrow> False | Some s \<Rightarrow> may_prune K s)"
  proof (cases "map_of ex k")
    case None
    with L have "\<not> found_key a g sel objs (cl w) k" by metis
    with None show ?thesis by simp
  next
    case (Some obj)
    with L have "found_key a g sel objs (cl w) k" by auto
    moreover obtain s where "cl w g k = Some s" "read_as K g s obj" using L Some readsD by blast
    ultimately show ?thesis using Some may_prune_read [of K g s obj K] by simp
  qed
  finally have d: "k \<in> set de \<longleftrightarrow> found_key a g sel objs (cl w) k \<and> map_of objs k = None \<and>
      (case cl w g k of None \<Rightarrow> False | Some s \<Rightarrow> may_prune K s)" .
  have "k \<in> set (filterCrossVersion a S g de) \<longleftrightarrow> k \<in> set de \<and> k \<in> set (filterCrossVersion a S g [k])"
    by (auto simp: filterCrossVersion_set)
  then show ?thesis unfolding prunable_def d by (cases "noPrune a") auto
qed

lemma process_settles:
  assumes server: "api_server K cl" and "set_inv S" and "set_kinds K S" and objs: "desired_objs K a g S = Inr objs"
    and run: "process K a valid d sel g S st = (None, st')"
  shows "settled K a g S sel objs (cl (world st)) (cl (world st')) \<and>
    (\<forall>g' k. g' \<noteq> g \<longrightarrow> cl (world st') g' k = cl (world st) g' k)"
proof -
  obtain ex w where l: "apply_list K a g sel objs (world st) = (Inr ex, w)"
    using run objs by (auto simp: process_def split: prod.splits sum.splits)
  obtain cr de up where cs: "compareSets K ex objs = (cr, de, up)" by (metis prod_cases3)
  let ?ps = "\<lparr>ast = st\<lparr>world := w\<rparr>, existing = ex, desired = objs, toUpdate = up, toReplace = []\<rparr>"
  let ?de = "filterCrossVersion a S g de"
  obtain errs ps where loops: "process_loops K a valid g d cr ?de ?ps = (errs, ps)" by fastforce
  have st': "st' = ast ps" and none: "no_errors errs"
    using run objs l cs loops by (auto simp: process_def NewErrors_None_iff)
  note L = apply_list_reads [OF l server]
  have ok: "gomap_ok ex" "gomap_ok objs" using apply_list_ok [OF l] desired_objs_ok [OF objs assms(2)] .
  note C = compareSets_sets(1-3) [OF ok cs]
  have plan: "plan_ok K g ?ps"
    using reads_of_kind [OF server, of g "world st" ex] L desired_objs_kind [OF server objs assms(3)] by (simp add: plan_ok_def)
  have sub: "set cr \<union> set (toUpdate ?ps) \<subseteq> dom (map_of (desired ?ps))" "set ?de \<inter> dom (map_of (desired ?ps)) = {}"
    unfolding filterCrossVersion_set using C by (auto simp: plan_defs split: option.splits)
  note S = loops_settle [OF loops none server plan _ sub]
  let ?c = "cl (world st)" and ?c' = "cl (world st')"
  have start: "cluster_of cl ?ps = ?c" using L by simp
  have dels: "k \<in> set (if noPrune a then [] else ?de) \<longleftrightarrow> prunable K a g S sel objs ?c k" for k
    by (rule planned_deletes [OF l server ok cs])
  have "?c' g k \<noteq> None \<or> terminating (?c g k)" if k: "map_of objs k = Some obj" "should obj AnnotationCreate" for k obj
  proof -
    have "k \<in> set cr \<or> ?c g k \<noteq> None"
    proof (cases "map_of ex k")
      case None
      then show ?thesis using C(1) k by (simp add: create_key_def)
    next
      case (Some old)
      then show ?thesis using L by (auto dest: readsD)
    qed
    then show ?thesis using S(1) k(1) start by (auto simp: st')
  qed
  moreover have "?c' g k = None \<or> terminating (?c' g k)" if "prunable K a g S sel objs ?c k" for k
    using S(2) that dels by (auto simp: st')
  moreover have "g' = g \<and> (map_of objs k \<noteq> None \<or> prunable K a g S sel objs ?c k)" if "?c' g' k \<noteq> ?c g' k" for g' k
    using S(3) that dels [of k] unfolding start st' by auto
  ultimately show ?thesis unfolding settled_def by blast
qed

section \<open>All kinds\<close>

lemma settled_cong:
  assumes "c g = d g" and "c' g = d' g"
  shows "settled L a g S sel objs c c' = settled L a g S sel objs d d'"
proof -
  have "found_key a g sel objs c k = found_key a g sel objs d k" for k
    using assms(1) by (simp add: found_key_def in_list_def split: option.split)
  then have "prunable L a g S sel objs c k = prunable L a g S sel objs d k" for k
    using assms(1) by (simp add: prunable_def)
  then show ?thesis using assms by (simp add: settled_def)
qed

text \<open>A second apply of the same set has nothing to prune.\<close>

lemma settled_nothing_to_prune:
  assumes "settled L a g S sel objs c c'"
  shows "\<not> prunable L a g S sel objs c' k"
proof
  assume p: "prunable L a g S sel objs c' k"
  then have k: "map_of objs k = None" and s: "\<exists>s. c' g k = Some s \<and> may_prune L s"
    by (auto simp: prunable_def split: option.splits)
  show False
  proof (cases "c' g k = c g k")
    case True
    then have "found_key a g sel objs c k = found_key a g sel objs c' k"
      by (simp add: found_key_def in_list_def split: option.split)
    with True p have "prunable L a g S sel objs c k" by (simp add: prunable_def)
    with assms s show False by (auto simp: settled_def may_prune_def terminating_def)
  next
    case False
    with assms k have "prunable L a g S sel objs c k" by (auto simp: settled_def)
    with assms s show False by (auto simp: settled_def may_prune_def terminating_def)
  qed
qed

lemma process_each_settles:
  assumes "process_each K a valid d sel S gs st = (errs, st')" and "no_errors errs" and "distinct gs"
    and server: "api_server K cl" and inv: "set_inv S" "set_kinds K S"
  shows "(\<forall>g \<in> set gs. \<exists>objs. desired_objs K a g S = Inr objs \<and>
      settled K a g S sel objs (cl (world st)) (cl (world st'))) \<and>
    (\<forall>g. g \<notin> set gs \<longrightarrow> cl (world st') g = cl (world st) g)"
  using assms(1-3)
proof (induction gs arbitrary: st errs)
  case Nil
  then show ?case by simp
next
  case (Cons g gs)
  from Cons.prems(1,2) obtain st1 errs1 where p: "process K a valid d sel g S st = (None, st1)"
    and rest: "process_each K a valid d sel S gs st1 = (errs1, st')" "no_errors errs1"
    by (auto split: prod.splits)
  have "distinct gs" "g \<notin> set gs" using Cons.prems(3) by auto
  note IH = Cons.IH [OF rest \<open>distinct gs\<close>]
  obtain objs where objs: "desired_objs K a g S = Inr objs"
    using p by (auto simp: process_def split: sum.splits)
  note P = process_settles [OF server inv objs p]
  then have other: "h \<noteq> g \<Longrightarrow> cl (world st1) h = cl (world st) h" for h by blast
  have "settled K a g S sel objs (cl (world st)) (cl (world st'))"
  proof -
    have same: "cl (world st1) g = cl (world st') g" using IH \<open>g \<notin> set gs\<close> by simp
    show ?thesis
      using settled_cong [where L = K and c = "cl (world st)" and d = "cl (world st)" and g = g and c' = "cl (world st1)" and d' = "cl (world st')", OF refl same] P by simp
  qed
  moreover have "\<exists>objs. desired_objs K a h S = Inr objs \<and> settled K a h S sel objs (cl (world st)) (cl (world st'))"
    if h: "h \<in> set gs" for h
  proof -
    from h \<open>g \<notin> set gs\<close> have "h \<noteq> g" by blast
    then have same: "cl (world st1) h = cl (world st) h" by (rule other)
    obtain os where os: "desired_objs K a h S = Inr os" "settled K a h S sel os (cl (world st1)) (cl (world st'))"
      using IH [THEN conjunct1, THEN bspec, OF h] by blast
    have "settled K a h S sel os (cl (world st)) (cl (world st'))"
      using settled_cong [where L = K and c = "cl (world st1)" and d = "cl (world st)" and g = h and c' = "cl (world st')" and d' = "cl (world st')", OF same refl] os(2) by simp
    with os(1) show ?thesis by blast
  qed
  moreover have "cl (world st') h = cl (world st) h" if "h \<notin> set (g # gs)" for h
    using that IH other by simp
  ultimately show ?case using objs by auto
qed

lemma ObjectSet_Add_kinds:
  assumes "ObjectSet_Add (gvkFor L) S (map Some objs) = (S', None)" and "set_inv S" and "set_kinds L S"
    and "\<forall>obj \<in> set objs. Name obj \<noteq> []"
  shows "set_inv S' \<and> set_kinds L S'"
  using assms
proof (induction objs arbitrary: S)
  case Nil
  then show ?case by simp
next
  case (Cons obj objs)
  obtain g where g: "gvkFor L obj = Inr g"
    using Cons.prems(1) by (auto simp: ObjectSet_add_def split: sum.splits)
  let ?S = "fst (ObjectSet_add (gvkFor L) S (Some obj))"
  note A = ObjectSet_add_Some [where gvkFor = "gvkFor L" and obj = obj and g = g and o' = S, OF g]
  have "ObjectSet_Add (gvkFor L) ?S (map Some objs) = (S', None)"
    using Cons.prems(1) A(1) by (auto split: prod.splits option.splits)
  moreover have "set_inv ?S" by (rule A(3) [OF Cons.prems(2)])
  moreover have "set_kinds L ?S"
  proof -
    have "of_kind L g' (get_objs (objects ?S) g')" for g'
      using A(2) [of g'] Cons.prems(3,4) g
      by (auto simp: lookup_obj_def set_kinds_def of_kind_def split: if_splits)
    then show ?thesis by (simp add: set_kinds_def)
  qed
  ultimately show ?case using Cons.IH Cons.prems(4) by simp
qed

lemma inject_kinds:
  assumes "injectLabelsAndAnnotations L S labels annos = Inr S'" and "all_named S"
  shows "set_inv S' \<and> set_kinds L S'"
proof -
  let ?objs = "map (inject_one labels annos) (concat (map (\<lambda>(g, m). map snd m) (objects S)))"
  have "ObjectSet_Add (gvkFor L) empty_ObjectSet (map Some ?objs) = (S', None)"
    using assms(1) by (auto simp: injectLabelsAndAnnotations_def NewObjectSet_def comp_def split: prod.splits option.splits)
  moreover have "\<forall>obj \<in> set ?objs. Name obj \<noteq> []"
    using assms(2) by (fastforce simp: all_named_def inject_one_def setLabels_def setAnnotations_def)
  moreover have "set_kinds L empty_ObjectSet" by (simp add: set_kinds_def of_kind_def empty_ObjectSet_def get_objs_def)
  ultimately show ?thesis using ObjectSet_Add_kinds set_inv_empty by blast
qed

text \<open>All kinds of one apply.\<close>

lemma apply_set_converges:
  assumes "api_server K cl" and "set_inv S" and "all_named S" and "distinct (knownGVK a)"
    and "GetLabelsAndAnnotations K (ownerSubContext a) (owner a) = Inr (labels, annotations)"
    and "injectLabelsAndAnnotations K S labels annotations = Inr S'" and "GetSelector K labels = Inr sel"
    and "apply_set K a valid S st = (None, st')"
  shows "\<forall>g. if g \<in> set (gvkOrder S) \<union> set (knownGVK a)
    then \<exists>objs. desired_objs K a g S' = Inr objs \<and> settled K a g S' sel objs (cl (world st)) (cl (world st')) \<and>
      (\<forall>k. \<not> prunable K a g S' sel objs (cl (world st')) k)
    else cl (world st') g = cl (world st) g"
proof -
  let ?gs = "ObjectSet_GVKOrder (gvkString K) S (knownGVK a)"
  obtain errs where run: "process_each K a valid (debugID a) sel S' ?gs st = (errs, st')" "no_errors errs"
    using assms(5-8) by (auto simp: apply_set_def Let_def NewErrors_None_iff split: prod.splits)
  have "distinct ?gs" and gs: "set ?gs = set (gvkOrder S) \<union> set (knownGVK a)"
    using assms(2,4) by (auto simp: ObjectSet_GVKOrder_def set_inv_def)
  have "set_inv S'" "set_kinds K S'" using inject_kinds [OF assms(6,3)] by auto
  from process_each_settles [OF run \<open>distinct ?gs\<close> assms(1) this] settled_nothing_to_prune show ?thesis
    unfolding gs by (simp del: Un_iff) blast
qed

section \<open>From the caller's objects\<close>

text \<open>The applier that \<open>Apply\<close> works with: the kinds to prune and the owner filled in.\<close>

definition applier_for :: "('a) lib_scheme \<Rightarrow> kobj option \<Rightarrow> applier \<Rightarrow> err + applier" where
  "applier_for L own a =
     (case prune_gvks L (pruneObjects a) of
        Inl err \<Rightarrow> Inl err
      | Inr gs \<Rightarrow>
          let a = (withPruneGVKs gs a)\<lparr>owner := own\<rparr> in
          (case own of
             None \<Rightarrow> Inr a
           | Some o' \<Rightarrow> (case gvkFor L o' of Inl err \<Rightarrow> Inl err | Inr g \<Rightarrow> Inr (a\<lparr>ownerGVK := g\<rparr>))))"

lemma Apply_set:
  "Apply K valid own objs a st =
     (case applier_for K own a of
        Inl err \<Rightarrow> (Some err, st)
      | Inr a \<Rightarrow> (case NewObjectSet (gvkFor K) objs of
           (_, Some err) \<Rightarrow> (Some err, st)
         | (S, None) \<Rightarrow> apply_set K a valid S st))"
  by (simp add: Apply_def applier_for_def Let_def split: sum.split option.split)

lemma ObjectSet_Add_skip: "ObjectSet_Add f S objs = ObjectSet_Add f S (map Some (map the (filter (\<lambda>x. x \<noteq> None) objs)))"
proof (induction objs arbitrary: S)
  case Nil
  then show ?case by simp
next
  case (Cons x objs)
  then show ?case by (cases x) (auto simp: ObjectSet_add_def split: prod.split option.split)
qed

lemma withPruneGVKs_ok: "gomap_ok (pruneTypes a) \<Longrightarrow> gomap_ok (pruneTypes (withPruneGVKs gs a))"
  unfolding withPruneGVKs_def by (induction gs arbitrary: a) (auto simp: gomap_ok_fold_update)

lemma applier_for_known:
  assumes "applier_for L own a = Inr a'" and "gomap_ok (pruneTypes a)"
  shows "distinct (knownGVK a')"
proof -
  obtain gs where "pruneTypes a' = pruneTypes (withPruneGVKs gs a)"
    using assms(1) by (auto simp: applier_for_def Let_def split: sum.splits option.splits)
  then show ?thesis using withPruneGVKs_ok [OF assms(2)] by (simp add: knownGVK_def)
qed

lemma set_kinds_named:
  assumes "set_inv S" and "set_kinds L S"
  shows "all_named S"
  unfolding all_named_def
proof (intro ballI, clarify)
  fix g m k obj assume g: "(g, m) \<in> set (objects S)" and k: "(k, obj) \<in> set m" and n: "Name obj = []"
  have "gomap_ok (objects S)" "gomap_ok m" using assms(1) g by (auto simp: set_inv_def)
  then have "get_objs (objects S) g = m" "map_of m k = Some obj" using g k by (simp_all add: get_objs_def)
  with assms(2) have "key_of obj = k \<and> KeyName k \<noteq> []" unfolding set_kinds_def of_kind_def by metis
  with n show False by auto
qed

lemma NewObjectSet_kinds:
  assumes "NewObjectSet (gvkFor L) objs = (S, None)" and "\<forall>obj. Some obj \<in> set objs \<longrightarrow> Name obj \<noteq> []"
  shows "set_inv S \<and> all_named S"
proof -
  let ?objs = "map the (filter (\<lambda>x. x \<noteq> None) objs)"
  have "ObjectSet_Add (gvkFor L) empty_ObjectSet (map Some ?objs) = (S, None)"
    using assms(1) ObjectSet_Add_skip [of "gvkFor L" empty_ObjectSet objs] by (simp add: NewObjectSet_def)
  moreover have "\<forall>obj \<in> set ?objs. Name obj \<noteq> []" using assms(2) by auto
  moreover have "set_kinds L empty_ObjectSet" by (simp add: set_kinds_def of_kind_def empty_ObjectSet_def get_objs_def)
  ultimately have "set_inv S \<and> set_kinds L S" using ObjectSet_Add_kinds set_inv_empty by blast
  then show ?thesis using set_kinds_named by blast
qed

text \<open>The set an apply works with: the caller's objects, stamped for the owner, and the selector of what the owner has.\<close>

definition stamped_set :: "('a) lib_scheme \<Rightarrow> applier \<Rightarrow> ObjectSet \<Rightarrow> err + ObjectSet \<times> label_selector option" where
  "stamped_set L a S =
     (case GetLabelsAndAnnotations L (ownerSubContext a) (owner a) of
        Inl err \<Rightarrow> Inl err
      | Inr (labels, annotations) \<Rightarrow>
          (case injectLabelsAndAnnotations L S labels annotations of
             Inl err \<Rightarrow> Inl err
           | Inr S' \<Rightarrow> (case GetSelector L labels of Inl err \<Rightarrow> Inl err | Inr sel \<Rightarrow> Inr (S', sel))))"

text \<open>\<open>Apply\<close> brings the cluster to the wanted state: when it reports no error then, for every kind of the
  objects and every kind to prune, each wanted object that may be created exists (or was already being
  deleted); each object of the owner that is not wanted and may be pruned is gone or being deleted; and no object of
  these kinds but those has changed; nothing is left to prune. No object of another kind has changed. Relied on: the documented behaviour of the
  API server (\<open>api_server\<close>), and that wanted objects have names.\<close>

theorem apply_converges:
  assumes "api_server K cl" and "gomap_ok (pruneTypes a0)" and "\<forall>obj. Some obj \<in> set objs0 \<longrightarrow> Name obj \<noteq> []"
    and "Apply K valid own objs0 a0 st = (None, st')"
  shows "\<exists>a S S' sel. applier_for K own a0 = Inr a \<and> NewObjectSet (gvkFor K) objs0 = (S, None) \<and>
    stamped_set K a S = Inr (S', sel) \<and>
    (\<forall>g. if g \<in> set (gvkOrder S) \<union> set (knownGVK a)
      then \<exists>objs. desired_objs K a g S' = Inr objs \<and> settled K a g S' sel objs (cl (world st)) (cl (world st')) \<and>
        (\<forall>k. \<not> prunable K a g S' sel objs (cl (world st')) k)
      else cl (world st') g = cl (world st) g)"
proof -
  obtain a S where a: "applier_for K own a0 = Inr a" and S: "NewObjectSet (gvkFor K) objs0 = (S, None)"
    and run: "apply_set K a valid S st = (None, st')"
    using assms(4) by (auto simp: Apply_set split: sum.splits prod.splits option.splits)
  obtain labels annotations S' sel where stamp: "GetLabelsAndAnnotations K (ownerSubContext a) (owner a) = Inr (labels, annotations)"
    "injectLabelsAndAnnotations K S labels annotations = Inr S'" "GetSelector K labels = Inr sel"
    using run by (auto simp: apply_set_def Let_def split: sum.splits prod.splits)
  have "set_inv S" "all_named S" using NewObjectSet_kinds [OF S assms(3)] by auto
  note apply_set_converges [OF assms(1) this applier_for_known [OF a assms(2)] stamp run]
  moreover have "stamped_set K a S = Inr (S', sel)" using stamp by (simp add: stamped_set_def)
  ultimately show ?thesis using a S by blast
qed

lemma sub_s_applier: "applier_for table_kube None sub_s = Inr sub_s"
proof -
  have "pruneObjects sub_s = []" "(withPruneGVKs [] sub_s)\<lparr>owner := None\<rparr> = sub_s"
    by (simp_all add: sub_s_def WithOwnerSubContext_def withPruneGVKs_def example_applier_def New_def)
  then show ?thesis by (simp add: applier_for_def)
qed

lemma single_Apply:
  "\<exists>st'. Apply table_kube (\<lambda>_. False) None [Some (cm_named ''new'')] sub_s \<lparr>world = [cm_of_s ''old''], patchCache = []\<rparr> = (None, st')"
  using single_apply by (simp add: Apply_set sub_s_applier single_simps)

lemma single_stamped: "stamped_set table_kube sub_s (single (cm_named n)) =
    Inr (single (cm_of_s n), Some \<lparr>selMatches = \<lambda>m. m LabelHash = Some ''s'', selString = LabelHash @ ''='' @ ''s''\<rparr>)"
  unfolding stamped_set_def sub_s_simps single_labels by (simp add: single_inject single_selector)

theorem apply_converges_witness:
  "\<exists>st'. Apply table_kube (\<lambda>_. False) None [Some (cm_named ''new'')] sub_s \<lparr>world = [cm_of_s ''old''], patchCache = []\<rparr> = (None, st') \<and>
     table_cluster (world st') cm_gvk (mk_key ''ns'' ''new'') \<noteq> None \<and>
     (table_cluster (world st') cm_gvk (mk_key ''ns'' ''old'') = None \<or>
      terminating (table_cluster (world st') cm_gvk (mk_key ''ns'' ''old'')))"
proof -
  let ?sel = "Some \<lparr>selMatches = \<lambda>m. m LabelHash = Some ''s'', selString = LabelHash @ ''='' @ ''s''\<rparr>"
  obtain st' where run: "Apply table_kube (\<lambda>_. False) None [Some (cm_named ''new'')] sub_s
      \<lparr>world = [cm_of_s ''old''], patchCache = []\<rparr> = (None, st')" using single_Apply by blast
  have "gomap_ok (pruneTypes sub_s)" "\<forall>obj. Some obj \<in> set [Some (cm_named ''new'')] \<longrightarrow> Name obj \<noteq> []" by simp_all
  note C = apply_converges [OF table_api_server this run]
  have settled: "settled table_kube sub_s cm_gvk (single (cm_of_s ''new'')) ?sel
      [(mk_key ''ns'' ''new'', cm_of_s ''new'')] (table_cluster [cm_of_s ''old'']) (table_cluster (world st'))"
    using C single_desired [of "''new''"]
    by (auto simp: sub_s_applier single_simps single_stamped dest!: spec [of _ cm_gvk])
  have "prunable table_kube sub_s cm_gvk (single (cm_of_s ''new''))
      (Some \<lparr>selMatches = \<lambda>m. m LabelHash = Some ''s'', selString = sel\<rparr>)
      [(mk_key ''ns'' ''new'', cm_of_s ''new'')] (table_cluster [cm_of_s ''old'']) (mk_key ''ns'' ''old'')" for sel
    by (simp add: prunable_def found_key_def in_list_def table_cluster_def single_may_prune single_filter)
  moreover have "\<not> terminating (table_cluster [cm_of_s ''old''] cm_gvk (mk_key ''ns'' ''new''))"
    by (simp add: table_cluster_def terminating_def)
  moreover have "should (cm_of_s ''new'') AnnotationCreate"
    by (simp add: should_def get_str_def label_defs)
  moreover have "map_of [(mk_key ''ns'' ''new'', cm_of_s ''new'')] (mk_key ''ns'' ''new'') = Some (cm_of_s ''new'')" by simp
  ultimately show ?thesis using run settled unfolding settled_def by blast
qed

end
