(* ===== verification/Apply_Quiet.thy ===== *)
theory Apply_Quiet
  imports Apply_Converge
begin

text \<open>
  An apply that finds the cluster as it wants it: it asks the server for the objects and writes nothing, so that a
  handler that applies the same objects again and again does not keep itself busy.
\<close>

section \<open>Only reads\<close>

inductive only_reads :: "('w, 'a) kube_scheme \<Rightarrow> 'w \<Rightarrow> 'w \<Rightarrow> bool" for K where
  no_call: "only_reads K w w"
| get_call: "only_reads K w w1 \<Longrightarrow> clGet K w1 g t k = (r, w2) \<Longrightarrow> only_reads K w w2"
| list_call: "only_reads K w w1 \<Longrightarrow> clList K w1 (g\<lparr>Kind := Kind g @ ''List''\<rparr>) ns sel = (r, w2) \<Longrightarrow> only_reads K w w2"

lemma only_reads_trans:
  assumes "only_reads K w w1" and "only_reads K w1 w2"
  shows "only_reads K w w2"
  using assms(2,1) by (induction rule: only_reads.induct) (auto intro: only_reads.intros)

lemma apply_get_reads: "apply_get K g obj ns n w = (r, w') \<Longrightarrow> only_reads K w w'"
  by (auto simp: apply_get_def split: sum.splits option.splits intro: only_reads.intros)

lemma get_each_only_reads: "get_each K g kvs res w = (r, w') \<Longrightarrow> only_reads K w w'"
proof (induction kvs arbitrary: res w)
  case Nil
  then show ?case by (auto intro: no_call)
next
  case (Cons kv kvs)
  then show ?case
    by (cases kv) (auto split: prod.splits sum.splits if_splits dest!: apply_get_reads intro: only_reads_trans)
qed

lemma apply_list_only_reads: "apply_list K a g sel objs w = (r, w') \<Longrightarrow> only_reads K w w'"
  by (auto simp: apply_list_def listBySelector_def Let_def split: option.splits sum.splits prod.splits
      intro: only_reads.intros dest: get_each_only_reads)

text \<open>A read leaves the cluster as it is.\<close>

lemma only_reads_cluster:
  assumes "only_reads K w w'" and server: "api_server K cl"
  shows "cl w' = cl w"
  using assms(1)
proof (induction rule: only_reads.induct)
  case (get_call w w1 g t k r w2)
  then show ?case using get_law_cases [OF server get_call.hyps(2)] by simp
next
  case (list_call w w1 g ns sel r w2)
  have "list_law K cl" using server by (simp add: api_server_def)
  from this [unfolded list_law_def, THEN spec, of w1, THEN spec, of g, THEN spec, of ns, THEN spec, of sel] list_call
  show ?case by simp
qed simp

section \<open>Up to date\<close>

text \<open>The code's own criterion: the three-way patch from the original, the wanted and the existing object is empty, or
  nothing is left of it once the server's fields are taken out. With \<open>ensure\<close> the existing object is handed
  out, so its Go type has to be the wanted one.\<close>

definition patch_result ::
  "('a) lib_scheme \<Rightarrow> patchCacheEntry \<Rightarrow> string \<Rightarrow> string \<Rightarrow> string \<Rightarrow> err + string" where
  "patch_result L style original modified current =
     (if fst style = StrategicMergePatchType then strategicPatch L original modified current (snd style)
      else jsonMergePatch L original modified current)"

definition up_to_date ::
  "('a) lib_scheme \<Rightarrow> applier \<Rightarrow> gvk \<Rightarrow> patchCacheEntry \<Rightarrow> kobj \<Rightarrow> kobj \<Rightarrow> bool" where
  "up_to_date L a g style old new \<longleftrightarrow>
     (case (originalAndModified L g old new, marshalObj L old) of
        (Inr (original, modified), Inr current) \<Rightarrow>
          (case patch_result L style original modified current of
             Inl err \<Rightarrow> False
           | Inr patch \<Rightarrow> patch = ''{}'' \<or> sanitizePatch L patch False = Inr ''{}'')
      | _ \<Rightarrow> False) \<and> (ensure a \<longrightarrow> GoType old = GoType new)"

text \<open>The merge style of a kind, from the cache or from the library, and what stays of it.\<close>

definition styled :: "('a) lib_scheme \<Rightarrow> gvk set \<Rightarrow> (gvk \<Rightarrow> patchCacheEntry) \<Rightarrow> 'w astate \<Rightarrow> bool" where
  "styled L G style st \<longleftrightarrow> (\<forall>g \<in> G. fst (getMergeStyle L g (patchCache st)) = Inr (style g))"

lemma getMergeStyle_keeps:
  assumes "\<forall>h \<in> G. fst (getMergeStyle L h cache) = Inr (style h)" and "getMergeStyle L g cache = (r, cache')" and "h \<in> G"
  shows "fst (getMergeStyle L h cache') = Inr (style h)"
proof (cases "h = g")
  case True
  with assms have "getMergeStyle L g cache = (Inr (style g), cache')" by (metis fst_conv)
  from merge_style.stores [OF this] True show ?thesis by (simp add: merge_style.hit)
next
  case False
  then have "map_of cache' h = map_of cache h"
    using assms(2) by (auto simp: getMergeStyle_def Let_def split: option.splits if_splits new_result.splits)
  then have "fst (getMergeStyle L h cache') = fst (getMergeStyle L h cache)"
    by (auto simp: getMergeStyle_def Let_def split: option.splits new_result.splits)
  then show ?thesis using assms(1,3) by simp
qed

lemma applyPatch_quiet:
  assumes "g \<in> G" and "up_to_date K a g (style g) old new" and "styled K G style st"
  shows "\<exists>st'. applyPatch K a g old new st = (False, None, new, st') \<and> world st' = world st \<and> styled K G style st'"
proof -
  obtain o' m c where om: "originalAndModified K g old new = Inr (o', m)" and cur: "marshalObj K old = Inr c"
    using assms(2) by (cases "originalAndModified K g old new"; cases "marshalObj K old") (auto simp: up_to_date_def)
  obtain p where p: "patch_result K (style g) o' m c = Inr p" "p = ''{}'' \<or> sanitizePatch K p False = Inr ''{}''"
    using assms(2) om cur by (auto simp: up_to_date_def split: sum.splits)
  obtain cache where ms: "getMergeStyle K g (patchCache st) = (Inr (style g), cache)"
    using assms(1,3) by (metis prod.collapse styled_def)
  have "createPatch K g o' m c (patchCache st) = (Inr (fst (style g), p), cache)"
    using ms p(1) by (cases "style g") (auto simp: createPatch_def patch_result_def)
  moreover have "styled K G style (st\<lparr>patchCache := cache\<rparr>)"
    using getMergeStyle_keeps [OF _ ms] assms(3) by (simp add: styled_def)
  ultimately show ?thesis using om cur p(2) by (auto simp: applyPatch_def Let_def)
qed

lemma compareObjects_quiet:
  assumes "g \<in> G" and "up_to_date K a g (style g) old new" and "styled K G style st"
  shows "\<exists>new' st'. compareObjects K a g old new st = (None, new', st') \<and> world st' = world st \<and> styled K G style st'"
  using applyPatch_quiet [OF assms] assms(2) by (auto simp: compareObjects_def up_to_date_def)

lemma update_loop_quiet:
  assumes "\<forall>k \<in> set ks. \<exists>old new. map_of (existing ps) k = Some old \<and> map_of (desired ps) k = Some new \<and>
      up_to_date K a g (style g) old new"
    and "distinct ks" and "g \<in> G" and "styled K G style (ast ps)"
  shows "\<exists>errs ps'. for_keys (updateF K a g d) ks ps = (errs, ps') \<and> no_errors errs \<and> world (ast ps') = world (ast ps) \<and>
    styled K G style (ast ps') \<and> toReplace ps' = toReplace ps"
  using assms
proof (induction ks arbitrary: ps)
  case Nil
  then show ?case by simp
next
  case (Cons k ks)
  then obtain old new where on: "map_of (existing ps) k = Some old" "map_of (desired ps) k = Some new"
    "up_to_date K a g (style g) old new" by auto
  obtain n st where c: "compareObjects K a g old new (ast ps) = (None, n, st)" "world st = world (ast ps)" "styled K G style st"
    using compareObjects_quiet [OF Cons.prems(3) on(3) Cons.prems(4)] by blast
  obtain ps1 where u: "updateF K a g d k ps = (None, ps1)" "ast ps1 = st" "existing ps1 = existing ps" "toReplace ps1 = toReplace ps"
    "\<forall>k'. k' \<noteq> k \<longrightarrow> map_of (desired ps1) k' = map_of (desired ps) k'"
    using on c by (auto simp: updateF_def Let_def)
  have "\<forall>k' \<in> set ks. \<exists>old new. map_of (existing ps1) k' = Some old \<and> map_of (desired ps1) k' = Some new \<and>
      up_to_date K a g (style g) old new"
    using Cons.prems(1,2) u(3,5) by (metis distinct.simps(2) list.set_intros(2))
  from Cons.IH [OF this] Cons.prems(2,3) c(3) u(2) obtain errs ps' where
    "for_keys (updateF K a g d) ks ps1 = (errs, ps')" "no_errors errs" "world (ast ps') = world st"
    "styled K G style (ast ps')" "toReplace ps' = toReplace ps1" by auto
  with u c(2) show ?case by auto
qed

section \<open>In sync\<close>

text \<open>One kind is in sync: nothing is to prune, everything wanted that may be created is found, and what is found
  is up to date.\<close>

definition in_sync ::
  "('w, 'a) kube_scheme \<Rightarrow> ('w \<Rightarrow> cluster) \<Rightarrow> applier \<Rightarrow> (gvk \<Rightarrow> patchCacheEntry) \<Rightarrow> ObjectSet \<Rightarrow> label_selector option
     \<Rightarrow> gvk \<Rightarrow> cluster \<Rightarrow> bool" where
  "in_sync K cl a style S sel g c \<longleftrightarrow> (\<exists>objs. desired_objs K a g S = Inr objs \<and>
     (\<forall>k. \<not> prunable K a g S sel objs c k) \<and>
     (\<forall>k obj. map_of objs k = Some obj \<and> should obj AnnotationCreate \<longrightarrow> found_key a g sel objs c k) \<and>
     (\<forall>w ex w' k old new. cl w = c \<and> apply_list K a g sel objs w = (Inr ex, w') \<and> map_of ex k = Some old \<and>
        map_of objs k = Some new \<and> should new AnnotationUpdate \<longrightarrow> up_to_date K a g (style g) old new))"

text \<open>The only error left: a listing that fails.\<close>

definition listing_fails :: "('w, 'a) kube_scheme \<Rightarrow> applier \<Rightarrow> label_selector option \<Rightarrow> gvk \<Rightarrow> bool" where
  "listing_fails K a sel g \<longleftrightarrow> (\<exists>objs w e w'. apply_list K a g sel objs w = (Inl e, w'))"

lemma process_quiet:
  assumes server: "api_server K cl" and "set_inv S" and sync: "in_sync K cl a style S sel g (cl (world st))"
    and "g \<in> G" and "styled K G style st" and run: "process K a valid d sel g S st = (err, st')"
  shows "only_reads K (world st) (world st') \<and> styled K G style st' \<and> (err = None \<or> listing_fails K a sel g)"
proof -
  obtain objs where objs: "desired_objs K a g S = Inr objs" and prune: "\<And>k. \<not> prunable K a g S sel objs (cl (world st)) k"
    and found: "\<And>k obj. map_of objs k = Some obj \<Longrightarrow> should obj AnnotationCreate \<Longrightarrow> found_key a g sel objs (cl (world st)) k"
    and same: "\<And>w ex w' k old new. cl w = cl (world st) \<Longrightarrow> apply_list K a g sel objs w = (Inr ex, w') \<Longrightarrow> map_of ex k = Some old \<Longrightarrow>
        map_of objs k = Some new \<Longrightarrow> should new AnnotationUpdate \<Longrightarrow> up_to_date K a g (style g) old new"
    using sync unfolding in_sync_def by blast
  obtain r w where l: "apply_list K a g sel objs (world st) = (r, w)" by fastforce
  note read = apply_list_only_reads [OF l]
  show ?thesis
  proof (cases r)
    case (Inl e)
    with l have "listing_fails K a sel g" unfolding listing_fails_def by blast
    with run objs l Inl read assms(5) show ?thesis by (auto simp: process_def styled_def)
  next
    case (Inr ex)
    with l have l: "apply_list K a g sel objs (world st) = (Inr ex, w)" by simp
    note L = apply_list_reads [OF l server]
    obtain cr de up where cs: "compareSets K ex objs = (cr, de, up)" by (metis prod_cases3)
    have ok: "gomap_ok ex" "gomap_ok objs" using apply_list_ok [OF l] desired_objs_ok [OF objs assms(2)] .
    note C = compareSets_sets(1-3,6) [OF ok cs]
    have cr: "cr = []"
    proof -
      have "\<not> create_key ex objs k" for k
        using found [of k] L by (auto simp: create_key_def split: option.splits)
      then show ?thesis using C(1) by simp
    qed
    have de: "(if noPrune a then [] else filterCrossVersion a S g de) = []"
      using planned_deletes [OF l server ok cs] prune by (metis list.set_intros(1) neq_Nil_conv)
    let ?ps = "\<lparr>ast = st\<lparr>world := w\<rparr>, existing = ex, desired = objs, toUpdate = up, toReplace = []\<rparr>"
    have "\<forall>k \<in> set up. \<exists>old new. map_of (existing ?ps) k = Some old \<and> map_of (desired ?ps) k = Some new \<and>
        up_to_date K a g (style g) old new"
      using C(3) same [OF refl l] by (auto simp: update_key_def split: option.splits)
    moreover have "styled K G style (ast ?ps)" using assms(5) by (simp add: styled_def)
    ultimately obtain errs ps where u: "for_keys (updateF K a g d) up ?ps = (errs, ps)" "no_errors errs"
      "world (ast ps) = w" "styled K G style (ast ps)" "toReplace ps = []"
      using update_loop_quiet [of up ?ps K a g style G d] C(4) assms(4) by auto
    have "process_loops K a valid g d cr (filterCrossVersion a S g de) ?ps = (errs, ps)"
      using u(1,5) cr de by (auto simp: process_loops_def split: if_splits)
    then have "err = None \<and> st' = ast ps"
      using run objs l cs NewErrors_None_iff [THEN iffD2, OF u(2)] by (auto simp: process_def)
    with u(3,4) read show ?thesis by simp
  qed
qed

lemma process_each_quiet:
  assumes "process_each K a valid d sel S gs st = (errs, st')" and server: "api_server K cl" and "set_inv S"
    and "\<forall>g \<in> set gs. in_sync K cl a style S sel g (cl (world st))" and "set gs \<subseteq> G" and "styled K G style st"
  shows "only_reads K (world st) (world st') \<and> (no_errors errs \<or> (\<exists>g \<in> set gs. listing_fails K a sel g))"
  using assms(1,4-6)
proof (induction gs arbitrary: st errs)
  case Nil
  then show ?case by (auto intro: no_call)
next
  case (Cons g gs)
  from Cons.prems(1) obtain e st1 errs1 where p: "process K a valid d sel g S st = (e, st1)"
    and rest: "process_each K a valid d sel S gs st1 = (errs1, st')" and errs: "errs = e # errs1"
    by (auto split: prod.splits)
  have "in_sync K cl a style S sel g (cl (world st))" "g \<in> G" using Cons.prems(2,3) by auto
  note P = process_quiet [OF server assms(3) this Cons.prems(4) p]
  then have same: "cl (world st1) = cl (world st)" using only_reads_cluster [OF _ server] by blast
  have "only_reads K (world st1) (world st') \<and> (no_errors errs1 \<or> (\<exists>g \<in> set gs. listing_fails K a sel g))"
    using Cons.IH [OF rest] Cons.prems(2,3) P same by simp
  with P errs show ?case by (auto intro: only_reads_trans)
qed

text \<open>An apply that finds the cluster in sync writes nothing: when for every kind nothing is to prune, each wanted
  object that may be created exists, and each patch of an existing one comes out empty, the only calls the
  apply makes are reads, the cluster is as it was, and the apply reports no error unless a listing failed.\<close>

theorem apply_quiet:
  assumes "api_server K cl" and "\<forall>obj. Some obj \<in> set objs \<longrightarrow> Name obj \<noteq> []"
    and "applier_for K own a0 = Inr a" and "NewObjectSet (gvkFor K) objs = (S, None)" and "stamped_set K a S = Inr (S', sel)"
    and "styled K (set (gvkOrder S) \<union> set (knownGVK a)) style st"
    and "\<forall>g \<in> set (gvkOrder S) \<union> set (knownGVK a). in_sync K cl a style S' sel g (cl (world st))"
    and "Apply K valid own objs a0 st = (err, st')"
  shows "only_reads K (world st) (world st') \<and> cl (world st') = cl (world st) \<and>
    (err = None \<or> (\<exists>g. listing_fails K a sel g))"
proof -
  let ?gs = "ObjectSet_GVKOrder (gvkString K) S (knownGVK a)"
  have S: "set_inv S" "all_named S" using NewObjectSet_kinds [OF assms(4,2)] by auto
  have set: "apply_set K a valid S st = (err, st')" using assms(3,4,8) by (simp add: Apply_set)
  obtain labels annotations where stamp: "GetLabelsAndAnnotations K (ownerSubContext a) (owner a) = Inr (labels, annotations)"
    "injectLabelsAndAnnotations K S labels annotations = Inr S'" "GetSelector K labels = Inr sel"
    using assms(5) by (auto simp: stamped_set_def split: sum.splits prod.splits)
  obtain errs where run: "process_each K a valid (debugID a) sel S' ?gs st = (errs, st')" and err: "err = NewErrors errs"
    using stamp set by (auto simp: apply_set_def Let_def split: prod.splits)
  have gs: "set ?gs = set (gvkOrder S) \<union> set (knownGVK a)"
    using S(1) by (auto simp: ObjectSet_GVKOrder_def set_inv_def)
  have "set_inv S'" using inject_kinds [OF stamp(2) S(2)] by auto
  from process_each_quiet [OF run assms(1) this _ _ assms(6)] assms(7)
  have "only_reads K (world st) (world st') \<and> (no_errors errs \<or> (\<exists>g \<in> set ?gs. listing_fails K a sel g))"
    unfolding gs by simp
  then show ?thesis
    using only_reads_cluster [OF _ assms(1)] NewErrors_None_iff [THEN iffD2] unfolding err by blast
qed

lemma single_up_to_date: "up_to_date table_kube sub_s cm_gvk (MergePatchType, None) (cm_of_s n) (cm_of_s n)"
  by (simp add: up_to_date_def originalAndModified_def getOriginalBytes_def getOriginalObject_def appliedFromAnnotation_def
    get_str_def label_defs prepareObjectForCreate_def serializeApplied_def ToMapInterface_def example_lib_def patch_result_def)

lemma single_in_sync:
  "in_sync table_kube table_cluster sub_s (\<lambda>_. (MergePatchType, None)) (single (cm_of_s ''new''))
     (Some \<lparr>selMatches = \<lambda>m. m LabelHash = Some ''s'', selString = sel\<rparr>) cm_gvk (table_cluster [cm_of_s ''new''])"
proof -
  let ?sel = "\<lparr>selMatches = \<lambda>m. m LabelHash = Some ''s'', selString = sel\<rparr>" and ?k = "mk_key ''ns'' ''new''"
  let ?c = "table_cluster [cm_of_s ''new'']"
  have c: "?c cm_gvk k = (if k = ?k then Some (cm_of_s ''new'') else None)" for k
    by (auto simp: table_cluster_def)
  have found: "found_key sub_s cm_gvk (Some ?sel) objs ?c k \<longleftrightarrow> k = ?k" for objs k
    by (simp add: found_key_def in_list_def c)
  have "old = cm_of_s ''new''" if "table_cluster w = ?c"
    and l: "apply_list table_kube sub_s cm_gvk (Some ?sel) objs w = (Inr ex, w')" and ex: "map_of ex k = Some old" for w ex w' objs k old
  proof -
    from l have "ex = fold (\<lambda>x m. AList.update (key_of x) x m) (filter (\<lambda>x. table_cluster w cm_gvk (key_of x) = Some x \<and>
        Labels x LabelHash = Some ''s'') w) []"
      by (auto simp: apply_list_def listBySelector_def Let_def apply_newObj_def example_lib_def)
    from fold_keyed_Some [OF ex [unfolded this]] have "table_cluster w cm_gvk k = Some old" by auto
    with that(1) show ?thesis by (simp add: c split: if_splits)
  qed
  note only = this
  show ?thesis
    unfolding in_sync_def using single_desired [of "''new''"] single_up_to_date [of "''new''"]
    by (auto simp: found prunable_def split: if_splits) (metis only)
qed

theorem apply_quiet_witness:
  "let st = \<lparr>world = [cm_of_s ''new''], patchCache = []\<rparr>;
       st' = snd (Apply table_kube (\<lambda>_. False) None [Some (cm_named ''new'')] sub_s st)
   in only_reads table_kube (world st) (world st')"
proof -
  let ?st = "\<lparr>world = [cm_of_s ''new''], patchCache = []\<rparr>"
  obtain err st' where run: "Apply table_kube (\<lambda>_. False) None [Some (cm_named ''new'')] sub_s ?st = (err, st')" by fastforce
  have named: "\<forall>obj. Some obj \<in> set [Some (cm_named ''new'')] \<longrightarrow> Name obj \<noteq> []"
    and set: "NewObjectSet (gvkFor table_kube) [Some (cm_named ''new'')] = (single (cm_named ''new''), None)"
    by (simp_all add: single_simps)
  note Q = apply_quiet [OF table_api_server named sub_s_applier set single_stamped _ _ run]
  have "styled table_kube G (\<lambda>_. (MergePatchType, None)) ?st" for G
    by (simp add: styled_def getMergeStyle_def example_lib_def Let_def)
  from Q [OF this] single_in_sync run show ?thesis by (simp add: single_simps)
qed

end
