(* ===== verification/Triggers.thy ===== *)
theory Triggers
  imports Kube_Lib Error_Lists
begin

text \<open>
  pkg/router/matcher.go and trigger.go: which keys a changed object enqueues. The nested
  \<open>sync.Map\<close>s are nested maps; here \<open>register\<close> and \<open>process\<close> run alone, \<open>Range\<close> visiting in list order. The
  theory \<open>Trigger_Loop\<close> takes them apart into the accesses to the maps that interleave.
  \<open>isFields\<close> tells whether an object's Go type implements \<open>fields.Fields\<close>.
\<close>

section \<open>Matchers\<close>

record objectMatcher =
  mNamespace :: string
  mName :: string
  mSelector :: "label_selector option"
  mFields :: "field_selector option"

definition objectMatcher_String :: "objectMatcher \<Rightarrow> string" where
  "objectMatcher_String o' =
     (let s = mName o' @ ''/'' @ mNamespace o';
          s = (case mSelector o' of None \<Rightarrow> s | Some sel \<Rightarrow> s @ ''/label selectors'' @ selString sel)
      in case mFields o' of None \<Rightarrow> s | Some f \<Rightarrow> s @ ''/field selectors'' @ fieldString f)"

definition objectMatcher_Equals :: "objectMatcher \<Rightarrow> objectMatcher \<Rightarrow> bool" where
  "objectMatcher_Equals o' other =
     (if mName o' \<noteq> mName other then False
      else if mNamespace o' \<noteq> mNamespace other then False
      else if (mSelector o' = None) \<noteq> (mSelector other = None) then False
      else if mSelector o' \<noteq> None \<and> selString (the (mSelector o')) \<noteq> selString (the (mSelector other))
      then False
      else if (mFields o' = None) \<noteq> (mFields other = None) then False
      else if mFields o' \<noteq> None \<and> fieldString (the (mFields o')) \<noteq> fieldString (the (mFields other))
      then False
      else True)"

definition objectMatcher_Match ::
  "(kobj \<Rightarrow> bool) \<Rightarrow> objectMatcher \<Rightarrow> string \<Rightarrow> string \<Rightarrow> kobj option \<Rightarrow> bool" where
  "objectMatcher_Match isFields o' ns name obj =
     (if mName o' \<noteq> [] then mName o' = name \<and> mNamespace o' = ns
      else if mNamespace o' \<noteq> [] \<and> mNamespace o' \<noteq> ns then False
      else if mSelector o' \<noteq> None \<or> mFields o' \<noteq> None
      then (case obj of
              None \<Rightarrow> False
            | Some obj \<Rightarrow>
                let selectorMatches = (case mSelector o' of None \<Rightarrow> True
                      | Some sel \<Rightarrow> selMatches sel (Labels obj));
                    fieldMatches' = (case mFields o' of None \<Rightarrow> True
                      | Some f \<Rightarrow> if isFields obj then fieldMatches f obj else True)
                in selectorMatches \<and> fieldMatches')
      else mNamespace o' = [] \<or> mNamespace o' = ns)"

lemma Match_exact: "mName m \<noteq> [] \<Longrightarrow>
    objectMatcher_Match isF m ns n obj \<longleftrightarrow> mName m = n \<and> mNamespace m = ns"
  by (simp add: objectMatcher_Match_def)

lemma Match_by_selector: "mName m = [] \<Longrightarrow>
    objectMatcher_Match isF m ns n obj \<longleftrightarrow> (mNamespace m = [] \<or> mNamespace m = ns) \<and>
      (mSelector m = None \<and> mFields m = None \<or> obj \<noteq> None) \<and>
      (\<forall>o' sel. obj = Some o' \<and> mSelector m = Some sel \<longrightarrow> selMatches sel (Labels o')) \<and>
      (\<forall>o' f. obj = Some o' \<and> mFields m = Some f \<and> isF o' \<longrightarrow> fieldMatches f o')"
  by (cases obj) (auto simp: objectMatcher_Match_def Let_def split: option.splits)

section \<open>Triggers\<close>

record triggerKey =
  tkName :: string
  tkNamespace :: string
  tkGVK :: gvk

record enqueueTarget =
  etKey :: string
  etGVK :: gvk

type_synonym matchers = "(gvk, (enqueueTarget, (string, objectMatcher) gomap) gomap) gomap"

record triggers =
  matchers :: matchers
  toTrigger :: "(triggerKey, kobj option) gomap"

definition register :: "gvk \<Rightarrow> string \<Rightarrow> gvk \<Rightarrow> objectMatcher \<Rightarrow> matchers \<Rightarrow> matchers" where
  "register g key targetGVK mr m =
     (let matcherKey = objectMatcher_String mr;
          target = \<lparr>etKey = key, etGVK = g\<rparr>;
          byTarget = (case map_of m targetGVK of None \<Rightarrow> [] | Some x \<Rightarrow> x);
          byKey = (case map_of byTarget target of None \<Rightarrow> [] | Some x \<Rightarrow> x);
          byKey = (if map_of byKey matcherKey = None then AList.update matcherKey mr byKey else byKey)
      in AList.update targetGVK (AList.update target byKey byTarget) m)"

text \<open>\<open>Trigger\<close> and \<open>UnregisterAndTrigger\<close>: the last seen object of a key, nil for a removed one.\<close>

definition Trigger :: "string \<Rightarrow> string \<Rightarrow> gvk \<Rightarrow> kobj option \<Rightarrow> triggers \<Rightarrow> triggers" where
  "Trigger name namespace g obj t =
     t\<lparr>toTrigger := AList.update \<lparr>tkName = name, tkNamespace = namespace, tkGVK = g\<rparr> obj (toTrigger t)\<rparr>"

definition UnregisterAndTrigger :: "string \<Rightarrow> string \<Rightarrow> gvk \<Rightarrow> triggers \<Rightarrow> triggers" where
  "UnregisterAndTrigger name namespace g t =
     t\<lparr>toTrigger := AList.update \<lparr>tkName = name, tkNamespace = namespace, tkGVK = g\<rparr> None (toTrigger t)\<rparr>"

text \<open>
  \<open>Register\<close>: nothing for an object wrapped by package untriggered; the kind of a list is the kind of
  its items. \<open>lookup\<close> is the backend's \<open>GVKForObject\<close>, \<open>watch\<close> the watcher's \<open>WatchGVK\<close> on the state
  \<open>s\<close> of the watcher. Result: the kind, whether it was registered, the error, the triggers and the state.
\<close>

definition Register ::
  "(kobj \<Rightarrow> err + gvk) \<Rightarrow> (gvk \<Rightarrow> 's \<Rightarrow> err option \<times> 's) \<Rightarrow> gvk \<Rightarrow> string \<Rightarrow> kobj \<Rightarrow> bool \<Rightarrow> bool
     \<Rightarrow> string \<Rightarrow> string \<Rightarrow> label_selector option \<Rightarrow> field_selector option \<Rightarrow> triggers \<Rightarrow> 's
     \<Rightarrow> (gvk option \<times> bool \<times> err option) \<times> triggers \<times> 's"
where
  "Register lookup watch sourceGVK key obj isWrapped isList namespace name selector fieldSel t s =
     (if isWrapped then ((None, False, None), t, s)
      else (case lookup obj of
              Inl err \<Rightarrow> ((None, False, Some err), t, s)
            | Inr g \<Rightarrow>
                let g = (if isList then g\<lparr>Kind := strings_TrimSuffix (Kind g) ''List''\<rparr> else g);
                    t = t\<lparr>matchers := register sourceGVK key g
                        \<lparr>mNamespace = namespace, mName = name, mSelector = selector, mFields = fieldSel\<rparr>
                        (matchers t)\<rparr>
                in (case watch g s of (err, s) \<Rightarrow> ((Some g, True, err), t, s))))"

section \<open>Processing what is pending\<close>

definition fire_one ::
  "(kobj \<Rightarrow> bool) \<Rightarrow> (triggerKey, kobj option) gomap \<Rightarrow> gvk \<Rightarrow> enqueueTarget \<Rightarrow> objectMatcher
     \<Rightarrow> enqueueTarget list" where
  "fire_one isFields pending targetGVK target mt =
     (if mName mt = []
      then [target. (key, obj) \<leftarrow> pending, tkGVK key = targetGVK \<and>
              objectMatcher_Match isFields mt (tkNamespace key) (tkName key) obj]
      else if map_of pending \<lparr>tkName = mName mt, tkNamespace = mNamespace mt, tkGVK = targetGVK\<rparr> \<noteq> None
      then [target] else [])"

definition target_of :: "triggerKey \<Rightarrow> enqueueTarget" where
  "target_of key = \<lparr>etKey = toKey (tkNamespace key) (tkName key), etGVK = tkGVK key\<rparr>"

definition removed_keys :: "(triggerKey, kobj option) gomap \<Rightarrow> triggerKey list" where
  "removed_keys pending = [key. (key, obj) \<leftarrow> pending, obj = None]"

definition delete_strings :: "(triggerKey, kobj option) gomap \<Rightarrow> gvk \<Rightarrow> string list" where
  "delete_strings pending targetGVK =
     [objectMatcher_String \<lparr>mNamespace = tkNamespace key, mName = tkName key, mSelector = None, mFields = None\<rparr>.
        key \<leftarrow> removed_keys pending, tkGVK key = targetGVK]"

text \<open>One kind: the deletes come after its matchers have fired.\<close>

definition process_gvk ::
  "(kobj \<Rightarrow> bool) \<Rightarrow> (triggerKey, kobj option) gomap \<Rightarrow> gvk \<Rightarrow> (enqueueTarget, (string, objectMatcher) gomap) gomap
     \<Rightarrow> enqueueTarget list \<times> nat \<times> (enqueueTarget, (string, objectMatcher) gomap) gomap" where
  "process_gvk isFields pending targetGVK byTarget =
     (let fired = concat (map (\<lambda>(target, byKey). concat (map (\<lambda>(_, mt).
                    fire_one isFields pending targetGVK target mt) byKey)) byTarget);
          checks = sum_list (map (\<lambda>(target, byKey). length byKey) byTarget);
          byTarget = fold (\<lambda>key m. AList.delete (target_of key) m) (removed_keys pending) byTarget;
          deleteKeys = delete_strings pending targetGVK
      in (fired, checks,
          if length deleteKeys > 0
          then map (\<lambda>(target, byKey). (target, fold AList.delete deleteKeys byKey)) byTarget
          else byTarget))"

definition triggers_process ::
  "(kobj \<Rightarrow> bool) \<Rightarrow> (triggerKey, kobj option) gomap \<Rightarrow> matchers
     \<Rightarrow> enqueueTarget list \<times> nat \<times> matchers" where
  "triggers_process isFields pending m =
     (concat (map (\<lambda>(g, byTarget). fst (process_gvk isFields pending g byTarget)) m),
      sum_list (map (\<lambda>(g, byTarget). fst (snd (process_gvk isFields pending g byTarget))) m),
      map (\<lambda>(g, byTarget). (g, snd (snd (process_gvk isFields pending g byTarget)))) m)"

section \<open>Registered matchers\<close>

definition registered :: "matchers \<Rightarrow> gvk \<Rightarrow> enqueueTarget \<Rightarrow> objectMatcher \<Rightarrow> bool" where
  "registered m g target mt \<longleftrightarrow>
     (\<exists>byTarget byKey s. (g, byTarget) \<in> set m \<and> (target, byKey) \<in> set byTarget \<and> (s, mt) \<in> set byKey)"

definition by_key_ok :: "(string, objectMatcher) gomap \<Rightarrow> bool" where
  "by_key_ok byKey \<longleftrightarrow> gomap_ok byKey \<and> (\<forall>s mt. (s, mt) \<in> set byKey \<longrightarrow> s = objectMatcher_String mt)"

definition by_target_ok :: "(enqueueTarget, (string, objectMatcher) gomap) gomap \<Rightarrow> bool" where
  "by_target_ok byTarget \<longleftrightarrow> gomap_ok byTarget \<and> (\<forall>t byKey. (t, byKey) \<in> set byTarget \<longrightarrow> by_key_ok byKey)"

definition matchers_ok :: "matchers \<Rightarrow> bool" where
  "matchers_ok m \<longleftrightarrow> gomap_ok m \<and> (\<forall>g byTarget. (g, byTarget) \<in> set m \<longrightarrow> by_target_ok byTarget)"

lemma fire_one_set:
  assumes "gomap_ok pending"
  shows "x \<in> set (fire_one isF pending g target mt) \<longleftrightarrow> x = target \<and>
    (\<exists>key obj. (key, obj) \<in> set pending \<and> tkGVK key = g \<and>
       objectMatcher_Match isF mt (tkNamespace key) (tkName key) obj)"
proof (cases "mName mt = []")
  case True
  then show ?thesis by (auto simp: fire_one_def)
next
  case False
  let ?k = "\<lparr>tkName = mName mt, tkNamespace = mNamespace mt, tkGVK = g\<rparr>"
  have eq: "tkGVK key = g \<and> mName mt = tkName key \<and> mNamespace mt = tkNamespace key \<longleftrightarrow> key = ?k" for key
    by (cases key) auto
  have "(\<exists>key obj. (key, obj) \<in> set pending \<and> tkGVK key = g \<and>
      objectMatcher_Match isF mt (tkNamespace key) (tkName key) obj) \<longleftrightarrow> (\<exists>obj. (?k, obj) \<in> set pending)"
    unfolding Match_exact [OF False] using eq by metis
  also have "\<dots> \<longleftrightarrow> map_of pending ?k \<noteq> None"
    unfolding not_None_eq map_of_mem_iff [OF assms] ..
  finally show ?thesis using False by (auto simp: fire_one_def)
qed

lemma process_gvk_fired:
  assumes "gomap_ok pending"
  shows "x \<in> set (fst (process_gvk isF pending g byTarget)) \<longleftrightarrow>
    (\<exists>byKey s mt key obj. (x, byKey) \<in> set byTarget \<and> (s, mt) \<in> set byKey \<and>
       (key, obj) \<in> set pending \<and> tkGVK key = g \<and>
       objectMatcher_Match isF mt (tkNamespace key) (tkName key) obj)"
  by (auto simp: process_gvk_def Let_def fire_one_set [OF assms]) blast+

lemma triggers_process_mem:
  assumes "gomap_ok pending"
  shows "target \<in> set (fst (triggers_process isF pending m)) \<longleftrightarrow>
    (\<exists>mt key obj. registered m (tkGVK key) target mt \<and> (key, obj) \<in> set pending \<and>
       objectMatcher_Match isF mt (tkNamespace key) (tkName key) obj)"
  by (auto simp: triggers_process_def registered_def process_gvk_fired [OF assms]) blast+

text \<open>C7: processing enqueues exactly the interested targets: a target is triggered if and only if it has a
  matcher, registered for the kind of some pending object, that matches the object. (The direct
  lookup of a named object gives what matching every pending object would give.)\<close>

theorem triggers_process_fires:
  assumes "gomap_ok pending"
  shows "target \<in> set (fst (triggers_process isF pending m)) \<longleftrightarrow>
    (\<exists>mt key obj. registered m (tkGVK key) target mt \<and> (key, obj) \<in> set pending \<and>
       objectMatcher_Match isF mt (tkNamespace key) (tkName key) obj)"
  by (rule triggers_process_mem [OF assms])

definition cm_gvk :: gvk where
  "cm_gvk = \<lparr>Group = [], Version = ''v1'', Kind = ''ConfigMap''\<rparr>"

definition named_matcher :: "string \<Rightarrow> string \<Rightarrow> objectMatcher" where
  "named_matcher ns n = \<lparr>mNamespace = ns, mName = n, mSelector = None, mFields = None\<rparr>"

definition example_matchers :: matchers where
  "example_matchers = register cm_gvk ''ns/app'' cm_gvk (named_matcher ''ns'' ''conf'') []"

lemma example_registered:
  "registered example_matchers cm_gvk \<lparr>etKey = ''ns/app'', etGVK = cm_gvk\<rparr> (named_matcher ''ns'' ''conf'')"
  by (auto simp: example_matchers_def register_def Let_def registered_def)

theorem triggers_process_fires_witness:
  "\<lparr>etKey = ''ns/app'', etGVK = cm_gvk\<rparr> \<in> set (fst (triggers_process (\<lambda>_. False)
     [(\<lparr>tkName = ''conf'', tkNamespace = ''ns'', tkGVK = cm_gvk\<rparr>, None)] example_matchers))"
proof -
  have "gomap_ok [(\<lparr>tkName = ''conf'', tkNamespace = ''ns'', tkGVK = cm_gvk\<rparr>, None :: kobj option)]" by simp
  from triggers_process_fires [OF this, where target = "\<lparr>etKey = ''ns/app'', etGVK = cm_gvk\<rparr>"
      and isF = "\<lambda>_. False" and m = example_matchers]
  show ?thesis
    using example_registered by (auto simp: named_matcher_def Match_exact)
qed

section \<open>What registering and removing change\<close>

text \<open>The stored maps as lookups.\<close>

definition by_target :: "matchers \<Rightarrow> gvk \<Rightarrow> (enqueueTarget, (string, objectMatcher) gomap) gomap" where
  "by_target m g = (case map_of m g of None \<Rightarrow> [] | Some x \<Rightarrow> x)"

definition by_key :: "matchers \<Rightarrow> gvk \<Rightarrow> enqueueTarget \<Rightarrow> (string, objectMatcher) gomap" where
  "by_key m g t = (case map_of (by_target m g) t of None \<Rightarrow> [] | Some x \<Rightarrow> x)"

lemma by_target_okI: "matchers_ok m \<Longrightarrow> by_target_ok (by_target m g)"
  by (auto simp: by_target_def matchers_ok_def by_target_ok_def split: option.splits dest: map_of_SomeD)

lemma by_key_okI: "matchers_ok m \<Longrightarrow> by_key_ok (by_key m g t)"
  using by_target_okI [of m g]
  by (auto simp: by_key_def by_target_ok_def by_key_ok_def split: option.splits dest: map_of_SomeD)

lemma registered_by_key:
  assumes ok: "matchers_ok m"
  shows "registered m g t mt \<longleftrightarrow> (\<exists>s. (s, mt) \<in> set (by_key m g t))"
proof -
  have m: "gomap_ok m" using ok by (simp add: matchers_ok_def)
  have bt: "map_of m g = Some byTarget \<Longrightarrow> gomap_ok byTarget" for byTarget
    using by_target_okI [OF ok, of g] by (simp add: by_target_def by_target_ok_def)
  have "registered m g t mt \<longleftrightarrow>
      (\<exists>byTarget byKey s. map_of m g = Some byTarget \<and> map_of byTarget t = Some byKey \<and> (s, mt) \<in> set byKey)"
    unfolding registered_def using map_of_mem_iff [OF m] map_of_mem_iff [OF bt] by metis
  then show ?thesis by (auto simp: by_key_def by_target_def split: option.splits)
qed

lemma registered_String: "matchers_ok m \<Longrightarrow> (s, mt) \<in> set (by_key m g t) \<Longrightarrow> s = objectMatcher_String mt"
  using by_key_okI by (simp add: by_key_ok_def)

lemma register_eq:
  "register g key tg mr m = (let t = \<lparr>etKey = key, etGVK = g\<rparr>; s = objectMatcher_String mr in
     AList.update tg (AList.update t
       (if map_of (by_key m tg t) s = None then AList.update s mr (by_key m tg t) else by_key m tg t)
       (by_target m tg)) m)"
  by (simp add: register_def Let_def by_key_def by_target_def)

lemma set_update_mem: "x \<in> set (AList.update k v m) \<Longrightarrow> x = (k, v) \<or> x \<in> set m"
  using set_update_subset by fastforce

lemma by_key_ok_update:
  "by_key_ok m \<Longrightarrow> s = objectMatcher_String mt \<Longrightarrow> by_key_ok (AList.update s mt m)"
  by (auto simp: by_key_ok_def dest!: set_update_mem)

lemma by_target_ok_update: "by_target_ok m \<Longrightarrow> by_key_ok b \<Longrightarrow> by_target_ok (AList.update t b m)"
  by (auto simp: by_target_ok_def dest!: set_update_mem)

lemma matchers_ok_update: "matchers_ok m \<Longrightarrow> by_target_ok b \<Longrightarrow> matchers_ok (AList.update g b m)"
  by (auto simp: matchers_ok_def dest!: set_update_mem)

lemma register_ok: "matchers_ok m \<Longrightarrow> matchers_ok (register g key tg mr m)"
  by (auto simp: register_eq Let_def intro!: matchers_ok_update by_target_ok_update by_key_ok_update
      by_key_okI by_target_okI)

lemma update_present: "map_of m k = Some v \<Longrightarrow> AList.update k v m = m"
  by (induction m) (auto split: if_splits)

lemma update_absent: "map_of m k = None \<Longrightarrow> AList.update k v m = m @ [(k, v)]"
  by (induction m) (auto split: if_splits)

lemma by_key_register:
  "by_key (register g key tg mr m) tg' t = (if tg' = tg \<and> t = \<lparr>etKey = key, etGVK = g\<rparr> then
     (if map_of (by_key m tg t) (objectMatcher_String mr) = None
      then AList.update (objectMatcher_String mr) mr (by_key m tg t) else by_key m tg t)
     else by_key m tg' t)"
  by (simp add: register_eq Let_def by_key_def by_target_def)

lemma register_keeps_mono:
  "matchers_ok m \<Longrightarrow> registered m g' t mt \<Longrightarrow> registered (register g key tg mr m) g' t mt"
  by (auto simp: registered_by_key register_ok by_key_register update_absent)

text \<open>A registration is never lost or duplicated: after \<open>register\<close> the target has a matcher printing
  like the given one for that kind, registering again changes nothing, and every matcher registered
  before is still there.\<close>

theorem register_keeps:
  fixes m :: matchers and g tg :: gvk and key :: string and mr :: objectMatcher
  assumes "matchers_ok m"
  defines "m' \<equiv> register g key tg mr m"
  shows "(\<exists>mt. registered m' tg \<lparr>etKey = key, etGVK = g\<rparr> mt \<and> objectMatcher_String mt = objectMatcher_String mr) \<and>
    map_of (register g key tg mr m') = map_of m' \<and>
    (\<forall>g' t mt. registered m g' t mt \<longrightarrow> registered m' g' t mt)"
proof -
  let ?t = "\<lparr>etKey = key, etGVK = g\<rparr>" and ?s = "objectMatcher_String mr"
  have ok': "matchers_ok m'" using register_ok [OF assms(1)] by (simp add: m'_def)
  have hit: "map_of (by_key m' tg ?t) ?s \<noteq> None" by (simp add: m'_def by_key_register)
  then obtain mt where mt: "map_of (by_key m' tg ?t) ?s = Some mt" by auto
  have "registered m' tg ?t mt \<and> objectMatcher_String mt = ?s"
    using registered_String [OF ok'] mt registered_by_key [OF ok'] by (fastforce dest: map_of_SomeD)
  moreover have "map_of (register g key tg mr m') = map_of m'"
  proof -
    have "map_of m' tg = Some (by_target m' tg)" "map_of (by_target m' tg) ?t = Some (by_key m' tg ?t)"
      by (simp_all add: m'_def register_eq Let_def by_key_def by_target_def)
    moreover from this have "AList.update ?t (by_key m' tg ?t) (by_target m' tg) = by_target m' tg"
      by (intro update_present)
    ultimately show ?thesis
      unfolding register_eq [of _ _ _ _ m'] Let_def if_not_P [OF hit] by (simp add: fun_upd_idem)
  qed
  moreover have "registered m g' t mt \<Longrightarrow> registered m' g' t mt" for g' t mt
    using register_keeps_mono [OF assms(1)] by (simp add: m'_def)
  ultimately show ?thesis by blast
qed

theorem register_keeps_witness:
  "registered (register cm_gvk ''ns/b'' cm_gvk (named_matcher ''ns'' ''other'') example_matchers) cm_gvk
     \<lparr>etKey = ''ns/app'', etGVK = cm_gvk\<rparr> (named_matcher ''ns'' ''conf'')"
proof -
  have "matchers_ok []" by (simp add: matchers_ok_def)
  then have "matchers_ok example_matchers" unfolding example_matchers_def by (rule register_ok)
  from register_keeps [OF this] example_registered show ?thesis by blast
qed

lemma mem_fold_delete:
  "x \<in> set (fold (\<lambda>key m. AList.delete (f key) m) ks m) \<longleftrightarrow> x \<in> set m \<and> fst x \<notin> f ` set ks"
proof (induction ks arbitrary: m)
  case Nil
  then show ?case by simp
next
  case (Cons k ks)
  then show ?case by (auto simp: AList.delete_eq)
qed

lemma gomap_ok_fold_delete:
  "gomap_ok m \<Longrightarrow> gomap_ok (fold (\<lambda>key m. AList.delete (f key) m) ks m)"
  by (induction ks arbitrary: m) auto

lemma process_gvk_map:
  "snd (snd (process_gvk isF pending g byTarget)) =
     map (\<lambda>(t, b). (t, fold AList.delete (delete_strings pending g) b))
       (fold (\<lambda>key m. AList.delete (target_of key) m) (removed_keys pending) byTarget)"
  by (auto simp: process_gvk_def Let_def)

lemma process_matchers:
  "snd (snd (triggers_process isF pending m)) =
     map (\<lambda>(g, byTarget). (g, map (\<lambda>(t, b). (t, fold AList.delete (delete_strings pending g) b))
       (fold (\<lambda>key m. AList.delete (target_of key) m) (removed_keys pending) byTarget))) m"
  by (simp add: triggers_process_def process_gvk_map)

lemma mem_fold_delete_id: "(k, v) \<in> set (fold AList.delete ks m) \<longleftrightarrow> (k, v) \<in> set m \<and> k \<notin> set ks"
  using mem_fold_delete [of "(k, v)" id ks m] by simp

lemma gomap_ok_fold_delete_id: "gomap_ok m \<Longrightarrow> gomap_ok (fold AList.delete ks m)"
  using gomap_ok_fold_delete [of m id ks] by simp

lemma mem_map_snd: "(k, v') \<in> set (map (\<lambda>(k, v). (k, h k v)) xs) \<longleftrightarrow> (\<exists>v. (k, v) \<in> set xs \<and> v' = h k v)"
  by auto

lemma keys_map_snd: "map fst (map (\<lambda>(k, v). (k, h k v)) xs) = map fst xs"
  by (induction xs) auto

lemma registered_process:
  "registered (snd (snd (triggers_process isF pending m))) g t mt \<longleftrightarrow>
     t \<notin> target_of ` set (removed_keys pending) \<and>
     (\<exists>byTarget byKey s. (g, byTarget) \<in> set m \<and> (t, byKey) \<in> set byTarget \<and> (s, mt) \<in> set byKey \<and>
        s \<notin> set (delete_strings pending g))"
proof -
  let ?f = "\<lambda>bt. map (\<lambda>(t, b). (t, fold AList.delete (delete_strings pending g) b))
       (fold (\<lambda>key m. AList.delete (target_of key) m) (removed_keys pending) bt)"
  have inner: "(t, byKey) \<in> set (?f bt) \<longleftrightarrow> (\<exists>b. (t, b) \<in> set bt \<and> t \<notin> target_of ` set (removed_keys pending) \<and>
      byKey = fold AList.delete (delete_strings pending g) b)" for bt byKey
    unfolding mem_map_snd mem_fold_delete by auto
  have "registered (snd (snd (triggers_process isF pending m))) g t mt \<longleftrightarrow>
      (\<exists>bt byKey s. (g, bt) \<in> set m \<and> (t, byKey) \<in> set (?f bt) \<and> (s, mt) \<in> set byKey)"
    unfolding registered_def process_matchers mem_map_snd [where xs = m] by blast
  also have "\<dots> \<longleftrightarrow> t \<notin> target_of ` set (removed_keys pending) \<and>
      (\<exists>bt b s. (g, bt) \<in> set m \<and> (t, b) \<in> set bt \<and> (s, mt) \<in> set b \<and> s \<notin> set (delete_strings pending g))"
    unfolding inner using mem_fold_delete_id by metis
  finally show ?thesis .
qed

lemma by_key_ok_delete: "by_key_ok b \<Longrightarrow> by_key_ok (fold AList.delete ds b)"
  by (simp add: by_key_ok_def mem_fold_delete_id gomap_ok_fold_delete_id)

lemma by_target_ok_process:
  "by_target_ok bt \<Longrightarrow> by_target_ok (map (\<lambda>(t, b). (t, fold AList.delete ds b))
     (fold (\<lambda>key m. AList.delete (target_of key) m) ks bt))"
  unfolding by_target_ok_def keys_map_snd mem_map_snd mem_fold_delete
  by (auto simp: gomap_ok_fold_delete by_key_ok_delete)

lemma process_ok: "matchers_ok m \<Longrightarrow> matchers_ok (snd (snd (triggers_process isF pending m)))"
  unfolding process_matchers matchers_ok_def keys_map_snd mem_map_snd by (auto intro: by_target_ok_process)

lemma removed_keys_mem: "key \<in> set (removed_keys pending) \<longleftrightarrow> (key, None) \<in> set pending"
  by (auto simp: removed_keys_def split: if_splits)

lemma registered_process_iff:
  assumes "matchers_ok m"
  shows "registered (snd (snd (triggers_process isF pending m))) g t mt \<longleftrightarrow>
    registered m g t mt \<and>
    (\<forall>key. (key, None) \<in> set pending \<longrightarrow> t \<noteq> target_of key) \<and>
    (\<forall>key. (key, None) \<in> set pending \<and> tkGVK key = g \<longrightarrow>
       objectMatcher_String mt \<noteq> objectMatcher_String
         \<lparr>mNamespace = tkNamespace key, mName = tkName key, mSelector = None, mFields = None\<rparr>)"
proof -
  have "(g, byTarget) \<in> set m \<Longrightarrow> (t, byKey) \<in> set byTarget \<Longrightarrow> (s, mt) \<in> set byKey \<Longrightarrow>
      s = objectMatcher_String mt" for byTarget byKey s
    using assms by (simp add: matchers_ok_def by_target_ok_def by_key_ok_def)
  then have "(\<exists>byTarget byKey s. (g, byTarget) \<in> set m \<and> (t, byKey) \<in> set byTarget \<and> (s, mt) \<in> set byKey \<and>
        s \<notin> set (delete_strings pending g)) \<longleftrightarrow>
      registered m g t mt \<and> objectMatcher_String mt \<notin> set (delete_strings pending g)"
    unfolding registered_def by metis
  then show ?thesis
    unfolding registered_process by (auto simp: delete_strings_def removed_keys_mem image_iff)
qed

text \<open>A removed object is forgotten as a target and as a named source, and nothing else is: after
  processing, a matcher is registered exactly if it was before, its target is not a removed object, and it
  is not the matcher naming a removed object of its kind.\<close>

theorem triggers_process_unregisters:
  assumes "matchers_ok m"
  shows "registered (snd (snd (triggers_process isF pending m))) g t mt \<longleftrightarrow>
    registered m g t mt \<and>
    (\<forall>key. (key, None) \<in> set pending \<longrightarrow> t \<noteq> target_of key) \<and>
    (\<forall>key. (key, None) \<in> set pending \<and> tkGVK key = g \<longrightarrow>
       objectMatcher_String mt \<noteq> objectMatcher_String
         \<lparr>mNamespace = tkNamespace key, mName = tkName key, mSelector = None, mFields = None\<rparr>)"
  by (rule registered_process_iff [OF assms])

theorem triggers_process_unregisters_witness:
  "\<not> registered (snd (snd (triggers_process (\<lambda>_. False)
     [(\<lparr>tkName = ''app'', tkNamespace = ''ns'', tkGVK = cm_gvk\<rparr>, None)] example_matchers)))
     cm_gvk \<lparr>etKey = ''ns/app'', etGVK = cm_gvk\<rparr> (named_matcher ''ns'' ''conf'')"
proof -
  have "matchers_ok []" by (simp add: matchers_ok_def)
  then have "matchers_ok example_matchers" unfolding example_matchers_def by (rule register_ok)
  from triggers_process_unregisters [OF this] show ?thesis
    by (simp add: target_of_def toKey_def)
qed

section \<open>The dump\<close>

text \<open>\<open>Dump\<close> copies the registrations into maps of its own, the matchers under their texts, and encodes the copy;
  \<open>marshal\<close> and \<open>marshalIndent\<close> are the library's JSON encoders, \<open>objectMatcher_MarshalJSON\<close> the fields of a
  matcher that they are given.\<close>

definition enqueueTarget_MarshalText :: "(gvk \<Rightarrow> string) \<Rightarrow> enqueueTarget \<Rightarrow> string" where
  "enqueueTarget_MarshalText gvkText et = gvkText (etGVK et) @ '': '' @ etKey et"

definition objectMatcher_MarshalJSON :: "objectMatcher \<Rightarrow> (string, json) gomap" where
  "objectMatcher_MarshalJSON o' =
     [(''name'', JStr (mName o')), (''namespace'', JStr (mNamespace o'))] @
     (case mSelector o' of None \<Rightarrow> [] | Some sel \<Rightarrow> [(''label selector'', JStr (selString sel))]) @
     (case mFields o' of None \<Rightarrow> [] | Some f \<Rightarrow> [(''field selector'', JStr (fieldString f))])"

definition dump_targets ::
  "(string, objectMatcher) gomap \<Rightarrow> (string, objectMatcher) gomap" where
  "dump_targets byKey = fold (\<lambda>(s, mt) m. AList.update (objectMatcher_String mt) mt m) byKey []"

definition dump_matchers :: "matchers \<Rightarrow> matchers" where
  "dump_matchers m = map (\<lambda>(g, byTarget). (g, map (\<lambda>(t, byKey). (t, dump_targets byKey)) byTarget)) m"

definition Dump :: "(matchers \<Rightarrow> err + string) \<Rightarrow> (matchers \<Rightarrow> err + string) \<Rightarrow> bool \<Rightarrow> triggers \<Rightarrow> err + string" where
  "Dump marshal marshalIndent indent t =
     (if \<not> indent then marshal (dump_matchers (matchers t)) else marshalIndent (dump_matchers (matchers t)))"

definition DumpTriggers :: "(matchers \<Rightarrow> err + string) \<Rightarrow> (matchers \<Rightarrow> err + string) \<Rightarrow> bool \<Rightarrow> triggers \<Rightarrow> err + string" where
  "DumpTriggers marshal marshalIndent indent t =
     (case Dump marshal marshalIndent indent t of
        Inl err \<Rightarrow> Inl (Wrap ''failed to dump triggers: '' err)
      | Inr b \<Rightarrow> Inr b)"

lemma fold_update_fresh:
  "distinct (map fst xs @ map fst m) \<Longrightarrow> fold (\<lambda>(k, v) m. AList.update k v m) xs m = m @ xs"
proof (induction xs arbitrary: m)
  case Nil
  then show ?case by simp
next
  case (Cons x xs)
  obtain k v where x: "x = (k, v)" by fastforce
  have fresh: "k \<notin> fst ` set m \<Longrightarrow> AList.update k v m = m @ [(k, v)]" for m :: "('a \<times> 'b) list"
    by (induction m) auto
  have new: "AList.update k v m = m @ [(k, v)]" by (rule fresh) (use Cons.prems x in auto)
  have "distinct (map fst xs @ map fst (m @ [(k, v)]))" using Cons.prems x by auto
  from Cons.IH [OF this] show ?case by (simp add: x new)
qed

lemma dump_targets_id: "by_key_ok byKey \<Longrightarrow> dump_targets byKey = byKey"
proof -
  assume ok: "by_key_ok byKey"
  have "dump_targets byKey = fold (\<lambda>(k, v) m. AList.update k v m) byKey []"
    unfolding dump_targets_def using ok by (intro fold_cong) (auto simp: by_key_ok_def)
  with ok fold_update_fresh [of byKey "[]"] show ?thesis by (simp add: by_key_ok_def)
qed

text \<open>The dump tells the truth: what is encoded is what is registered.\<close>

theorem dump_matchers_id:
  assumes "matchers_ok m"
  shows "dump_matchers m = m"
proof -
  have "map (\<lambda>(t, byKey). (t, dump_targets byKey)) b = b" if "by_target_ok b" for b
    using that by (intro map_idI) (auto simp: by_target_ok_def dump_targets_id)
  with assms show ?thesis
    unfolding dump_matchers_def by (intro map_idI) (auto simp: matchers_ok_def)
qed

end
