(* ===== verification/Router_Client.thy ===== *)
theory Router_Client
  imports Triggers Kube_Examples
begin

text \<open>
  pkg/router/client.go with the trigger registry and \<open>WatchGVK\<close> of handler.go: the client a handler is
  given. Every access first registers the handler's key as interested in what is accessed, then
  goes to the backend. The operations of the backend that the client forwards to are the fields of
  \<open>backend\<close>; \<open>rstate\<close> is what a request shares with its handler set: the world, the triggers, the kinds
  being watched, and the kinds this request has asked about.
\<close>

record 'w backend = "'w kube" +
  bUpdate :: "'w \<Rightarrow> kobj \<Rightarrow> err option \<times> kobj \<times> 'w"
  bStatusUpdate :: "'w \<Rightarrow> kobj \<Rightarrow> err option \<times> kobj \<times> 'w"
  bList :: "'w \<Rightarrow> gvk \<Rightarrow> string \<Rightarrow> label_selector option \<Rightarrow> field_selector option \<Rightarrow> (err + kobj list) \<times> 'w"
  bDeleteAllOf :: "'w \<Rightarrow> kobj \<Rightarrow> string \<Rightarrow> label_selector option \<Rightarrow> field_selector option \<Rightarrow> err option \<times> 'w"
  bTrigger :: "'w \<Rightarrow> gvk \<Rightarrow> string \<Rightarrow> int \<Rightarrow> err option \<times> 'w"
  bWatcher :: "'w \<Rightarrow> gvk \<Rightarrow> err option \<times> 'w"
  bApply :: "('w \<Rightarrow> kobj \<Rightarrow> err option \<times> 'w) option"  \<comment> \<open>\<open>None\<close>: the client has no \<open>Apply\<close>\<close>
  bIsFields :: "kobj \<Rightarrow> bool"

text \<open>What is passed as a \<open>client.Object\<close>: an object, perhaps wrapped by package untriggered, perhaps a list.\<close>

record robj =
  obj_of :: kobj
  IsWrapped :: bool
  IsList :: bool

definition plain_obj :: "kobj \<Rightarrow> robj" where
  "plain_obj o' = \<lparr>obj_of = o', IsWrapped = False, IsList = False\<rparr>"

record 'w rstate =
  rworld :: 'w
  rtriggers :: triggers
  rwatching :: "(gvk, bool) gomap"
  rgvks :: "(gvk, bool) gomap"

text \<open>Whose handler is running: \<open>triggerRegistry\<close>'s \<open>gvk\<close> and \<open>key\<close>.\<close>

record registrant =
  regGVK :: gvk
  regKey :: string

section \<open>Watching kinds\<close>

fun watch_each ::
  "('w, 'a) backend_scheme \<Rightarrow> gvk list \<Rightarrow> (gvk, bool) gomap \<times> 'w \<Rightarrow> err option list \<times> (gvk, bool) gomap \<times> 'w"
where
  "watch_each B [] (wt, w) = ([], wt, w)"
| "watch_each B (g # gs) (wt, w) =
     (if map_of wt g = Some True then watch_each B gs (wt, w)
      else (case bWatcher B w g of
              (None, w) \<Rightarrow> watch_each B gs (AList.update g True wt, w)
            | (Some err, w) \<Rightarrow>
                (case watch_each B gs (wt, w) of (errs, s) \<Rightarrow> (Some err # errs, s))))"

definition WatchGVK ::
  "('w, 'a) backend_scheme \<Rightarrow> gvk list \<Rightarrow> 'w rstate \<Rightarrow> err option \<times> 'w rstate" where
  "WatchGVK B gvks rs =
     (case watch_each B gvks (rwatching rs, rworld rs) of
        (watchErrs, wt, w) \<Rightarrow> (NewErrors watchErrs, rs\<lparr>rwatching := wt, rworld := w\<rparr>))"

definition triggerRegistry_Watch ::
  "('w, 'a) backend_scheme \<Rightarrow> registrant \<Rightarrow> robj \<Rightarrow> string \<Rightarrow> string \<Rightarrow> label_selector option
     \<Rightarrow> field_selector option \<Rightarrow> 'w rstate \<Rightarrow> err option \<times> 'w rstate" where
  "triggerRegistry_Watch B t obj namespace name sel fieldSel rs =
     (case Register (gvkFor B) (\<lambda>g rs. WatchGVK B [g] rs) (regGVK t) (regKey t)
             (obj_of obj) (IsWrapped obj) (IsList obj) namespace name sel fieldSel (rtriggers rs) rs of
        ((g, ok, err), tr, rs) \<Rightarrow>
          let rs = rs\<lparr>rtriggers := tr\<rparr> in
          (case err of
             Some err \<Rightarrow> (Some err, rs)
           | None \<Rightarrow> (None, if ok then rs\<lparr>rgvks := AList.update (the g) True (rgvks rs)\<rparr> else rs)))"

section \<open>The operations\<close>

text \<open>\<open>if err := registry.Watch(...); err != nil { return err }\<close>, then the call on the backend.\<close>

definition watched ::
  "('w, 'a) backend_scheme \<Rightarrow> registrant \<Rightarrow> robj \<Rightarrow> string \<Rightarrow> string \<Rightarrow> label_selector option
     \<Rightarrow> field_selector option \<Rightarrow> ('w \<Rightarrow> (err + 'r) \<times> 'w) \<Rightarrow> 'w rstate \<Rightarrow> (err + 'r) \<times> 'w rstate" where
  "watched B t obj ns name sel fieldSel call rs =
     (case triggerRegistry_Watch B t obj ns name sel fieldSel rs of
        (Some err, rs) \<Rightarrow> (Inl err, rs)
      | (None, rs) \<Rightarrow> (case call (rworld rs) of (r, w) \<Rightarrow> (r, rs\<lparr>rworld := w\<rparr>)))"

abbreviation on_object ::
  "('w, 'a) backend_scheme \<Rightarrow> registrant \<Rightarrow> robj \<Rightarrow> ('w \<Rightarrow> (err + 'r) \<times> 'w) \<Rightarrow> 'w rstate
     \<Rightarrow> (err + 'r) \<times> 'w rstate" where
  "on_object B t obj call rs \<equiv>
     watched B t obj (Namespace (obj_of obj)) (Name (obj_of obj)) None None call rs"

text \<open>An answer that is an error or the object as the backend leaves it.\<close>

definition obj_result :: "err option \<times> kobj \<times> 'w \<Rightarrow> (err + kobj) \<times> 'w" where
  "obj_result r = (case r of (None, o', w) \<Rightarrow> (Inr o', w) | (Some e, o', w) \<Rightarrow> (Inl e, w))"

definition unit_result :: "err option \<times> 'w \<Rightarrow> (err + unit) \<times> 'w" where
  "unit_result r = (case r of (None, w) \<Rightarrow> (Inr (), w) | (Some e, w) \<Rightarrow> (Inl e, w))"

definition writer_DeleteAllOf ::
  "('w, 'a) backend_scheme \<Rightarrow> registrant \<Rightarrow> robj \<Rightarrow> string \<Rightarrow> label_selector option
     \<Rightarrow> field_selector option \<Rightarrow> 'w rstate \<Rightarrow> (err + unit) \<times> 'w rstate" where
  "writer_DeleteAllOf B t obj ns sel fieldSel rs =
     watched B t obj ns [] sel fieldSel
       (\<lambda>w. unit_result (bDeleteAllOf B w (obj_of obj) ns sel fieldSel)) rs"

definition writer_Delete ::
  "('w, 'a) backend_scheme \<Rightarrow> registrant \<Rightarrow> robj \<Rightarrow> gvk \<Rightarrow> 'w rstate \<Rightarrow> (err + unit) \<times> 'w rstate" where
  "writer_Delete B t obj g rs = on_object B t obj (\<lambda>w. unit_result (clDelete B w g (key_of (obj_of obj)))) rs"

definition writer_Patch ::
  "('w, 'a) backend_scheme \<Rightarrow> registrant \<Rightarrow> robj \<Rightarrow> patchType \<Rightarrow> string \<Rightarrow> 'w rstate
     \<Rightarrow> (err + kobj) \<times> 'w rstate" where
  "writer_Patch B t obj pt patch rs = on_object B t obj (\<lambda>w. obj_result (clPatch B w (obj_of obj) pt patch)) rs"

definition writer_Update ::
  "('w, 'a) backend_scheme \<Rightarrow> registrant \<Rightarrow> robj \<Rightarrow> 'w rstate \<Rightarrow> (err + kobj) \<times> 'w rstate" where
  "writer_Update B t obj rs = on_object B t obj (\<lambda>w. obj_result (bUpdate B w (obj_of obj))) rs"

text \<open>
  For an object without a name (the server generates one) the watch is in a deferred function that runs
  after \<open>Create\<close>, with the object as \<open>Create\<close> left it, and replaces the error. Result: error and object.
\<close>

definition writer_Create ::
  "('w, 'a) backend_scheme \<Rightarrow> registrant \<Rightarrow> robj \<Rightarrow> 'w rstate \<Rightarrow> (err option \<times> kobj) \<times> 'w rstate" where
  "writer_Create B t obj rs =
     (if Name (obj_of obj) = []
      then (case clCreate B (rworld rs) (obj_of obj) of
              (err, o', w) \<Rightarrow>
                let rs = rs\<lparr>rworld := w\<rparr> in
                if err \<noteq> None
                then (case triggerRegistry_Watch B t (obj\<lparr>obj_of := o'\<rparr>) (Namespace o') (Name o') None None rs of
                        (err, rs) \<Rightarrow> ((err, o'), rs))
                else ((err, o'), rs))
      else (case triggerRegistry_Watch B t obj (Namespace (obj_of obj)) (Name (obj_of obj)) None None rs of
              (Some err, rs) \<Rightarrow> ((Some err, obj_of obj), rs)
            | (None, rs) \<Rightarrow>
                (case clCreate B (rworld rs) (obj_of obj) of
                   (err, o', w) \<Rightarrow> ((err, o'), rs\<lparr>rworld := w\<rparr>))))"

text \<open>\<open>Apply\<close>: a configuration that is not a \<open>client.Object\<close> (\<open>isObj\<close> false) is not watched.\<close>

definition writer_Apply ::
  "('w, 'a) backend_scheme \<Rightarrow> registrant \<Rightarrow> robj \<Rightarrow> bool \<Rightarrow> 'w rstate \<Rightarrow> (err + unit) \<times> 'w rstate" where
  "writer_Apply B t obj isObj rs =
     (case (if isObj then triggerRegistry_Watch B t obj (Namespace (obj_of obj)) (Name (obj_of obj)) None None rs
            else (None, rs)) of
        (Some err, rs) \<Rightarrow> (Inl err, rs)
      | (None, rs) \<Rightarrow>
          (case bApply B of
             Some call \<Rightarrow> (case unit_result (call (rworld rs) (obj_of obj)) of (r, w) \<Rightarrow> (r, rs\<lparr>rworld := w\<rparr>))
           | None \<Rightarrow> (Inl (Err ''underlying client does not support Apply operation''), rs)))"

text \<open>The operations of \<open>subResourceClient\<close>; \<open>call\<close> is the one of the wrapped reader or writer.\<close>

definition subResource_op ::
  "('w, 'a) backend_scheme \<Rightarrow> registrant \<Rightarrow> robj \<Rightarrow> ('w \<Rightarrow> kobj \<Rightarrow> err option \<times> kobj \<times> 'w) \<Rightarrow> 'w rstate
     \<Rightarrow> (err + kobj) \<times> 'w rstate" where
  "subResource_op B t obj call rs = on_object B t obj (\<lambda>w. obj_result (call w (obj_of obj))) rs"

definition Status_Update ::
  "('w, 'a) backend_scheme \<Rightarrow> registrant \<Rightarrow> robj \<Rightarrow> 'w rstate \<Rightarrow> (err + kobj) \<times> 'w rstate" where
  "Status_Update B t obj rs = subResource_op B t obj (bStatusUpdate B) rs"

text \<open>\<open>isObj\<close>: the configuration is a \<open>client.Object\<close>; \<open>applier\<close> is \<open>None\<close> when the writer has no \<open>Apply\<close>.\<close>

definition subResource_Apply ::
  "('w, 'a) backend_scheme \<Rightarrow> registrant \<Rightarrow> robj \<Rightarrow> bool \<Rightarrow> ('w \<Rightarrow> kobj \<Rightarrow> err option \<times> 'w) option \<Rightarrow> 'w rstate
     \<Rightarrow> (err + unit) \<times> 'w rstate" where
  "subResource_Apply B t obj isObj applier rs =
     (case (if isObj then triggerRegistry_Watch B t obj (Namespace (obj_of obj)) (Name (obj_of obj)) None None rs
            else (None, rs)) of
        (Some err, rs) \<Rightarrow> (Inl err, rs)
      | (None, rs) \<Rightarrow>
          (case applier of
             Some call \<Rightarrow> (case unit_result (call (rworld rs) (obj_of obj)) of (r, w) \<Rightarrow> (r, rs\<lparr>rworld := w\<rparr>))
           | None \<Rightarrow> (Inl (Err ''underlying SubResourceWriter does not support Apply operation''), rs)))"

definition reader_Get ::
  "('w, 'a) backend_scheme \<Rightarrow> registrant \<Rightarrow> robj \<Rightarrow> gvk \<Rightarrow> ObjectKey \<Rightarrow> 'w rstate
     \<Rightarrow> (err + kobj) \<times> 'w rstate" where
  "reader_Get B t obj g key rs =
     watched B t obj (KeyNamespace key) (KeyName key) None None
       (\<lambda>w. clGet B w g (GoType (obj_of obj)) key) rs"

definition reader_List ::
  "('w, 'a) backend_scheme \<Rightarrow> registrant \<Rightarrow> robj \<Rightarrow> gvk \<Rightarrow> string \<Rightarrow> label_selector option
     \<Rightarrow> field_selector option \<Rightarrow> 'w rstate \<Rightarrow> (err + kobj list) \<times> 'w rstate" where
  "reader_List B t obj g ns sel fieldSel rs =
     watched B t obj ns [] sel fieldSel (\<lambda>w. bList B w g ns sel fieldSel) rs"

section \<open>Properties\<close>

lemma watch_each_frame:
  "watch_each B gs (wt, w) = (errs, wt', w') \<Longrightarrow>
     (\<forall>g. map_of wt g = Some True \<longrightarrow> map_of wt' g = Some True) \<and>
     (NewErrors errs = None \<longrightarrow> (\<forall>g \<in> set gs. map_of wt' g = Some True))"
proof (induction gs arbitrary: wt w errs)
  case Nil
  then show ?case by simp
next
  case (Cons g gs)
  show ?case
  proof (cases "map_of wt g = Some True")
    case True
    with Cons show ?thesis by simp
  next
    case False
    obtain e w1 where w1: "bWatcher B w g = (e, w1)" by fastforce
    show ?thesis
    proof (cases e)
      case None
      with Cons.prems w1 False have "watch_each B gs (AList.update g True wt, w1) = (errs, wt', w')" by simp
      from Cons.IH [OF this] show ?thesis by auto
    next
      case (Some x)
      with Cons.prems w1 False obtain errs' where
        "watch_each B gs (wt, w1) = (errs', wt', w')" "errs = Some x # errs'"
        by (auto split: prod.splits)
      with Cons.IH [of wt w1 errs'] show ?thesis by (auto simp: NewErrors_None_iff)
    qed
  qed
qed

lemma WatchGVK_frame:
  assumes "WatchGVK B gs rs = (e, rs')"
  shows "rtriggers rs' = rtriggers rs \<and> rgvks rs' = rgvks rs \<and>
    (\<forall>g. map_of (rwatching rs) g = Some True \<longrightarrow> map_of (rwatching rs') g = Some True) \<and>
    (e = None \<longrightarrow> (\<forall>g \<in> set gs. map_of (rwatching rs') g = Some True))"
  using assms watch_each_frame [of B gs "rwatching rs" "rworld rs"]
  by (auto simp: WatchGVK_def split: prod.splits)

definition item_kind :: "robj \<Rightarrow> gvk \<Rightarrow> gvk" where
  "item_kind obj g = (if IsList obj then g\<lparr>Kind := strings_TrimSuffix (Kind g) ''List''\<rparr> else g)"

lemma triggerRegistry_Watch_ok:
  assumes "triggerRegistry_Watch B t obj ns n sel fs rs = (None, rs')"
    and "\<not> IsWrapped obj" and "gvkFor B (obj_of obj) = Inr g"
  shows "matchers (rtriggers rs') = register (regGVK t) (regKey t) (item_kind obj g)
      \<lparr>mNamespace = ns, mName = n, mSelector = sel, mFields = fs\<rparr> (matchers (rtriggers rs))"
    and "toTrigger (rtriggers rs') = toTrigger (rtriggers rs)"
    and "map_of (rwatching rs') (item_kind obj g) = Some True"
    and "map_of (rgvks rs') (item_kind obj g) = Some True"
  using assms
  by (auto simp: triggerRegistry_Watch_def Register_def item_kind_def Let_def
      split: prod.splits option.splits if_splits dest!: WatchGVK_frame)

lemma triggerRegistry_Watch_wrapped:
  "IsWrapped obj \<Longrightarrow> triggerRegistry_Watch B t obj ns n sel fs rs = (None, rs)"
  by (simp add: triggerRegistry_Watch_def Register_def)

lemma register_has:
  assumes "matchers_ok m"
  shows "\<exists>mt. registered (register g key tg mr m) tg \<lparr>etKey = key, etGVK = g\<rparr> mt \<and>
    objectMatcher_String mt = objectMatcher_String mr"
proof -
  let ?m = "register g key tg mr m" and ?t = "\<lparr>etKey = key, etGVK = g\<rparr>"
  obtain mt where mt: "map_of (by_key ?m tg ?t) (objectMatcher_String mr) = Some mt"
    by (cases "map_of (by_key m tg ?t) (objectMatcher_String mr)") (auto simp: by_key_register)
  then have mem: "(objectMatcher_String mr, mt) \<in> set (by_key ?m tg ?t)" by (rule map_of_SomeD)
  have ok: "matchers_ok ?m" by (rule register_ok [OF assms])
  have "registered ?m tg ?t mt" unfolding registered_by_key [OF ok] using mem by blast
  with registered_String [OF ok mem] show ?thesis by metis
qed

text \<open>
  \<open>subscribed\<close>: between \<open>rs\<close> and \<open>rs1\<close> the handler of \<open>t\<close> has been subscribed to the objects of \<open>obj\<close>'s kind that the
  namespace, name and selectors choose: its matcher is registered, no earlier registration is lost, and the kind is
  watched; for an object wrapped by package untriggered the triggers are as before. \<open>subscribes_first\<close>: an access with
  the result \<open>res\<close> is the watch, and nothing else when it fails (\<open>failed\<close> is the answer then), and when it succeeds the
  call of the backend in the state where the subscription stands.
\<close>

definition subscribed ::
  "registrant \<Rightarrow> robj \<Rightarrow> gvk \<Rightarrow> string \<Rightarrow> string \<Rightarrow> label_selector option \<Rightarrow> field_selector option
     \<Rightarrow> 'w rstate \<Rightarrow> 'w rstate \<Rightarrow> bool" where
  "subscribed t obj g ns n sel fs rs rs1 \<longleftrightarrow>
     (if IsWrapped obj then rtriggers rs1 = rtriggers rs
      else (\<exists>mt. registered (matchers (rtriggers rs1)) (item_kind obj g) \<lparr>etKey = regKey t, etGVK = regGVK t\<rparr> mt \<and>
          objectMatcher_String mt = objectMatcher_String \<lparr>mNamespace = ns, mName = n, mSelector = sel, mFields = fs\<rparr>) \<and>
        (\<forall>g' u mt. registered (matchers (rtriggers rs)) g' u mt \<longrightarrow> registered (matchers (rtriggers rs1)) g' u mt) \<and>
        map_of (rwatching rs1) (item_kind obj g) = Some True \<and> map_of (rgvks rs1) (item_kind obj g) = Some True)"

definition subscribes_first ::
  "('w, 'a) backend_scheme \<Rightarrow> registrant \<Rightarrow> robj \<Rightarrow> gvk \<Rightarrow> string \<Rightarrow> string \<Rightarrow> label_selector option
     \<Rightarrow> field_selector option \<Rightarrow> ('w \<Rightarrow> 'r \<times> 'w) \<Rightarrow> (err \<Rightarrow> 'r) \<Rightarrow> 'w rstate \<Rightarrow> 'r \<times> 'w rstate \<Rightarrow> bool" where
  "subscribes_first B t obj g ns n sel fs call failed rs res \<longleftrightarrow>
     (case triggerRegistry_Watch B t obj ns n sel fs rs of
        (Some err, rs1) \<Rightarrow> res = (failed err, rs1)
      | (None, rs1) \<Rightarrow> subscribed t obj g ns n sel fs rs rs1 \<and>
          res = (fst (call (rworld rs1)), rs1\<lparr>rworld := snd (call (rworld rs1))\<rparr>))"

lemma Watch_subscribed:
  assumes "triggerRegistry_Watch B t obj ns n sel fs rs = (None, rs1)"
    and "gvkFor B (obj_of obj) = Inr g" and "matchers_ok (matchers (rtriggers rs))"
  shows "subscribed t obj g ns n sel fs rs rs1"
proof (cases "IsWrapped obj")
  case True
  with assms(1) triggerRegistry_Watch_wrapped [OF True, of B t ns n sel fs rs] show ?thesis by (simp add: subscribed_def)
next
  case False
  note w = triggerRegistry_Watch_ok [OF assms(1) False assms(2)]
  show ?thesis
    using False register_has [OF assms(3)] register_keeps_mono [OF assms(3)] by (simp add: subscribed_def w)
qed

lemma watched_first:
  "gvkFor B (obj_of obj) = Inr g \<Longrightarrow> matchers_ok (matchers (rtriggers rs)) \<Longrightarrow>
   subscribes_first B t obj g ns n sel fs call Inl rs (watched B t obj ns n sel fs call rs)"
  by (auto simp: subscribes_first_def watched_def Watch_subscribed split: prod.splits option.splits)


text \<open>A failed create of an object without a name is reported as a success: when the API server
  refuses the object and the kind can be watched, the deferred watch replaces the error
  with its own nil. When such a create succeeds nothing is watched.\<close>

theorem create_without_name_swallows_error:
  assumes "Name (obj_of obj) = []" and "\<not> IsWrapped obj" and "\<not> IsList obj"
    and "clCreate B (rworld rs) (obj_of obj) = (err, o', w)"
    and "gvkFor B o' = Inr g" and "map_of (rwatching rs) g = Some True"
  shows "fst (fst (writer_Create B t obj rs)) = None \<and>
    (err = None \<longrightarrow> rtriggers (snd (writer_Create B t obj rs)) = rtriggers rs)"
  using assms
  by (auto simp: writer_Create_def Let_def triggerRegistry_Watch_def Register_def WatchGVK_def NewErrors_def
      split: prod.splits)

text \<open>A backend over a list of objects; \<open>deny\<close> makes it refuse every create.\<close>

definition memory_backend :: "bool \<Rightarrow> kobj list backend" where
  "memory_backend deny = kube.extend
     (if deny then example_kube\<lparr>clCreate := \<lambda>w o'. (Some (Err ''quota''), o', w)\<rparr> else example_kube)
     (backend.fields
       (\<lambda>w o'. (None, o', map (\<lambda>x. if key_of x = key_of o' then o' else x) w))
       (\<lambda>w o'. (None, o', map (\<lambda>x. if key_of x = key_of o' then o' else x) w))
       (\<lambda>w g ns sel fs. (Inr (filter (\<lambda>o'. case sel of None \<Rightarrow> True | Some s \<Rightarrow> selMatches s (Labels o')) w), w))
       (\<lambda>w o' ns sel fs. (None, [])) (\<lambda>w g key delay. (None, w)) (\<lambda>w g. (None, w)) None (\<lambda>_. False))"

lemma memory_backend_simps [simp]:
  "gvkFor (memory_backend deny) = gvkFor example_lib"
  "clGet (memory_backend deny) = clGet example_kube"
  "clCreate (memory_backend deny) = (if deny then \<lambda>w o'. (Some (Err ''quota''), o', w) else clCreate example_kube)"
  "bUpdate (memory_backend deny) w o' = (None, o', map (\<lambda>x. if key_of x = key_of o' then o' else x) w)"
  "bStatusUpdate (memory_backend deny) w o' = (None, o', map (\<lambda>x. if key_of x = key_of o' then o' else x) w)"
  "bTrigger (memory_backend deny) w g key delay = (None, w)"
  "bWatcher (memory_backend deny) w g = (None, w)"
  "schemeNew (memory_backend deny) = schemeNew example_lib"
  "semanticDeepEqual (memory_backend deny) = (=)"
  by (simp_all add: memory_backend_def kube.defs backend.defs lib.defs memory_kube_def example_lib_def)

definition empty_rstate :: "'w \<Rightarrow> 'w rstate" where
  "empty_rstate w = \<lparr>rworld = w, rtriggers = \<lparr>matchers = [], toTrigger = []\<rparr>, rwatching = [], rgvks = []\<rparr>"


theorem create_without_name_swallows_error_witness:
  "let obj = empty_obj\<lparr>Namespace := ''ns''\<rparr>;
       rs = (empty_rstate [])\<lparr>rwatching := [(\<lparr>Group = [], Version = ''v1'', Kind = ''Object''\<rparr>, True)]\<rparr>
   in fst (clCreate (memory_backend True) (rworld rs) obj) \<noteq> None \<and>
      fst (fst (writer_Create (memory_backend True) \<lparr>regGVK = cm_gvk, regKey = ''ns/app''\<rparr>
        (plain_obj obj) rs)) = None"
proof -
  let ?o = "empty_obj\<lparr>Namespace := ''ns''\<rparr>" and ?g = "\<lparr>Group = [], Version = ''v1'', Kind = ''Object''\<rparr>"
  let ?rs = "(empty_rstate [])\<lparr>rwatching := [(?g, True)]\<rparr>"
  have "fst (fst (writer_Create (memory_backend True) \<lparr>regGVK = cm_gvk, regKey = ''ns/app''\<rparr>
      (plain_obj ?o) ?rs)) = None"
    using create_without_name_swallows_error [of "plain_obj ?o" "memory_backend True" ?rs "Some (Err ''quota'')" ?o
        "[]" ?g "\<lparr>regGVK = cm_gvk, regKey = ''ns/app''\<rparr>"]
    by (simp add: plain_obj_def empty_rstate_def example_lib_def)
  then show ?thesis by (simp add: Let_def)
qed

end
