(* ===== verification/Router_Route.thy ===== *)
theory Router_Route
  imports Router_Client Responder
begin

text \<open>
  pkg/router/types.go, response_wrapper.go, the responses of handler.go, the route builder and the
  filters of router.go, and finalizer.go. A handler is a function of the request and of the state it may
  change: the shared state of the router, the object \<open>req.Object\<close> points to (nil or not), and the response.
\<close>

section \<open>Responses\<close>

text \<open>\<open>response\<close> and \<open>ResponseWrapper\<close> hold a delay and attributes; they differ in \<open>RetryAfter\<close>.\<close>

record response =
  respDelay :: int
  respAttr :: "(string, json) gomap"
  isWrapper :: bool

definition new_response :: response where
  "new_response = \<lparr>respDelay = 0, respAttr = [], isWrapper = False\<rparr>"

definition new_ResponseWrapper :: response where
  "new_ResponseWrapper = \<lparr>respDelay = 0, respAttr = [], isWrapper = True\<rparr>"

definition response_RetryAfter :: "int \<Rightarrow> response \<Rightarrow> response" where
  "response_RetryAfter d r = (if respDelay r = 0 \<or> d < respDelay r then r\<lparr>respDelay := d\<rparr> else r)"

definition ResponseWrapper_RetryAfter :: "int \<Rightarrow> response \<Rightarrow> response" where
  "ResponseWrapper_RetryAfter d r = r\<lparr>respDelay := d\<rparr>"

definition RetryAfter :: "int \<Rightarrow> response \<Rightarrow> response" where
  "RetryAfter d r = (if isWrapper r then ResponseWrapper_RetryAfter d r else response_RetryAfter d r)"

definition set_attributes :: "(string, json) gomap \<Rightarrow> response \<Rightarrow> response" where
  "set_attributes kvs r = r\<lparr>respAttr := fold (\<lambda>(k, v) m. AList.update k v m) kvs (respAttr r)\<rparr>"

interpretation plain_response: responder respDelay respAttr response_RetryAfter
  by unfold_locales (auto simp: response_RetryAfter_def)

interpretation wrapped_response: responder respDelay respAttr ResponseWrapper_RetryAfter
  by unfold_locales (auto simp: ResponseWrapper_RetryAfter_def)

interpretation any_response: responder respDelay respAttr RetryAfter
  by unfold_locales (auto simp: RetryAfter_def response_RetryAfter_def ResponseWrapper_RetryAfter_def)

section \<open>Requests and handlers\<close>

record request =
  reqGVK :: gvk
  reqNamespace :: string
  reqName :: string
  reqKey :: string
  reqFromTrigger :: bool

definition registrant_of :: "request \<Rightarrow> registrant" where
  "registrant_of req = \<lparr>regGVK = reqGVK req, regKey = reqKey req\<rparr>"

record 'w hstate =
  hrs :: "'w rstate"
  hobject :: "kobj option"
  hresp :: response

type_synonym 'w handler = "request \<Rightarrow> 'w hstate \<Rightarrow> err option \<times> 'w hstate"

text \<open>\<open>Request.Delete\<close>: an object that is gone is no error.\<close>

definition Request_Delete ::
  "('w, 'a) backend_scheme \<Rightarrow> request \<Rightarrow> gvk \<Rightarrow> kobj \<Rightarrow> 'w rstate \<Rightarrow> err option \<times> 'w rstate" where
  "Request_Delete B req g obj rs =
     (case writer_Delete B (registrant_of req) (plain_obj obj) g rs of
        (Inl err, rs) \<Rightarrow> (if IsNotFound (Some err) then None else Some err, rs)
      | (Inr _, rs) \<Rightarrow> (None, rs))"

definition Request_Get ::
  "('w, 'a) backend_scheme \<Rightarrow> request \<Rightarrow> kobj \<Rightarrow> string \<Rightarrow> string \<Rightarrow> 'w rstate \<Rightarrow> (err + kobj) \<times> 'w rstate"
where
  "Request_Get B req obj namespace name rs =
     reader_Get B (registrant_of req) (plain_obj obj) (reqGVK req) (mk_key namespace name) rs"

section \<open>Filters\<close>

definition IgnoreNilHandler :: "'w handler \<Rightarrow> 'w handler" where
  "IgnoreNilHandler next req st = (if hobject st = None then (None, st) else next req st)"

definition IgnoreRemoveHandler :: "'w handler \<Rightarrow> 'w handler" where
  "IgnoreRemoveHandler next req st =
     (case hobject st of
        None \<Rightarrow> (None, st)
      | Some obj \<Rightarrow> if \<not> is_zero_time (DeletionTimestamp obj) then (None, st) else next req st)"

definition NameNamespaceFilter :: "string \<Rightarrow> string \<Rightarrow> 'w handler \<Rightarrow> 'w handler" where
  "NameNamespaceFilter name namespace next req st =
     (if name \<noteq> [] \<and> reqName req \<noteq> name then (None, st)
      else if namespace \<noteq> [] \<and> reqNamespace req \<noteq> namespace then (None, st)
      else next req st)"

definition SelectorFilter :: "label_selector \<Rightarrow> 'w handler \<Rightarrow> 'w handler" where
  "SelectorFilter selector next req st =
     (case hobject st of
        None \<Rightarrow> (None, st)
      | Some obj \<Rightarrow> if \<not> selMatches selector (Labels obj) then (None, st) else next req st)"

definition FieldSelectorFilter ::
  "(kobj \<Rightarrow> bool) \<Rightarrow> field_selector \<Rightarrow> 'w handler \<Rightarrow> 'w handler" where
  "FieldSelectorFilter isFields fieldSelector next req st =
     (case hobject st of
        None \<Rightarrow> (None, st)
      | Some obj \<Rightarrow> if isFields obj \<and> fieldMatches fieldSelector obj then next req st else (None, st))"

definition ErrorPrefix_Handle :: "string \<Rightarrow> 'w handler \<Rightarrow> 'w handler" where
  "ErrorPrefix_Handle prefix' next req st =
     (case next req st of
        (None, st) \<Rightarrow> (None, st)
      | (Some err, st) \<Rightarrow> (Some (ErrorPrefix prefix' err), st))"

text \<open>
  The contract of a filter: it passes the request on unchanged or does nothing, and the choice depends on
  the request and the object only.
\<close>

locale gate =
  fixes filt :: "'w handler \<Rightarrow> 'w handler"
    and pass :: "request \<Rightarrow> kobj option \<Rightarrow> bool"
  assumes passes: "pass req (hobject st) \<Longrightarrow> filt h req st = h req st"
    and blocks: "\<not> pass req (hobject st) \<Longrightarrow> filt h req st = (None, st)"
begin

lemma filt_if: "filt h req st = (if pass req (hobject st) then h req st else (None, st))"
  using passes blocks by simp

lemma filt_idem: "filt (filt h) = filt h"
  by (intro ext) (simp add: filt_if)

end

locale two_gates = g1: gate filt1 pass1 + g2: gate filt2 pass2
  for filt1 filt2 :: "'w handler \<Rightarrow> 'w handler" and pass1 pass2
begin

lemma gates_commute: "filt1 (filt2 h) = filt2 (filt1 h)"
  by (intro ext) (simp add: g1.filt_if g2.filt_if)

lemma gates_if:
  "filt1 (filt2 h) req st =
     (if pass1 req (hobject st) \<and> pass2 req (hobject st) then h req st else (None, st))"
  by (simp add: g1.filt_if g2.filt_if)

end

definition not_nil :: "request \<Rightarrow> kobj option \<Rightarrow> bool" where
  "not_nil req obj \<longleftrightarrow> obj \<noteq> None"

definition not_removed :: "request \<Rightarrow> kobj option \<Rightarrow> bool" where
  "not_removed req obj = (case obj of None \<Rightarrow> False | Some o' \<Rightarrow> is_zero_time (DeletionTimestamp o'))"

definition name_matches :: "string \<Rightarrow> string \<Rightarrow> request \<Rightarrow> kobj option \<Rightarrow> bool" where
  "name_matches name namespace req obj \<longleftrightarrow>
     (name = [] \<or> reqName req = name) \<and> (namespace = [] \<or> reqNamespace req = namespace)"

definition label_matches :: "label_selector \<Rightarrow> request \<Rightarrow> kobj option \<Rightarrow> bool" where
  "label_matches sel req obj = (case obj of None \<Rightarrow> False | Some o' \<Rightarrow> selMatches sel (Labels o'))"

definition field_matches :: "(kobj \<Rightarrow> bool) \<Rightarrow> field_selector \<Rightarrow> request \<Rightarrow> kobj option \<Rightarrow> bool" where
  "field_matches isFields f req obj =
     (case obj of None \<Rightarrow> False | Some o' \<Rightarrow> isFields o' \<and> fieldMatches f o')"

interpretation nil_gate: gate IgnoreNilHandler not_nil
  by unfold_locales (auto simp: IgnoreNilHandler_def not_nil_def)

interpretation remove_gate: gate IgnoreRemoveHandler not_removed
  by unfold_locales (auto simp: IgnoreRemoveHandler_def not_removed_def split: option.splits)

interpretation name_gate: gate "NameNamespaceFilter n ns" "name_matches n ns" for n ns
  by unfold_locales (auto simp: NameNamespaceFilter_def name_matches_def)

interpretation label_gate: gate "SelectorFilter sel" "label_matches sel" for sel
  by unfold_locales (auto simp: SelectorFilter_def label_matches_def split: option.splits)

interpretation field_gate: gate "FieldSelectorFilter isF f" "field_matches isF f" for isF f
  by unfold_locales (auto simp: FieldSelectorFilter_def field_matches_def split: option.splits)

interpretation selector_gates:
  two_gates "FieldSelectorFilter isF f" "SelectorFilter sel" "field_matches isF f" "label_matches sel"
  for isF f sel
  by unfold_locales

section \<open>The finalizer handler\<close>

text \<open>\<open>statusField\<close> by reflection: the status field, or nil for a type without one.\<close>

definition statusField :: "kobj \<Rightarrow> json" where
  "statusField obj = (case Status obj of None \<Rightarrow> JNull | Some s \<Rightarrow> s)"

definition StatusChanged :: "('a) lib_scheme \<Rightarrow> kobj \<Rightarrow> kobj \<Rightarrow> bool" where
  "StatusChanged L unmodified newObj \<longleftrightarrow> \<not> semanticDeepEqual L (statusField unmodified) (statusField newObj)"

text \<open>
  The end of \<open>Handle\<close>, once \<open>Next\<close> has succeeded on the copy \<open>newObj\<close> of \<open>obj\<close> with the delay \<open>delay\<close>.
\<close>

definition finalize_done ::
  "('w, 'a) backend_scheme \<Rightarrow> string \<Rightarrow> request \<Rightarrow> kobj \<Rightarrow> kobj \<Rightarrow> int \<Rightarrow> 'w hstate
     \<Rightarrow> err option \<times> 'w hstate" where
  "finalize_done B finalizerID req obj newObj delay st =
     (case (if StatusChanged B obj newObj
            then Status_Update B (registrant_of req) (plain_obj newObj) (hrs st)
            else (Inr newObj, hrs st)) of
        (Inl err, rs) \<Rightarrow> (Some err, st\<lparr>hrs := rs\<rparr>)
      | (Inr newObj, rs) \<Rightarrow>
          if delay = 0 \<and> 0 < length (Finalizers newObj) \<and> Finalizers newObj ! 0 = finalizerID
          then (case writer_Update B (registrant_of req)
                       (plain_obj (newObj\<lparr>Finalizers := drop 1 (Finalizers obj)\<rparr>)) rs of
                  (Inl err, rs) \<Rightarrow> (Some err, st\<lparr>hrs := rs\<rparr>)
                | (Inr _, rs) \<Rightarrow> (None, st\<lparr>hrs := rs\<rparr>))
          else (None, st\<lparr>hrs := rs\<rparr>))"

text \<open>
  The second half of \<open>Handle\<close>: \<open>obj\<close> is being deleted and this finalizer is the first one.
  \<open>Next\<close> works on a copy with a response of its own; \<open>req.Object\<close> stays \<open>obj\<close>.
\<close>

definition finalize ::
  "('w, 'a) backend_scheme \<Rightarrow> string \<Rightarrow> 'w handler \<Rightarrow> request \<Rightarrow> kobj \<Rightarrow> 'w hstate
     \<Rightarrow> err option \<times> 'w hstate" where
  "finalize B finalizerID next req obj st =
     (case next req (st\<lparr>hobject := Some obj, hresp := new_ResponseWrapper\<rparr>) of
        (Some err, st1) \<Rightarrow> (Some err, st\<lparr>hrs := hrs st1\<rparr>)
      | (None, st1) \<Rightarrow>
          let newObj = (case hobject st1 of None \<Rightarrow> obj | Some o' \<Rightarrow> o');
              newResp = hresp st1;
              resp = (if respDelay newResp \<noteq> 0 then RetryAfter (respDelay newResp) (hresp st) else hresp st)
          in finalize_done B finalizerID req obj newObj (respDelay newResp)
               (st\<lparr>hrs := hrs st1, hresp := set_attributes (respAttr newResp) resp\<rparr>))"

definition FinalizerHandler :: "('w, 'a) backend_scheme \<Rightarrow> string \<Rightarrow> 'w handler \<Rightarrow> 'w handler" where
  "FinalizerHandler B finalizerID next req st =
     (case hobject st of
        None \<Rightarrow> (None, st)
      | Some obj \<Rightarrow>
          if is_zero_time (DeletionTimestamp obj)
          then (if \<not> List.member (Finalizers obj) finalizerID
                then let obj = obj\<lparr>Finalizers := Finalizers obj @ [finalizerID]\<rparr> in
                     (case writer_Update B (registrant_of req) (plain_obj obj) (hrs st) of
                        (Inl err, rs) \<Rightarrow> (Some err, st\<lparr>hrs := rs, hobject := Some obj\<rparr>)
                      | (Inr obj, rs) \<Rightarrow> (None, st\<lparr>hrs := rs, hobject := Some obj\<rparr>))
                else (None, st))
          else if length (Finalizers obj) = 0 \<or> Finalizers obj ! 0 \<noteq> finalizerID then (None, st)
          else finalize B finalizerID next req obj st)"

section \<open>The route builder\<close>

record 'w RouteBuilder =
  includeRemove :: bool
  includeFinalizing :: bool
  finalizeID :: string
  rbName :: string
  rbNamespace :: string
  routeName :: string
  middleware :: "('w handler \<Rightarrow> 'w handler) list"
  rbSel :: "label_selector option"
  fieldSelector :: "field_selector option"

text \<open>\<open>callerName\<close> is what \<open>name()\<close> finds on the call stack.\<close>

definition route_name :: "string \<Rightarrow> 'w RouteBuilder \<Rightarrow> string" where
  "route_name callerName r = (if routeName r = [] then callerName else routeName r)"

text \<open>The handler under the filters.\<close>

definition route_core :: "('w, 'a) backend_scheme \<Rightarrow> 'w RouteBuilder \<Rightarrow> 'w handler \<Rightarrow> 'w handler" where
  "route_core B r h =
     (let result = (if finalizeID r \<noteq> [] then FinalizerHandler B (finalizeID r) h else h)
      in foldr (\<lambda>m result. m result) (middleware r) result)"

definition RouteBuilder_Handler ::
  "('w, 'a) backend_scheme \<Rightarrow> string \<Rightarrow> 'w RouteBuilder \<Rightarrow> 'w handler \<Rightarrow> string \<times> 'w handler" where
  "RouteBuilder_Handler B callerName r h =
     (let routeName = route_name callerName r;
          result = route_core B r h;
          result = (if rbName r \<noteq> [] \<or> rbNamespace r \<noteq> []
                    then NameNamespaceFilter (rbName r) (rbNamespace r) result else result);
          result = (case rbSel r of None \<Rightarrow> result | Some sel \<Rightarrow> SelectorFilter sel result);
          result = (case fieldSelector r of None \<Rightarrow> result | Some f \<Rightarrow> FieldSelectorFilter (bIsFields B) f result);
          result = (if includeFinalizing r \<and> \<not> includeRemove r \<and> finalizeID r = []
                    then IgnoreNilHandler result else result);
          result = (if \<not> includeRemove r \<and> \<not> includeFinalizing r \<and> finalizeID r = []
                    then IgnoreRemoveHandler result else result);
          result = (if routeName \<noteq> [] then ErrorPrefix_Handle (''['' @ routeName @ ''] '') result else result)
      in (routeName, result))"

text \<open>When a route is interested in a request.\<close>

definition route_pass :: "('w, 'a) backend_scheme \<Rightarrow> 'w RouteBuilder \<Rightarrow> request \<Rightarrow> kobj option \<Rightarrow> bool" where
  "route_pass B r req obj \<longleftrightarrow>
     name_matches (rbName r) (rbNamespace r) req obj \<and>
     (case rbSel r of None \<Rightarrow> True | Some sel \<Rightarrow> label_matches sel req obj) \<and>
     (case fieldSelector r of None \<Rightarrow> True | Some f \<Rightarrow> field_matches (bIsFields B) f req obj) \<and>
     (includeRemove r \<or> finalizeID r \<noteq> [] \<or>
      (if includeFinalizing r then not_nil req obj else not_removed req obj))"

lemmas gates_if = nil_gate.filt_if remove_gate.filt_if name_gate.filt_if label_gate.filt_if field_gate.filt_if

text \<open>C12: a route runs its handler for exactly the requests it describes: the handler it
  builds does nothing unless name, namespace and selectors match and the object is of the kind of life the
  route asks for (any with \<open>IncludeRemoved\<close> or a finalizer, existing with \<open>IncludeFinalizing\<close>, existing and
  not being deleted otherwise); then it runs the middleware around the handler and prefixes its error with the
  route's name.\<close>

theorem RouteBuilder_Handler_correct:
  "snd (RouteBuilder_Handler B callerName r h) req st =
     (if route_pass B r req (hobject st)
      then (case route_core B r h req st of
              (e, st') \<Rightarrow> (if route_name callerName r = [] then e
                          else map_option (ErrorPrefix (''['' @ route_name callerName r @ ''] '')) e, st'))
      else (None, st))"
proof -
  define n where "n = route_name callerName r"
  define core where "core = route_core B r h"
  have nm: "(if rbName r \<noteq> [] \<or> rbNamespace r \<noteq> [] then NameNamespaceFilter (rbName r) (rbNamespace r) core else core)
      = NameNamespaceFilter (rbName r) (rbNamespace r) core"
    by (auto simp: fun_eq_iff NameNamespaceFilter_def)
  have inner: "snd (RouteBuilder_Handler B callerName r h) =
      (let f = (\<lambda>req st. if route_pass B r req (hobject st) then core req st else (None, st)) in
       if n \<noteq> [] then ErrorPrefix_Handle (''['' @ n @ ''] '') f else f)"
    unfolding RouteBuilder_Handler_def Let_def core_def [symmetric] n_def [symmetric] nm snd_conv
    by (auto simp: fun_eq_iff gates_if route_pass_def ErrorPrefix_Handle_def split: option.splits)
  show ?thesis
    unfolding inner Let_def n_def [symmetric] core_def [symmetric]
    by (auto simp: ErrorPrefix_Handle_def split: prod.splits option.splits)
qed

section \<open>A backend that keeps a log of updates\<close>

definition lift_log :: "('w \<Rightarrow> 'r \<times> 'w) \<Rightarrow> 'w \<times> 'l \<Rightarrow> 'r \<times> 'w \<times> 'l" where
  "lift_log f s = (case f (fst s) of (r, w) \<Rightarrow> (r, w, snd s))"

definition lift_obj :: "('w \<Rightarrow> err option \<times> kobj \<times> 'w) \<Rightarrow> 'w \<times> 'l \<Rightarrow> err option \<times> kobj \<times> 'w \<times> 'l" where
  "lift_obj f s = (case f (fst s) of (e, o', w) \<Rightarrow> (e, o', w, snd s))"

definition logging :: "'w backend \<Rightarrow> ('w \<times> kobj list) backend" where
  "logging B = kube.extend
     (lib.extend (lib.truncate B)
       (kube.fields (\<lambda>s g t k. lift_log (\<lambda>w. clGet B w g t k) s) (\<lambda>s g ns sel. lift_log (\<lambda>w. clList B w g ns sel) s)
         (\<lambda>s o'. lift_obj (\<lambda>w. clCreate B w o') s) (\<lambda>s o' pt p. lift_obj (\<lambda>w. clPatch B w o' pt p) s)
         (\<lambda>s g k. lift_log (\<lambda>w. clDelete B w g k) s)))
     (backend.fields
       (\<lambda>s o'. case bUpdate B (fst s) o' of (e, o2, w) \<Rightarrow> (e, o2, w, snd s @ [o']))
       (\<lambda>s o'. lift_obj (\<lambda>w. bStatusUpdate B w o') s)
       (\<lambda>s g ns sel fs. lift_log (\<lambda>w. bList B w g ns sel fs) s)
       (\<lambda>s o' ns sel fs. lift_log (\<lambda>w. bDeleteAllOf B w o' ns sel fs) s)
       (\<lambda>s g k d. lift_log (\<lambda>w. bTrigger B w g k d) s) (\<lambda>s g. lift_log (\<lambda>w. bWatcher B w g) s)
       (map_option (\<lambda>f s o'. lift_log (\<lambda>w. f w o') s) (bApply B)) (bIsFields B))"

lemma logging_simps:
  "bUpdate (logging B) s o' = (case bUpdate B (fst s) o' of (e, o2, w) \<Rightarrow> (e, o2, w, snd s @ [o']))"
  "bStatusUpdate (logging B) s o' = lift_obj (\<lambda>w. bStatusUpdate B w o') s"
  "bWatcher (logging B) s g = lift_log (\<lambda>w. bWatcher B w g) s"
  "gvkFor (logging B) = gvkFor B" "semanticDeepEqual (logging B) = semanticDeepEqual B"
  by (simp_all add: logging_def lib.defs kube.defs backend.defs)

abbreviation updates :: "('w \<times> kobj list) rstate \<Rightarrow> kobj list" where
  "updates rs \<equiv> snd (rworld rs)"

lemma watch_each_updates:
  "watch_each (logging B) gs (wt, w) = (errs, wt', w') \<Longrightarrow> snd w' = snd w"
  by (induction gs arbitrary: wt w errs)
    (auto simp: logging_simps lift_log_def split: if_splits option.splits prod.splits)

lemma WatchGVK_updates: "WatchGVK (logging B) gs rs = (e, rs') \<Longrightarrow> updates rs' = updates rs"
  by (auto simp: WatchGVK_def split: prod.splits dest!: watch_each_updates)

lemma triggerRegistry_updates:
  "triggerRegistry_Watch (logging B) t obj ns n sel fs rs = (e, rs') \<Longrightarrow> updates rs' = updates rs"
  by (auto simp: triggerRegistry_Watch_def Register_def Let_def
      split: if_splits option.splits prod.splits sum.splits dest!: WatchGVK_updates)

lemma writer_Update_updates:
  "writer_Update (logging B) t obj rs = (r, rs') \<Longrightarrow>
     updates rs' = updates rs @ [obj_of obj] \<or> updates rs' = updates rs \<and> (\<exists>e. r = Inl e)"
  by (auto simp: writer_Update_def watched_def obj_result_def logging_simps
      split: option.splits prod.splits dest!: triggerRegistry_updates)

lemma Status_Update_updates:
  "Status_Update (logging B) t obj rs = (r, rs') \<Longrightarrow> updates rs' = updates rs"
  by (auto simp: Status_Update_def subResource_op_def watched_def obj_result_def logging_simps lift_obj_def
      split: option.splits prod.splits dest!: triggerRegistry_updates)

text \<open>An update of \<open>o'\<close> through the handler's client, with the error \<open>e\<close>: it is sent unless its kind cannot be watched.\<close>

definition sends_update ::
  "'w backend \<Rightarrow> request \<Rightarrow> kobj \<Rightarrow> ('w \<times> kobj list) rstate \<Rightarrow> err option \<Rightarrow> ('w \<times> kobj list) rstate \<Rightarrow> bool" where
  "sends_update B req o' rs e rs' \<longleftrightarrow>
     (case triggerRegistry_Watch (logging B) (registrant_of req) (plain_obj o') (Namespace o') (Name o') None None rs of
        (Some err, rs1) \<Rightarrow> e = Some err \<and> updates rs' = updates rs
      | (None, rs1) \<Rightarrow> e = fst (bUpdate B (fst (rworld rs1)) o') \<and> updates rs' = updates rs @ [o'])"

lemma writer_Update_sends:
  "writer_Update (logging B) (registrant_of req) (plain_obj o') rs = (Inl err, rs') \<Longrightarrow> sends_update B req o' rs (Some err) rs'"
  "writer_Update (logging B) (registrant_of req) (plain_obj o') rs = (Inr o2, rs') \<Longrightarrow> sends_update B req o' rs None rs'"
  by (auto simp: writer_Update_def watched_def obj_result_def logging_simps sends_update_def plain_obj_def
      split: option.splits prod.splits dest: triggerRegistry_updates)

text \<open>What \<open>finalize\<close> does after the handler succeeded on the copy \<open>newObj\<close>.\<close>

definition finalizes ::
  "'w backend \<Rightarrow> string \<Rightarrow> request \<Rightarrow> kobj \<Rightarrow> kobj \<Rightarrow> int \<Rightarrow> ('w \<times> kobj list) rstate \<Rightarrow> err option
     \<Rightarrow> ('w \<times> kobj list) rstate \<Rightarrow> bool" where
  "finalizes B fin req obj newObj delay rs e rs' \<longleftrightarrow>
     (\<exists>r rs1. (if StatusChanged B obj newObj then Status_Update (logging B) (registrant_of req) (plain_obj newObj) rs
               else (Inr newObj, rs)) = (r, rs1) \<and> updates rs1 = updates rs \<and>
        (case r of
           Inl err \<Rightarrow> e = Some err \<and> rs' = rs1
         | Inr o' \<Rightarrow>
             if delay = 0 \<and> Finalizers o' \<noteq> [] \<and> hd (Finalizers o') = fin
             then sends_update B req (o'\<lparr>Finalizers := tl (Finalizers obj)\<rparr>) rs1 e rs'
             else e = None \<and> rs' = rs1))"

lemma finalize_done_finalizes:
  assumes "finalize_done (logging B) fin req obj newObj delay st = (e, st')"
  shows "finalizes B fin req obj newObj delay (hrs st) e (hrs st')"
proof -
  obtain r rs where s: "(if StatusChanged (logging B) obj newObj
      then Status_Update (logging B) (registrant_of req) (plain_obj newObj) (hrs st) else (Inr newObj, hrs st)) = (r, rs)"
    by fastforce
  then have u: "updates rs = updates (hrs st)" by (auto split: if_splits dest!: Status_Update_updates)
  have s': "(if StatusChanged B obj newObj
      then Status_Update (logging B) (registrant_of req) (plain_obj newObj) (hrs st) else (Inr newObj, hrs st)) = (r, rs)"
    using s by (simp add: StatusChanged_def logging_simps)
  have "hd xs = xs ! 0" if "xs \<noteq> []" for xs :: "string list" using that by (cases xs) auto
  then show ?thesis
    using assms u s' unfolding finalize_done_def s finalizes_def
    by (intro exI [of _ r] exI [of _ rs])
      (auto simp: drop_Suc split: sum.splits prod.splits if_splits dest: writer_Update_sends)
qed

text \<open>C13: what a finalizer does, in every case. On an object that lives it does not run its handler; it adds its name at
  the end of the finalizers when it is missing and sends that, and otherwise does nothing. On one being deleted it does
  nothing, and does not run the handler, unless its name is the first finalizer; then it runs the handler, on a copy. When the
  handler fails its error is returned and nothing is sent. When it succeeds the status is sent first when it changed, an error
  there being returned; then, if the handler did not ask for a retry and the name is still the first, what is sent is
  the copy with the finalizers of the object less the first; otherwise nothing.\<close>

theorem FinalizerHandler_updates:
  fixes B :: "'w backend"
  assumes "FinalizerHandler (logging B) fin h req st = (e, st')"
    and "hobject st = Some obj"
    and "h req (st\<lparr>hobject := Some obj, hresp := new_ResponseWrapper\<rparr>) = (e1, st1)"
  shows "if is_zero_time (DeletionTimestamp obj)
    then (\<forall>h'. FinalizerHandler (logging B) fin h' req st = (e, st')) \<and>
      (if fin \<in> set (Finalizers obj) then e = None \<and> st' = st
       else sends_update B req (obj\<lparr>Finalizers := Finalizers obj @ [fin]\<rparr>) (hrs st) e (hrs st'))
    else if Finalizers obj = [] \<or> hd (Finalizers obj) \<noteq> fin
    then (\<forall>h'. FinalizerHandler (logging B) fin h' req st = (e, st')) \<and> e = None \<and> st' = st
    else (case e1 of
        Some err \<Rightarrow> e = Some err \<and> hrs st' = hrs st1
      | None \<Rightarrow> finalizes B fin req obj (case hobject st1 of None \<Rightarrow> obj | Some o' \<Rightarrow> o') (respDelay (hresp st1))
          (hrs st1) e (hrs st'))"
proof (cases "is_zero_time (DeletionTimestamp obj)")
  case True
  with assms(1,2) show ?thesis
    by (auto simp: FinalizerHandler_def Let_def split: if_splits prod.splits sum.splits dest: writer_Update_sends)
next
  case False
  show ?thesis
  proof (cases "Finalizers obj = [] \<or> hd (Finalizers obj) \<noteq> fin")
    case True
    then have "length (Finalizers obj) = 0 \<or> Finalizers obj ! 0 \<noteq> fin" by (auto simp: hd_conv_nth)
    with False True assms(1,2) show ?thesis by (auto simp: FinalizerHandler_def)
  next
    case ne: False
    then have "\<not> (length (Finalizers obj) = 0 \<or> Finalizers obj ! 0 \<noteq> fin)" by (auto simp: hd_conv_nth)
    with False assms(1,2) have "finalize (logging B) fin h req obj st = (e, st')"
      by (simp add: FinalizerHandler_def)
    then show ?thesis
      using False ne assms(3) by (auto simp: finalize_def Let_def split: option.splits dest!: finalize_done_finalizes)
  qed
qed

theorem FinalizerHandler_updates_witness:
  "let obj = empty_obj\<lparr>DeletionTimestamp := Some 5, Finalizers := [''fin'', ''other'']\<rparr>;
       st = \<lparr>hrs = empty_rstate ([], []), hobject = Some obj, hresp = new_response\<rparr>;
       req = \<lparr>reqGVK = cm_gvk, reqNamespace = [], reqName = [], reqKey = [], reqFromTrigger = False\<rparr>
   in updates (hrs (snd (FinalizerHandler (logging (memory_backend False)) ''fin'' (\<lambda>req st. (None, st)) req st))) =
        [obj\<lparr>Finalizers := [''other'']\<rparr>]"
proof -
  let ?obj = "empty_obj\<lparr>DeletionTimestamp := Some 5, Finalizers := [''fin'', ''other'']\<rparr>"
  let ?st = "\<lparr>hrs = empty_rstate ([], []), hobject = Some ?obj, hresp = new_response\<rparr>"
  let ?req = "\<lparr>reqGVK = cm_gvk, reqNamespace = [], reqName = [], reqKey = [], reqFromTrigger = False\<rparr>"
  obtain e st' where run: "FinalizerHandler (logging (memory_backend False)) ''fin'' (\<lambda>req st. (None, st)) ?req ?st =
      (e, st')" by fastforce
  have "hobject ?st = Some ?obj" by simp
  from FinalizerHandler_updates [OF run this refl]
  have "sends_update (memory_backend False) ?req (?obj\<lparr>Finalizers := [''other'']\<rparr>) (empty_rstate ([], [])) e (hrs st')"
    by (simp add: is_zero_time_def finalizes_def StatusChanged_def new_ResponseWrapper_def)
  then have "updates (hrs st') = [?obj\<lparr>Finalizers := [''other'']\<rparr>]"
    by (simp add: sends_update_def triggerRegistry_Watch_def Register_def plain_obj_def WatchGVK_def logging_simps lift_log_def
        example_lib_def NewErrors_def empty_rstate_def Let_def)
  with run show ?thesis by (simp add: Let_def)
qed

section \<open>Retries\<close>

lemma response_RetryAfter_fold:
  "0 < respDelay r \<Longrightarrow> \<forall>d \<in> set ds. 0 < d \<Longrightarrow>
     respDelay (fold response_RetryAfter ds r) = Min (insert (respDelay r) (set ds))"
proof (induction ds arbitrary: r)
  case Nil
  then show ?case by simp
next
  case (Cons d ds)
  have "respDelay (response_RetryAfter d r) = min d (respDelay r)" "0 < min d (respDelay r)"
    using Cons.prems by (auto simp: response_RetryAfter_def)
  with Cons.IH [of "response_RetryAfter d r"] Cons.prems(2) show ?case
    by (cases "ds = []") (simp_all add: min.left_commute min.commute)
qed

text \<open>When several handlers of an object ask to be called again, the object is requeued after the
  shortest delay asked for; a finalizer handler, whose own response is a \<open>ResponseWrapper\<close>, hands on the
  last delay it was asked for.\<close>

theorem RetryAfter_shortest:
  assumes "\<forall>d \<in> set (d0 # ds). 0 < d"
  shows "respDelay (fold RetryAfter (d0 # ds) new_response) = Min (set (d0 # ds)) \<and>
    respDelay (fold RetryAfter (d0 # ds) new_ResponseWrapper) = last (d0 # ds)"
proof -
  have p: "isWrapper r = False \<Longrightarrow> fold RetryAfter es r = fold response_RetryAfter es r" for es r
    by (induction es arbitrary: r) (auto simp: RetryAfter_def response_RetryAfter_def)
  have w: "isWrapper r \<Longrightarrow> es \<noteq> [] \<Longrightarrow> respDelay (fold RetryAfter es r) = last es" for es r
    by (induction es arbitrary: r) (auto simp: RetryAfter_def ResponseWrapper_RetryAfter_def)
  have "respDelay (response_RetryAfter d0 new_response) = d0"
    by (simp add: plain_response.first_wins new_response_def)
  with response_RetryAfter_fold [of "response_RetryAfter d0 new_response" ds] assms show ?thesis
    using p [of new_response "d0 # ds"] w [of new_ResponseWrapper "d0 # ds"]
    by (simp add: new_response_def new_ResponseWrapper_def)
qed

theorem RetryAfter_shortest_witness:
  "respDelay (fold RetryAfter [30, 10, 20] new_response) = 10 \<and>
   respDelay (fold RetryAfter [30, 10, 20] new_ResponseWrapper) = 20"
  using RetryAfter_shortest [of 30 "[10, 20]"] by simp

end
