(* ===== verification/Router_Handle.thy ===== *)
theory Router_Handle
  imports Router_Route
begin

text \<open>
  pkg/router/handlers.go, save.go, healthz.go and the handler set of handler.go: the back-off before a
  key is handled, the pass over its handlers, the triggers it sets off, saving the status, the
  retry. The rate limiter is library code: \<open>reserve lim now\<close> is \<open>Reserve().Delay()\<close> and the limiter
  afterwards. The goroutine that sleeps is an entry of \<open>timers\<close> until the step \<open>wake\<close>.
\<close>

section \<open>The handlers of a kind\<close>

type_synonym 'w handlers = "(gvk, (string \<times> 'w handler) list) gomap"

definition handlers_of :: "'w handlers \<Rightarrow> gvk \<Rightarrow> (string \<times> 'w handler) list" where
  "handlers_of h g = (case map_of h g of None \<Rightarrow> [] | Some hs \<Rightarrow> hs)"

definition handlers_GVKs :: "'w handlers \<Rightarrow> gvk list" where
  "handlers_GVKs h = map fst h"

definition AddHandler :: "string \<Rightarrow> gvk \<Rightarrow> 'w handler \<Rightarrow> 'w handlers \<Rightarrow> 'w handlers" where
  "AddHandler name g hdl h = AList.update g (handlers_of h g @ [(name, hdl)]) h"

text \<open>\<open>None\<close> is the panic for an object of a type the scheme does not know.\<close>

definition HandlerSet_AddHandler ::
  "('a) lib_scheme \<Rightarrow> string \<Rightarrow> kobj \<Rightarrow> 'w handler \<Rightarrow> 'w handlers \<Rightarrow> 'w handlers option" where
  "HandlerSet_AddHandler L name objType hdl h =
     (case gvkFor L objType of Inl err \<Rightarrow> None | Inr g \<Rightarrow> Some (AddHandler name g hdl h))"

definition WatchingGVKs :: "'w rstate \<Rightarrow> gvk list" where
  "WatchingGVKs rs = map fst (rgvks rs)"

lemma handlers_of_AddHandler [simp]:
  "handlers_of (AddHandler name g hdl h) g' = handlers_of h g' @ (if g' = g then [(name, hdl)] else [])"
  by (simp add: AddHandler_def handlers_of_def update_conv')

lemma handlers_of_added:
  "handlers_of (foldl (\<lambda>h (name, g, hdl). AddHandler name g hdl h) h adds) g =
     handlers_of h g @ [(name, hdl). (name, g', hdl) \<leftarrow> adds, g' = g]"
  by (induction adds arbitrary: h) auto

definition Handles :: "'w handlers \<Rightarrow> request \<Rightarrow> bool" where
  "Handles h req \<longleftrightarrow> 0 < length (handlers_of h (reqGVK req))"

fun run_handlers :: "(string \<times> 'w handler) list \<Rightarrow> request \<Rightarrow> 'w hstate \<Rightarrow> err option list \<times> 'w hstate" where
  "run_handlers [] req st = ([], st)"
| "run_handlers ((name, hdl) # hs) req st =
     (case hdl req st of
        (err, st) \<Rightarrow>
          (case run_handlers hs req st of
             (errs, st) \<Rightarrow> (if err \<noteq> None then err # errs else errs, st)))"

definition handlers_Handle :: "'w handlers \<Rightarrow> 'w handler" where
  "handlers_Handle h req st =
     (case run_handlers (handlers_of h (reqGVK req)) req st of (errs, st) \<Rightarrow> (NewErrors errs, st))"

text \<open>The state before each handler, whatever the ones before it answered.\<close>

fun handler_states :: "(string \<times> 'w handler) list \<Rightarrow> request \<Rightarrow> 'w hstate \<Rightarrow> 'w hstate list" where
  "handler_states [] req st = [st]"
| "handler_states ((name, hdl) # hs) req st = st # handler_states hs req (snd (hdl req st))"

lemma handler_states_length [simp]: "length (handler_states hs req st) = Suc (length hs)"
  by (induction hs arbitrary: st) auto

lemma run_handlers_states:
  "run_handlers hs req st = (errs, st') \<Longrightarrow>
     st' = last (handler_states hs req st) \<and>
     non_nil errs = non_nil (map (\<lambda>(nh, s). fst (snd nh req s)) (zip hs (handler_states hs req st)))"
proof (induction hs arbitrary: st errs st')
  case Nil
  then show ?case by simp
next
  case (Cons nh hs)
  obtain name hdl where nh: "nh = (name, hdl)" by fastforce
  obtain e st1 where h: "hdl req st = (e, st1)" by fastforce
  obtain errs1 st2 where r: "run_handlers hs req st1 = (errs1, st2)" by fastforce
  have "handler_states hs req st1 \<noteq> []" by (cases hs) auto
  with Cons.IH [OF r] Cons.prems nh h r show ?case by (cases e) auto
qed

text \<open>A failing handler does not keep the others from running: the handlers of the kind run one after
  the other, each on the state the one before left, and the pass reports an error exactly if
  one of them did.\<close>

theorem handlers_Handle_all_run:
  "snd (handlers_Handle h req st) = last (handler_states (handlers_of h (reqGVK req)) req st) \<and>
   (fst (handlers_Handle h req st) = None \<longleftrightarrow>
      list_all (\<lambda>((name, hdl), s). fst (hdl req s) = None)
        (zip (handlers_of h (reqGVK req)) (handler_states (handlers_of h (reqGVK req)) req st)))"
proof -
  obtain errs st' where r: "run_handlers (handlers_of h (reqGVK req)) req st = (errs, st')" by fastforce
  from run_handlers_states [OF r] show ?thesis
    by (auto simp: handlers_Handle_def r NewErrors_None_iff non_nil_Nil_iff [symmetric] list_all_iff)
      (auto simp: non_nil_Nil_iff)
qed

section \<open>Saving the status\<close>

text \<open>
  \<open>save\<close>: the new object, the error, the state. \<open>unmodified\<close> is nil only if the object is. The first read goes
  through the request's client (and is registered), the update through the backend.
\<close>

definition save ::
  "('w, 'a) backend_scheme \<Rightarrow> request \<Rightarrow> kobj option \<Rightarrow> kobj option \<Rightarrow> 'w rstate
     \<Rightarrow> (kobj option \<times> err option) \<times> 'w rstate" where
  "save B req unmodified newObj rs =
     (let update = (\<lambda>n rs. case bStatusUpdate B (rworld rs) n of
                      (err, n, w) \<Rightarrow> ((Some n, err), rs\<lparr>rworld := w\<rparr>))
      in case (unmodified, newObj) of
        (Some u, Some n) \<Rightarrow>
          if StatusChanged B u n
          then (if Generation u \<noteq> Generation n
                then (case Request_Get B req u (Namespace u) (Name u) rs of
                        (Inl err, rs) \<Rightarrow> ((None, Some err), rs)
                      | (Inr u, rs) \<Rightarrow>
                          if \<not> StatusChanged B u n then ((Some n, None), rs) else update n rs)
                else update n rs)
          else ((Some n, None), rs)
      | _ \<Rightarrow> ((newObj, None), rs))"

section \<open>One pass\<close>

type_synonym 'w error_handler = "request \<Rightarrow> err option \<Rightarrow> 'w hstate \<Rightarrow> err option \<times> 'w hstate"

definition handleError ::
  "'w error_handler option \<Rightarrow> request \<Rightarrow> err option \<Rightarrow> 'w hstate \<Rightarrow> err option \<times> 'w hstate" where
  "handleError onError req err st = (case onError of None \<Rightarrow> (err, st) | Some f \<Rightarrow> f req err st)"

text \<open>\<open>if err := ...; err != nil { if err := m.handleError(req, resp, err); err != nil { return } }\<close>\<close>

definition unless_handled ::
  "'w error_handler option \<Rightarrow> request \<Rightarrow> err option \<Rightarrow> 'w hstate \<Rightarrow> err option \<times> 'w hstate" where
  "unless_handled onError req err st = (case err of None \<Rightarrow> (None, st) | Some e \<Rightarrow> handleError onError req err st)"

definition newRequestResponse ::
  "gvk \<Rightarrow> string \<Rightarrow> kobj option \<Rightarrow> bool \<Rightarrow> 'w rstate \<Rightarrow> request \<times> 'w hstate" where
  "newRequestResponse g key obj trigger rs =
     (case cut_key key of
        (ns, name) \<Rightarrow>
          (\<lparr>reqGVK = g, reqNamespace = ns, reqName = name, reqKey = key, reqFromTrigger = trigger\<rparr>,
           \<lparr>hrs = rs\<lparr>rgvks := []\<rparr>, hobject = obj, hresp = new_response\<rparr>))"

definition set_off_triggers :: "kobj option \<Rightarrow> request \<Rightarrow> 'w hstate \<Rightarrow> 'w hstate" where
  "set_off_triggers unmodifiedObject req st =
     (let rs = hrs st; t = rtriggers rs in
      st\<lparr>hrs := rs\<lparr>rtriggers :=
        (if unmodifiedObject = None then UnregisterAndTrigger (reqName req) (reqNamespace req) (reqGVK req) t
         else if \<not> reqFromTrigger req
              then Trigger (reqName req) (reqNamespace req) (reqGVK req) (hobject st) t
              else t)\<rparr>\<rparr>)"

text \<open>The last line returns \<open>handleError(req, resp, err)\<close> for the \<open>err\<close> of the first, which is nil.\<close>

definition handle_done ::
  "'w error_handler option \<Rightarrow> request \<Rightarrow> 'w hstate \<Rightarrow> (kobj option \<times> err option) \<times> 'w rstate" where
  "handle_done onError req st = (case handleError onError req None st of (err, st) \<Rightarrow> ((hobject st, err), hrs st))"

definition handle_save ::
  "('w, 'a) backend_scheme \<Rightarrow> 'w error_handler option \<Rightarrow> kobj option \<Rightarrow> request \<Rightarrow> 'w hstate
     \<Rightarrow> (kobj option \<times> err option) \<times> 'w rstate" where
  "handle_save B onError unmodifiedObject req st =
     (case save B req unmodifiedObject (hobject st) (hrs st) of
        ((newObj, err), rs) \<Rightarrow>
     (case unless_handled onError req err (st\<lparr>hrs := rs\<rparr>) of
        (Some err, st) \<Rightarrow> ((None, Some err), hrs st)
      | (None, st) \<Rightarrow>
          let st = st\<lparr>hobject := newObj\<rparr> in
          if 0 < respDelay (hresp st)
          then (case bTrigger B (rworld (hrs st)) (reqGVK req) (reqKey req) (respDelay (hresp st)) of
                  (Some err, w) \<Rightarrow> ((None, Some err), (hrs st)\<lparr>rworld := w\<rparr>)
                | (None, w) \<Rightarrow> handle_done onError req (st\<lparr>hrs := (hrs st)\<lparr>rworld := w\<rparr>\<rparr>))
          else handle_done onError req st))"

definition HandlerSet_handle ::
  "('w, 'a) backend_scheme \<Rightarrow> 'w error_handler option \<Rightarrow> 'w handlers \<Rightarrow> gvk \<Rightarrow> string \<Rightarrow> kobj option
     \<Rightarrow> bool \<Rightarrow> 'w rstate \<Rightarrow> (kobj option \<times> err option) \<times> 'w rstate" where
  "HandlerSet_handle B onError h g key unmodifiedObject trigger rs =
     (case newRequestResponse g key unmodifiedObject trigger rs of
        (req, st) \<Rightarrow>
          if Handles h req
          then (case handlers_Handle h req st of
                  (err, st) \<Rightarrow>
               (case unless_handled onError req err st of
                  (Some err, st) \<Rightarrow> ((None, Some err), hrs st)
                | (None, st) \<Rightarrow>
                    handle_save B onError unmodifiedObject req (set_off_triggers unmodifiedObject req st)))
          else handle_done onError req (set_off_triggers unmodifiedObject req st))"

section \<open>Back-off\<close>

record limiterKey =
  lkKey :: string
  lkGVK :: gvk

record 'l backoff =
  limiters :: "(limiterKey, 'l) gomap"
  waiting :: "(limiterKey, unit) gomap"
  timers :: "(limiterKey \<times> int) list"

definition checkDelay ::
  "'l \<Rightarrow> ('l \<Rightarrow> int \<Rightarrow> int \<times> 'l) \<Rightarrow> int \<Rightarrow> gvk \<Rightarrow> string \<Rightarrow> 'l backoff \<Rightarrow> bool \<times> 'l backoff" where
  "checkDelay NewLimiter reserve now g key m =
     (let lKey = \<lparr>lkKey = key, lkGVK = g\<rparr> in
      if map_of (waiting m) lKey \<noteq> None then (False, m)
      else
        let limit = (case map_of (limiters m) lKey of None \<Rightarrow> NewLimiter | Some l \<Rightarrow> l) in
        (case reserve limit now of
           (delay, limit) \<Rightarrow>
             let m = m\<lparr>limiters := AList.update lKey limit (limiters m)\<rparr> in
             if 0 < delay
             then (False, m\<lparr>waiting := AList.update lKey () (waiting m), timers := timers m @ [(lKey, delay)]\<rparr>)
             else (True, m)))"

definition forgetBackoff :: "gvk \<Rightarrow> string \<Rightarrow> 'l backoff \<Rightarrow> 'l backoff" where
  "forgetBackoff g key m = m\<lparr>limiters := AList.delete \<lparr>lkKey = key, lkGVK = g\<rparr> (limiters m)\<rparr>"

text \<open>
  The end of the sleep of the \<open>i\<close>-th timer: the key may be delayed again, and the backend's \<open>Trigger\<close> is
  called (its error is dropped) with the kind and key that are returned.
\<close>

definition wake :: "nat \<Rightarrow> 'l backoff \<Rightarrow> (gvk \<times> string) \<times> 'l backoff" where
  "wake i m =
     (let lKey = fst (timers m ! i) in
      ((lkGVK lKey, ReplayPrefix @ lkKey lKey),
       m\<lparr>waiting := AList.delete lKey (waiting m), timers := take i (timers m) @ drop (Suc i) (timers m)\<rparr>))"

record ('w, 'l) handler_set =
  hset_rs :: "'w rstate"
  hset_backoff :: "'l backoff"

definition NewHandlerSet :: "'w \<Rightarrow> 'w handlers \<times> ('w, 'l) handler_set" where
  "NewHandlerSet w =
     ([], \<lparr>hset_rs = \<lparr>rworld = w, rtriggers = \<lparr>matchers = [], toTrigger = []\<rparr>, rwatching = [], rgvks = []\<rparr>,
           hset_backoff = \<lparr>limiters = [], waiting = [], timers = []\<rparr>\<rparr>)"

text \<open>The handlers of a kind run in the order they were added, whatever was added for other kinds in between.\<close>

theorem added_handlers_run_in_order:
  "fst (handlers_Handle (foldl (\<lambda>h (name, g, hdl). AddHandler name g hdl h) (fst (NewHandlerSet w)) adds) req st) =
     NewErrors (fst (run_handlers [(name, hdl). (name, g, hdl) \<leftarrow> adds, g = reqGVK req] req st))"
  unfolding handlers_Handle_def handlers_of_added by (simp add: NewHandlerSet_def handlers_of_def split: prod.split)

text \<open>The per-key lock only orders passes over the same key; the model runs one pass at a time.\<close>

definition onChange ::
  "('w, 'a) backend_scheme \<Rightarrow> 'l \<Rightarrow> ('l \<Rightarrow> int \<Rightarrow> int \<times> 'l) \<Rightarrow> int \<Rightarrow> 'w error_handler option \<Rightarrow> 'w handlers
     \<Rightarrow> gvk \<Rightarrow> string \<Rightarrow> kobj option \<Rightarrow> ('w, 'l) handler_set \<Rightarrow> (kobj option \<times> err option) \<times> ('w, 'l) handler_set"
where
  "onChange B NewLimiter reserve now onError h g key runtimeObject s =
     (let origin = key_origin_of key; key = originKey origin in
      case (if \<not> fromReplay origin \<and> \<not> fromTrigger origin
            then checkDelay NewLimiter reserve now g key (hset_backoff s) else (True, hset_backoff s)) of
        (False, bo) \<Rightarrow> ((runtimeObject, None), s\<lparr>hset_backoff := bo\<rparr>)
      | (True, bo) \<Rightarrow>
          let s = s\<lparr>hset_backoff := bo\<rparr> in
     (case schemeNew B g of
        NewErr err \<Rightarrow> ((None, Some err), s)
      | NotRegistered \<Rightarrow> ((None, Some (Err ''no kind is registered'')), s)
      | NewOk goType \<Rightarrow>
     (case cut_key key of
        (ns, name) \<Rightarrow>
     (case clGet B (rworld (hset_rs s)) g goType (mk_key ns name) of
        (r, w) \<Rightarrow>
          let s = s\<lparr>hset_rs := (hset_rs s)\<lparr>rworld := w\<rparr>\<rparr>;
              go = (\<lambda>obj. let s = (if obj = None then s\<lparr>hset_backoff := forgetBackoff g key (hset_backoff s)\<rparr> else s)
                         in case HandlerSet_handle B onError h g key obj (fromTrigger origin) (hset_rs s) of
                              (res, rs) \<Rightarrow> (res, s\<lparr>hset_rs := rs\<rparr>))
          in (case r of
                Inr obj \<Rightarrow> go (Some obj)
              | Inl err \<Rightarrow> if \<not> IsNotFound (Some err) then ((None, Some err), s) else go runtimeObject)))))"

section \<open>Properties of a pass\<close>

lemma set_off_triggers_hresp [simp]:
  "hresp (set_off_triggers u req st) = hresp st" "hobject (set_off_triggers u req st) = hobject st"
  by (simp_all add: set_off_triggers_def Let_def)

text \<open>A pass that fails changes nothing after its handlers: with no error handler installed, when a
  handler of the key fails the pass returns the error, no trigger is set off, the status is not saved and no
  retry is scheduled: the state is the one the handlers left.\<close>

theorem handle_fails_early:
  assumes "newRequestResponse g key obj trigger rs = (req, st)"
    and "handlers_Handle h req st = (Some err, st')"
  shows "HandlerSet_handle B None h g key obj trigger rs = ((None, Some err), hrs st')"
proof -
  have "Handles h req"
    using assms(2) by (auto simp: handlers_Handle_def Handles_def NewErrors_def split: prod.splits)
  with assms show ?thesis by (simp add: HandlerSet_handle_def unless_handled_def handleError_def)
qed

definition example_request_state :: "kobj option \<Rightarrow> request \<times> kobj list hstate" where
  "example_request_state obj = newRequestResponse cm_gvk ''ns/app'' obj False (empty_rstate [])"

theorem handle_fails_early_witness:
  "fst (HandlerSet_handle (memory_backend False) None [(cm_gvk, [(''h'', \<lambda>req st. (Some (Err ''boom''), st))])]
     cm_gvk ''ns/app'' (Some empty_obj) False (empty_rstate [])) = (None, Some (Err ''boom''))"
proof -
  let ?h = "[(cm_gvk, [(''h'', \<lambda>req (st :: kobj list hstate). (Some (Err ''boom''), st))])]"
  obtain req st where n: "newRequestResponse cm_gvk ''ns/app'' (Some empty_obj) False
      (empty_rstate [] :: kobj list rstate) = (req, st)" by fastforce
  then have "handlers_Handle ?h req st = (Some (Err ''boom''), st)"
    by (auto simp: newRequestResponse_def handlers_Handle_def handlers_of_def NewErrors_def split: prod.splits)
  from handle_fails_early [OF n this, of "memory_backend False"] show ?thesis by simp
qed

text \<open>The error handler's last word is about no error: with an error handler that always answers nil for an
  error (so that the key is not queued again), a pass that gets as far as its end returns what the handler says
  for a nil error, also when it has just been called with a handler's error: the error state that it
  recorded is cleared in the same pass.\<close>

theorem error_handler_called_with_nil_last:
  assumes "\<And>req err st. fst (f req (Some err) st) = None"
    and "\<And>w g k d. fst (bTrigger B w g k d) = None"
  shows "\<exists>req st. HandlerSet_handle B (Some f) h g key obj trigger rs =
      ((hobject (snd (f req None st)), fst (f req None st)), hrs (snd (f req None st)))"
proof -
  have fin: "\<exists>st'. handle_done (Some f) req st =
      ((hobject (snd (f req None st')), fst (f req None st')), hrs (snd (f req None st')))" for req st
    by (intro exI [of _ st]) (simp add: handle_done_def handleError_def split: prod.split)
  have un: "fst (unless_handled (Some f) req err st) = None" for req err st
    using assms(1) by (simp add: unless_handled_def handleError_def split: option.splits)
  have saved: "\<exists>st'. handle_save B (Some f) u req st =
      ((hobject (snd (f req None st')), fst (f req None st')), hrs (snd (f req None st')))" for u req st
  proof -
    obtain n err rs' where s: "save B req u (hobject st) (hrs st) = ((n, err), rs')" by (metis prod.exhaust)
    obtain st1 where st1: "unless_handled (Some f) req err (st\<lparr>hrs := rs'\<rparr>) = (None, st1)"
      using un by (metis prod.collapse)
    show ?thesis
    proof (cases "0 < respDelay (hresp st1)")
      case True
      obtain w where "bTrigger B (rworld (hrs st1)) (reqGVK req) (reqKey req) (respDelay (hresp st1)) = (None, w)"
        using assms(2) by (metis prod.collapse)
      with True fin show ?thesis by (simp add: handle_save_def s st1 Let_def)
    next
      case False
      with fin show ?thesis by (simp add: handle_save_def s st1 Let_def)
    qed
  qed
  obtain req st where n: "newRequestResponse g key obj trigger rs = (req, st)" by fastforce
  show ?thesis
  proof (cases "Handles h req")
    case True
    obtain err st1 where "handlers_Handle h req st = (err, st1)" by fastforce
    moreover obtain st2 where "unless_handled (Some f) req err st1 = (None, st2)"
      using un by (metis prod.collapse)
    ultimately show ?thesis
      using n True saved [of obj req "set_off_triggers obj req st2"] by (auto simp: HandlerSet_handle_def)
  next
    case False
    with n fin [of req "set_off_triggers obj req st"] show ?thesis by (auto simp: HandlerSet_handle_def)
  qed
qed

text \<open>An error handler that keeps the last error it was told in a label of the object.\<close>

definition recording_error_handler :: "kobj list error_handler" where
  "recording_error_handler req err st =
     (None, st\<lparr>hobject := map_option (\<lambda>o'. o'\<lparr>Labels := (Labels o')(''error'' :=
        (case err of None \<Rightarrow> None | Some e \<Rightarrow> Some (err_text e)))\<rparr>) (hobject st)\<rparr>)"

theorem error_handler_called_with_nil_last_witness:
  "\<forall>obj. fst (fst (HandlerSet_handle (memory_backend False) (Some recording_error_handler)
     [(cm_gvk, [(''h'', \<lambda>req st. (Some (Err ''boom''), st))])]
     cm_gvk ''ns/app'' (Some empty_obj) False (empty_rstate []))) = Some obj \<longrightarrow> Labels obj ''error'' = None"
proof -
  have r: "fst (recording_error_handler req (Some err) st) = None" for req err st
    by (simp add: recording_error_handler_def)
  have t: "fst (bTrigger (memory_backend False) w g k d) = None" for w g k d by simp
  from error_handler_called_with_nil_last [where f = recording_error_handler and B = "memory_backend False", OF r t,
      of "[(cm_gvk, [(''h'', \<lambda>req st. (Some (Err ''boom''), st))])]" cm_gvk "''ns/app''" "Some empty_obj" False
      "empty_rstate []"]
  show ?thesis by (auto simp: recording_error_handler_def)
qed

section \<open>Properties of the back-off\<close>

inductive backoff_step :: "'l \<Rightarrow> ('l \<Rightarrow> int \<Rightarrow> int \<times> 'l) \<Rightarrow> 'l backoff \<Rightarrow> 'l backoff \<Rightarrow> bool"
  for NewLimiter reserve where
  "checkDelay NewLimiter reserve now g key m = (ok, m') \<Longrightarrow> backoff_step NewLimiter reserve m m'"
| "backoff_step NewLimiter reserve m (forgetBackoff g key m)"
| "i < length (timers m) \<Longrightarrow> backoff_step NewLimiter reserve m (snd (wake i m))"

inductive_cases backoff_stepE: "backoff_step NewLimiter reserve m m'"

definition backoff_init :: "'l backoff" where
  "backoff_init = \<lparr>limiters = [], waiting = [], timers = []\<rparr>"

definition timer_keys :: "'l backoff \<Rightarrow> limiterKey list" where
  "timer_keys m = map fst (timers m)"

lemma timer_keys_simps [simp]:
  "timer_keys (m\<lparr>limiters := l\<rparr>) = timer_keys m" "timer_keys (m\<lparr>waiting := wt\<rparr>) = timer_keys m"
  "timer_keys (m\<lparr>timers := ts\<rparr>) = map fst ts"
  by (simp_all add: timer_keys_def)

definition backoff_ok :: "'l backoff \<Rightarrow> bool" where
  "backoff_ok m \<longleftrightarrow> distinct (timer_keys m) \<and> (\<forall>k. map_of (waiting m) k \<noteq> None \<longleftrightarrow> k \<in> set (timer_keys m))"

lemma checkDelay_ok:
  assumes "backoff_ok m" and "checkDelay new reserve now g key m = (ok, m')"
  shows "backoff_ok m'" and "\<not> ok \<Longrightarrow> \<lparr>lkKey = key, lkGVK = g\<rparr> \<in> set (timer_keys m')"
proof -
  let ?k = "\<lparr>lkKey = key, lkGVK = g\<rparr>"
  have *: "backoff_ok m' \<and> (\<not> ok \<longrightarrow> ?k \<in> set (timer_keys m'))"
  proof (cases "map_of (waiting m) ?k = None")
    case False
    with assms show ?thesis by (auto simp: checkDelay_def Let_def backoff_ok_def)
  next
    case True
    obtain d l where r: "reserve (case map_of (limiters m) ?k of None \<Rightarrow> new | Some l \<Rightarrow> l) now = (d, l)"
      by fastforce
    have "?k \<notin> set (timer_keys m)" using assms(1) True unfolding backoff_ok_def by blast
    then have new: "?k \<notin> set (map fst (timers m))" by (simp add: timer_keys_def)
    have ok: "distinct (map fst (timers m))"
      "map_of (waiting m) k \<noteq> None \<longleftrightarrow> k \<in> set (map fst (timers m))" for k
      using assms(1) unfolding backoff_ok_def timer_keys_def by blast+
    show ?thesis
    proof (cases "0 < d")
      case True
      with assms(2) \<open>map_of (waiting m) ?k = None\<close> r have eq: "ok = False"
        "m' = m\<lparr>limiters := AList.update ?k l (limiters m), waiting := AList.update ?k () (waiting m),
           timers := timers m @ [(?k, d)]\<rparr>"
        by (simp_all add: checkDelay_def Let_def)
      have w: "map_of (waiting m') k \<noteq> None \<longleftrightarrow> k = ?k \<or> map_of (waiting m) k \<noteq> None" for k
        by (simp add: eq)
      have t: "timer_keys m' = map fst (timers m) @ [?k]" by (simp add: eq)
      show ?thesis
        using ok new unfolding backoff_ok_def w t by auto
    next
      case False
      with assms(2) \<open>map_of (waiting m) ?k = None\<close> r have eq: "ok = True"
        "m' = m\<lparr>limiters := AList.update ?k l (limiters m)\<rparr>"
        by (simp_all add: checkDelay_def Let_def)
      then show ?thesis using assms(1) by (simp add: backoff_ok_def)
    qed
  qed
  then show "backoff_ok m'" "\<not> ok \<Longrightarrow> ?k \<in> set (timer_keys m')" by blast+
qed

lemma wake_ok:
  assumes "backoff_ok m" and "i < length (timers m)"
  shows "backoff_ok (snd (wake i m))"
proof -
  let ?ks = "timer_keys m"
  have i: "i < length ?ks" using assms(2) by (simp add: timer_keys_def)
  have ks: "timer_keys (snd (wake i m)) = take i ?ks @ drop (Suc i) ?ks"
    by (simp add: wake_def Let_def timer_keys_def take_map drop_map)
  have "distinct (take i ?ks @ ?ks ! i # drop (Suc i) ?ks)"
    using assms(1) i by (simp add: backoff_ok_def id_take_nth_drop [symmetric])
  moreover have "set ?ks = insert (?ks ! i) (set (take i ?ks @ drop (Suc i) ?ks))"
    by (subst id_take_nth_drop [OF i]) simp
  ultimately have "set (take i ?ks @ drop (Suc i) ?ks) = set ?ks - {?ks ! i}"
    and "distinct (take i ?ks @ drop (Suc i) ?ks)" by auto
  moreover have "map_of (waiting (snd (wake i m))) = (map_of (waiting m))(?ks ! i := None)"
    using assms(2) by (simp add: wake_def Let_def timer_keys_def)
  ultimately show ?thesis using assms(1) by (auto simp: backoff_ok_def ks)
qed

text \<open>C18: a delayed event is not lost and not multiplied: in every state reachable from the start by
  events, wake-ups and forgetting, each key that is being held back has exactly one sleeping timer and each
  timer belongs to such a key; and an event that is refused leaves its key held back.\<close>

theorem backoff_reachable:
  assumes "(backoff_step NewLimiter reserve)\<^sup>*\<^sup>* backoff_init m"
  shows "distinct (timer_keys m) \<and>
    (\<forall>k. map_of (waiting m) k \<noteq> None \<longleftrightarrow> k \<in> set (timer_keys m)) \<and>
    (\<forall>now g key m'. checkDelay NewLimiter reserve now g key m = (False, m') \<longrightarrow>
       \<lparr>lkKey = key, lkGVK = g\<rparr> \<in> set (timer_keys m'))"
proof -
  from assms have ok: "backoff_ok m"
  proof (induction rule: rtranclp_induct)
    case base
    show ?case by (simp add: backoff_ok_def backoff_init_def timer_keys_def)
  next
    case (step m m')
    from step(2,3) show ?case
      by (auto elim!: backoff_stepE intro: checkDelay_ok(1) wake_ok)
        (simp add: backoff_ok_def forgetBackoff_def)
  qed
  with checkDelay_ok(2) [OF ok] show ?thesis unfolding backoff_ok_def by blast
qed

theorem backoff_reachable_witness:
  "\<exists>m'. checkDelay (0::nat) (\<lambda>l now. (5, Suc l)) 0 cm_gvk ''ns/a'' backoff_init = (False, m') \<and>
     \<lparr>lkKey = ''ns/a'', lkGVK = cm_gvk\<rparr> \<in> set (timer_keys m')"
proof -
  obtain m' where c: "checkDelay (0::nat) (\<lambda>l now. (5, Suc l)) 0 cm_gvk ''ns/a'' backoff_init = (False, m')"
    by (simp add: checkDelay_def backoff_init_def Let_def)
  from backoff_reachable [of "0::nat" "\<lambda>l now. (5, Suc l)" backoff_init] c show ?thesis by blast
qed

text \<open>
  \<open>hands_on\<close>: with the result \<open>res\<close> the object of \<open>key\<close> has been read and what was read passed to the handlers: when it is
  found the object, when it is not found what came with the event; the pass's result and state are the result. When it
  cannot be read that is the error.
\<close>

definition hands_on ::
  "('w, 'a) backend_scheme \<Rightarrow> 'w error_handler option \<Rightarrow> 'w handlers \<Rightarrow> gvk \<Rightarrow> string \<Rightarrow> kobj option \<Rightarrow> string
     \<Rightarrow> 'w rstate \<Rightarrow> (kobj option \<times> err option) \<times> ('w, 'l) handler_set \<Rightarrow> bool" where
  "hands_on B onError h g key runtimeObject goType rs res \<longleftrightarrow>
     (case clGet B (rworld rs) g goType (mk_key (fst (cut_key key)) (snd (cut_key key))) of
        (r, w) \<Rightarrow>
          let passed = (\<lambda>obj. (fst res, hset_rs (snd res)) = HandlerSet_handle B onError h g key obj False (rs\<lparr>rworld := w\<rparr>))
          in (case r of
                Inr obj \<Rightarrow> passed (Some obj)
              | Inl err \<Rightarrow> if IsNotFound (Some err) then passed runtimeObject else fst res = (None, Some err)))"

text \<open>C19: an event is either handled now or replayed later: for a key that names an object of a kind the scheme knows, a
  change event that the back-off admits is passed to the handlers, with the object as it is read, and one that it does
  not admit is not: then nothing else happens but that its key is held back by a timer. The replay that the timer
  sends, in the form in which it comes out of the queue, is passed to the handlers in the same way, whatever the
  back-off would say.\<close>

theorem onChange_replays:
  assumes "CHR '' '' \<notin> set key" and "backoff_ok (hset_backoff s)" and "schemeNew B g = NewOk goType"
  shows "(let res = onChange B NewLimiter reserve now onError h g key obj s in
      if fst (checkDelay NewLimiter reserve now g key (hset_backoff s))
      then hands_on B onError h g key obj goType (hset_rs s) res
      else \<lparr>lkKey = key, lkGVK = g\<rparr> \<in> set (timer_keys (hset_backoff (snd res))) \<and> hset_rs (snd res) = hset_rs s \<and>
        fst res = (obj, None)) \<and>
    hands_on B onError h g key obj goType (hset_rs s)
      (onChange B NewLimiter reserve now onError h g (TriggerPrefix @ ReplayPrefix @ key) obj s)"
proof -
  obtain ok bo where c: "checkDelay NewLimiter reserve now g key (hset_backoff s) = (ok, bo)" by fastforce
  obtain ns n where k: "cut_key key = (ns, n)" by fastforce
  have "hands_on B onError h g key obj goType (hset_rs s)
      (onChange B NewLimiter reserve now onError h g (TriggerPrefix @ ReplayPrefix @ key) obj s)"
    using k key_origin_of_replay assms(3)
    by (auto simp: onChange_def Let_def hands_on_def split: prod.splits sum.splits)
  moreover have "let res = onChange B NewLimiter reserve now onError h g key obj s in
      if ok then hands_on B onError h g key obj goType (hset_rs s) res
      else \<lparr>lkKey = key, lkGVK = g\<rparr> \<in> set (timer_keys (hset_backoff (snd res))) \<and> hset_rs (snd res) = hset_rs s \<and>
        fst res = (obj, None)"
    using c k key_origin_of_plain [OF assms(1)] assms(3) checkDelay_ok(2) [OF assms(2) c]
    by (auto simp: onChange_def Let_def hands_on_def split: prod.splits sum.splits)
  ultimately show ?thesis using c by simp
qed

theorem onChange_replays_witness:
  "let s = \<lparr>hset_rs = empty_rstate [], hset_backoff = backoff_init\<rparr>;
       s' = snd (onChange (memory_backend False) (0::nat) (\<lambda>l now. (5, Suc l)) 0 None [] cm_gvk ''ns/a'' None s)
   in \<lparr>lkKey = ''ns/a'', lkGVK = cm_gvk\<rparr> \<in> set (timer_keys (hset_backoff s'))"
proof -
  let ?s = "\<lparr>hset_rs = empty_rstate [], hset_backoff = backoff_init\<rparr>"
  obtain t where t: "schemeNew (memory_backend False) cm_gvk = NewOk t"
    by (simp add: example_lib_def)
  have "CHR '' '' \<notin> set ''ns/a''" "backoff_ok (hset_backoff ?s)"
    by (simp_all add: backoff_ok_def backoff_init_def timer_keys_def)
  from onChange_replays [OF this t, of "0::nat" "\<lambda>l now. (5, Suc l)" 0 None "[]" None]
  show ?thesis by (simp add: Let_def checkDelay_def backoff_init_def)
qed

section \<open>Starting a handler set\<close>

text \<open>\<open>start\<close> is the backend's \<open>Start\<close> or \<open>Preload\<close>: the two operations of the set differ in nothing else.\<close>

definition HandlerSet_Start ::
  "('w, 'a) backend_scheme \<Rightarrow> ('w \<Rightarrow> err option \<times> 'w) \<Rightarrow> 'w handlers \<Rightarrow> 'w rstate \<Rightarrow> err option \<times> 'w rstate" where
  "HandlerSet_Start B start h rs =
     (case WatchGVK B (handlers_GVKs h) rs of
        (Some err, rs) \<Rightarrow> (Some err, rs)
      | (None, rs) \<Rightarrow> (case start (rworld rs) of (err, w) \<Rightarrow> (err, rs\<lparr>rworld := w\<rparr>)))"

lemma HandlerSet_Start_watches:
  assumes "HandlerSet_Start B start h rs = (None, rs')" and "g \<in> set (handlers_GVKs h)"
  shows "map_of (rwatching rs') g = Some True"
proof -
  obtain e rs1 where w: "WatchGVK B (handlers_GVKs h) rs = (e, rs1)" by fastforce
  with assms(1) have "e = None" "rwatching rs' = rwatching rs1"
    by (auto simp: HandlerSet_Start_def split: option.splits prod.splits)
  with WatchGVK_frame [OF w] assms(2) show ?thesis by simp
qed

end
