(* ===== verification/Trigger_Loop.thy ===== *)
theory Trigger_Loop
  imports Triggers
begin

text \<open>
  pkg/router/trigger.go with its goroutines: a step is one access to the shared maps. A registration is three calls of
  \<open>LoadOrStore\<close>, made without a lock; \<open>process\<close> runs without the lock of \<open>kick\<close> and is a range over the kinds, over the
  targets of each and over the matchers of each target, then the deletes; registrations and triggers of other
  goroutines come between any two of its steps. What a matcher fires is found in \<open>pending\<close>, which no other goroutine
  sees, so firing one is a step.
\<close>

section \<open>The accesses to the maps\<close>

text \<open>\<open>LoadOrStore\<close> of the kind, of the target and of the matcher; the two deletes.\<close>

definition ensure_kind :: "gvk \<Rightarrow> matchers \<Rightarrow> matchers" where
  "ensure_kind g m = (if map_of m g = None then AList.update g [] m else m)"

definition ensure_target :: "gvk \<Rightarrow> enqueueTarget \<Rightarrow> matchers \<Rightarrow> matchers" where
  "ensure_target g t m =
     (if map_of (by_target m g) t = None then AList.update g (AList.update t [] (by_target m g)) m else m)"

definition put_keys :: "gvk \<Rightarrow> enqueueTarget \<Rightarrow> (string, objectMatcher) gomap \<Rightarrow> matchers \<Rightarrow> matchers" where
  "put_keys g t b m = AList.update g (AList.update t b (by_target m g)) m"

definition store_matcher :: "gvk \<Rightarrow> enqueueTarget \<Rightarrow> objectMatcher \<Rightarrow> matchers \<Rightarrow> matchers" where
  "store_matcher g t mr m =
     (if map_of (by_key m g t) (objectMatcher_String mr) = None
      then put_keys g t (AList.update (objectMatcher_String mr) mr (by_key m g t)) m else m)"

definition delete_target :: "gvk \<Rightarrow> enqueueTarget \<Rightarrow> matchers \<Rightarrow> matchers" where
  "delete_target g t m = AList.update g (AList.delete t (by_target m g)) m"

definition delete_key :: "gvk \<Rightarrow> enqueueTarget \<Rightarrow> string \<Rightarrow> matchers \<Rightarrow> matchers" where
  "delete_key g t s m = put_keys g t (AList.delete s (by_key m g t)) m"

section \<open>Registrations and rounds\<close>

text \<open>
  A call of \<open>register\<close> that has made one, two or all three of its calls. It holds the pointer to the map of its target
  after the second; when \<open>process\<close> deletes the target from the kind's map the pointer leads to a map nobody sees.
\<close>

datatype reg_stage = HasKind | HasTarget | Detached | Stored

record registration =
  rgKind :: gvk
  rgTarget :: enqueueTarget
  rgMatcher :: objectMatcher
  rgStage :: reg_stage

text \<open>
  A range over a \<open>sync.Map\<close>: the keys that were present when it started and the keys visited so far. It visits a key at
  most once and ends when all those that were present have been; it may visit keys stored since.
\<close>

type_synonym 'k range = "'k list \<times> 'k list"

text \<open>Where \<open>process\<close> is: about to start, in the range over the kinds, over the targets of a kind, over the matchers of a
  target, in the loop over \<open>pending\<close> that deletes, in the second range over the targets, in the loop over \<open>deleteKeys\<close>.\<close>

datatype position =
    Taken
  | Kinds "gvk range"
  | Targets "gvk range" gvk "enqueueTarget range"
  | Keys "gvk range" gvk "enqueueTarget range" enqueueTarget "string range"
  | Deletes "gvk range" gvk "triggerKey list"
  | Targets2 "gvk range" gvk "enqueueTarget range"
  | Keys2 "gvk range" gvk "enqueueTarget range" enqueueTarget "string list"

text \<open>\<open>working\<close> is \<open>workingTrigger\<close> and the position while \<open>process\<close> runs, \<open>calls\<close> the calls of \<open>register\<close> under way,
  \<open>enqueued\<close> the calls made to the backend's \<open>Trigger\<close> so far.\<close>

record trigger_loop =
  tstate :: triggers
  working :: "((triggerKey, kobj option) gomap \<times> position) option"
  calls :: "(nat, registration) gomap"
  enqueued :: "enqueueTarget list"

abbreviation set_matchers :: "matchers \<Rightarrow> trigger_loop \<Rightarrow> trigger_loop" where
  "set_matchers m s \<equiv> s\<lparr>tstate := (tstate s)\<lparr>matchers := m\<rparr>\<rparr>"

abbreviation the_matchers :: "trigger_loop \<Rightarrow> matchers" where
  "the_matchers s \<equiv> matchers (tstate s)"

definition begin_call :: "nat \<Rightarrow> gvk \<Rightarrow> enqueueTarget \<Rightarrow> objectMatcher \<Rightarrow> trigger_loop \<Rightarrow> trigger_loop" where
  "begin_call i g t mr s = set_matchers (ensure_kind g (the_matchers s))
     (s\<lparr>calls := AList.update i \<lparr>rgKind = g, rgTarget = t, rgMatcher = mr, rgStage = HasKind\<rparr> (calls s)\<rparr>)"

definition target_call :: "nat \<Rightarrow> registration \<Rightarrow> trigger_loop \<Rightarrow> trigger_loop" where
  "target_call i r s = set_matchers (ensure_target (rgKind r) (rgTarget r) (the_matchers s))
     (s\<lparr>calls := AList.update i (r\<lparr>rgStage := HasTarget\<rparr>) (calls s)\<rparr>)"

definition store_call :: "nat \<Rightarrow> registration \<Rightarrow> trigger_loop \<Rightarrow> trigger_loop" where
  "store_call i r s = set_matchers
     (if rgStage r = HasTarget then store_matcher (rgKind r) (rgTarget r) (rgMatcher r) (the_matchers s)
      else the_matchers s)
     (s\<lparr>calls := AList.update i (r\<lparr>rgStage := Stored\<rparr>) (calls s)\<rparr>)"

definition detach_one :: "gvk \<Rightarrow> enqueueTarget \<Rightarrow> registration \<Rightarrow> registration" where
  "detach_one g t r =
     (if rgKind r = g \<and> rgTarget r = t \<and> rgStage r = HasTarget then r\<lparr>rgStage := Detached\<rparr> else r)"

definition detach :: "gvk \<Rightarrow> enqueueTarget \<Rightarrow> (nat, registration) gomap \<Rightarrow> (nat, registration) gomap" where
  "detach g t c = map (\<lambda>(i, r). (i, detach_one g t r)) c"

text \<open>The steps of \<open>process\<close>. The keys of a range are the names of the map it ranges over.\<close>

abbreviation goto :: "(triggerKey, kobj option) gomap \<Rightarrow> position \<Rightarrow> trigger_loop \<Rightarrow> trigger_loop" where
  "goto p pos s \<equiv> s\<lparr>working := Some (p, pos)\<rparr>"

inductive round_step :: "(kobj \<Rightarrow> bool) \<Rightarrow> trigger_loop \<Rightarrow> trigger_loop \<Rightarrow> bool" for isF where
  start: "working s = Some (p, Taken) \<Longrightarrow>
     round_step isF s (goto p (Kinds (map fst (the_matchers s), [])) s)"
| kind: "working s = Some (p, Kinds (ks, vs)) \<Longrightarrow> g \<in> fst ` set (the_matchers s) \<Longrightarrow> g \<notin> set vs \<Longrightarrow>
     round_step isF s (goto p (Targets (ks, g # vs) g (map fst (by_target (the_matchers s) g), [])) s)"
| kinds_end: "working s = Some (p, Kinds (ks, vs)) \<Longrightarrow> set ks \<subseteq> set vs \<Longrightarrow>
     round_step isF s (s\<lparr>working := None\<rparr>)"
| target: "working s = Some (p, Targets kr g (ts, us)) \<Longrightarrow> t \<in> fst ` set (by_target (the_matchers s) g) \<Longrightarrow>
     t \<notin> set us \<Longrightarrow>
     round_step isF s (goto p (Keys kr g (ts, t # us) t (map fst (by_key (the_matchers s) g t), [])) s)"
| targets_end: "working s = Some (p, Targets kr g (ts, us)) \<Longrightarrow> set ts \<subseteq> set us \<Longrightarrow>
     round_step isF s (goto p (Deletes kr g (removed_keys p)) s)"
| key: "working s = Some (p, Keys kr g tr t (ss, vs)) \<Longrightarrow> map_of (by_key (the_matchers s) g t) u = Some mt \<Longrightarrow>
     u \<notin> set vs \<Longrightarrow>
     round_step isF s ((goto p (Keys kr g tr t (ss, u # vs)) s)\<lparr>enqueued := enqueued s @ fire_one isF p g t mt\<rparr>)"
| keys_end: "working s = Some (p, Keys kr g tr t (ss, vs)) \<Longrightarrow> set ss \<subseteq> set vs \<Longrightarrow>
     round_step isF s (goto p (Targets kr g tr) s)"
| delete: "working s = Some (p, Deletes kr g (k # ks)) \<Longrightarrow>
     round_step isF s (set_matchers (delete_target g (target_of k) (the_matchers s))
       ((goto p (Deletes kr g ks) s)\<lparr>calls := detach g (target_of k) (calls s)\<rparr>))"
| deletes_end: "working s = Some (p, Deletes kr g []) \<Longrightarrow>
     round_step isF s (goto p (if length (delete_strings p g) > 0
       then Targets2 kr g (map fst (by_target (the_matchers s) g), []) else Kinds kr) s)"
| target2: "working s = Some (p, Targets2 kr g (ts, us)) \<Longrightarrow> t \<in> fst ` set (by_target (the_matchers s) g) \<Longrightarrow>
     t \<notin> set us \<Longrightarrow>
     round_step isF s (goto p (Keys2 kr g (ts, t # us) t (delete_strings p g)) s)"
| targets2_end: "working s = Some (p, Targets2 kr g (ts, us)) \<Longrightarrow> set ts \<subseteq> set us \<Longrightarrow>
     round_step isF s (goto p (Kinds kr) s)"
| key2: "working s = Some (p, Keys2 kr g tr t (u # ss)) \<Longrightarrow>
     round_step isF s (set_matchers (delete_key g t u (the_matchers s)) (goto p (Keys2 kr g tr t ss) s))"
| keys2_end: "working s = Some (p, Keys2 kr g tr t []) \<Longrightarrow>
     round_step isF s (goto p (Targets2 kr g tr) s)"

text \<open>What goes on once started: the second and third call of a registration, the loop of \<open>kick\<close> taking what is to be
  triggered, under its lock, and its round.\<close>

inductive loop_step :: "(kobj \<Rightarrow> bool) \<Rightarrow> trigger_loop \<Rightarrow> trigger_loop \<Rightarrow> bool" for isF where
  call_target: "map_of (calls s) i = Some r \<Longrightarrow> rgStage r = HasKind \<Longrightarrow> loop_step isF s (target_call i r s)"
| call_store: "map_of (calls s) i = Some r \<Longrightarrow> rgStage r \<in> {HasTarget, Detached} \<Longrightarrow>
     loop_step isF s (store_call i r s)"
| take: "toTrigger (tstate s) \<noteq> [] \<Longrightarrow> working s = None \<Longrightarrow>
     loop_step isF s (s\<lparr>working := Some (toTrigger (tstate s), Taken), tstate := (tstate s)\<lparr>toTrigger := []\<rparr>\<rparr>)"
| round: "round_step isF s s' \<Longrightarrow> loop_step isF s s'"

inductive trigger_step :: "(kobj \<Rightarrow> bool) \<Rightarrow> trigger_loop \<Rightarrow> trigger_loop \<Rightarrow> bool" for isF where
  step_register: "map_of (calls s) i = None \<Longrightarrow> trigger_step isF s (begin_call i g t mr s)"
| step_registered: "map_of (calls s) i = Some r \<Longrightarrow> rgStage r = Stored \<Longrightarrow>
     trigger_step isF s (s\<lparr>calls := AList.delete i (calls s)\<rparr>)"
| step_trigger: "trigger_step isF s (s\<lparr>tstate := Trigger n ns g obj (tstate s)\<rparr>)"
| step_unregister: "trigger_step isF s (s\<lparr>tstate := UnregisterAndTrigger n ns g (tstate s)\<rparr>)"
| step_loop: "loop_step isF s s' \<Longrightarrow> trigger_step isF s s'"

abbreviation trigger_steps :: "(kobj \<Rightarrow> bool) \<Rightarrow> trigger_loop \<Rightarrow> trigger_loop \<Rightarrow> bool" where
  "trigger_steps isF \<equiv> (trigger_step isF)\<^sup>*\<^sup>*"

abbreviation round_steps :: "(kobj \<Rightarrow> bool) \<Rightarrow> trigger_loop \<Rightarrow> trigger_loop \<Rightarrow> bool" where
  "round_steps isF \<equiv> (round_step isF)\<^sup>*\<^sup>*"

lemma round_then: "round_step isF s s' \<Longrightarrow> round_steps isF s' s'' \<Longrightarrow> round_steps isF s s''"
  by (rule converse_rtranclp_into_rtranclp)

lemma round_steps_trigger: "round_steps isF s s' \<Longrightarrow> trigger_steps isF s s'"
  by (induction rule: rtranclp_induct) (blast intro: rtranclp.rtrancl_into_rtrancl step_loop loop_step.round)+

section \<open>What the accesses change\<close>

lemma by_target_update: "by_target (AList.update g b m) g' = (if g' = g then b else by_target m g')"
  by (simp add: by_target_def)

lemma by_target_ensure_kind [simp]: "by_target (ensure_kind g m) = by_target m"
  by (auto simp: fun_eq_iff ensure_kind_def by_target_def)

lemma by_key_ensure_kind [simp]: "by_key (ensure_kind g m) = by_key m"
  by (simp add: fun_eq_iff by_key_def)

lemma by_key_put_keys [simp]: "by_key (put_keys g t b m) g' t' = (if g' = g \<and> t' = t then b else by_key m g' t')"
  by (simp add: put_keys_def by_key_def by_target_update)

lemma by_key_ensure_target [simp]: "by_key (ensure_target g t m) = by_key m"
  by (auto simp: fun_eq_iff ensure_target_def by_key_def by_target_update)

lemma by_key_delete_target [simp]:
  "by_key (delete_target g t m) g' t' = (if g' = g \<and> t' = t then [] else by_key m g' t')"
  by (simp add: delete_target_def by_key_def by_target_update)

lemma by_key_delete_key [simp]:
  "by_key (delete_key g t u m) g' t' = (if g' = g \<and> t' = t then AList.delete u (by_key m g t) else by_key m g' t')"
  by (simp add: delete_key_def)

lemma by_key_store_matcher:
  "by_key (store_matcher g t mr m) g' t' = (if g' = g \<and> t' = t \<and> map_of (by_key m g t) (objectMatcher_String mr) = None
     then AList.update (objectMatcher_String mr) mr (by_key m g t) else by_key m g' t')"
  by (simp add: store_matcher_def)

lemma mem_delete: "(k, v) \<in> set (AList.delete u m) \<longleftrightarrow> (k, v) \<in> set m \<and> k \<noteq> u"
  using mem_fold_delete_id [of k v "[u]" m] by simp

lemma by_key_ok_delete_one: "by_key_ok b \<Longrightarrow> by_key_ok (AList.delete u b)"
  by (simp add: by_key_ok_def mem_delete)

lemma by_target_ok_delete_one: "by_target_ok b \<Longrightarrow> by_target_ok (AList.delete t b)"
  unfolding by_target_ok_def mem_delete by auto

lemma access_ok:
  "matchers_ok m \<Longrightarrow> matchers_ok (ensure_kind g m)"
  "matchers_ok m \<Longrightarrow> matchers_ok (ensure_target g t m)"
  "matchers_ok m \<Longrightarrow> matchers_ok (store_matcher g t mr m)"
  "matchers_ok m \<Longrightarrow> matchers_ok (delete_target g t m)"
  "matchers_ok m \<Longrightarrow> matchers_ok (delete_key g t u m)"
  unfolding ensure_kind_def ensure_target_def store_matcher_def put_keys_def delete_target_def delete_key_def
  by (auto intro!: matchers_ok_update by_target_ok_update by_key_ok_update by_key_okI by_target_okI
      by_target_ok_delete_one by_key_ok_delete_one simp: by_target_ok_def by_key_ok_def)

section \<open>Undisturbed runs\<close>

text \<open>A registration that nothing comes between is \<open>register\<close> of the theory \<open>Triggers\<close>, and a round that nothing comes
  between is \<open>triggers_process\<close>.\<close>

lemma update_update: "AList.update k v (AList.update k v' m) = AList.update k v m"
  by (induction m) auto

lemma update_fresh_delete: "map_of m k = None \<Longrightarrow> AList.delete k (AList.update k v m) = m"
  by (induction m) (auto split: if_splits)

lemma update_middle: "k \<notin> fst ` set xs \<Longrightarrow> AList.update k v (xs @ (k, v') # ys) = xs @ (k, v) # ys"
  by (induction xs) auto

lemma store_is_register:
  fixes t :: enqueueTarget
  shows "store_matcher g t mr (ensure_target g t (ensure_kind g m)) = register (etGVK t) (etKey t) g mr m"
proof -
  have t: "\<lparr>etKey = etKey t, etGVK = etGVK t\<rparr> = t" by simp
  let ?m = "ensure_target g t (ensure_kind g m)" and ?b = "by_key m g t"
  have put: "put_keys g t b ?m = AList.update g (AList.update t b (by_target m g)) m" for b
    by (auto simp: put_keys_def ensure_target_def ensure_kind_def by_target_update update_update by_target_def
        split: option.splits)
  have same: "?m = put_keys g t ?b ?m"
    unfolding put by (auto simp: ensure_target_def ensure_kind_def by_target_update update_update by_key_def update_present
        by_target_def split: option.splits)
  show ?thesis
    unfolding store_matcher_def by_key_ensure_target by_key_ensure_kind register_eq Let_def t
    using same put by (auto simp: put)
qed

lemma calls_register:
  fixes t :: enqueueTarget
  assumes "map_of (calls s) i = None"
  shows "store_call i \<lparr>rgKind = g, rgTarget = t, rgMatcher = mr, rgStage = HasTarget\<rparr>
      (target_call i \<lparr>rgKind = g, rgTarget = t, rgMatcher = mr, rgStage = HasKind\<rparr> (begin_call i g t mr s)) =
    set_matchers (register (etGVK t) (etKey t) g mr (the_matchers s))
      (s\<lparr>calls := AList.update i \<lparr>rgKind = g, rgTarget = t, rgMatcher = mr, rgStage = Stored\<rparr> (calls s)\<rparr>)"
  by (simp add: store_call_def target_call_def begin_call_def store_is_register update_update)

abbreviation in_round ::
  "(triggerKey, kobj option) gomap \<Rightarrow> (triggerKey, kobj option) gomap \<Rightarrow> matchers \<Rightarrow> position
     \<Rightarrow> (nat, registration) gomap \<Rightarrow> enqueueTarget list \<Rightarrow> trigger_loop" where
  "in_round q p m pos c e \<equiv> \<lparr>tstate = \<lparr>matchers = m, toTrigger = q\<rparr>, working = Some (p, pos), calls = c, enqueued = e\<rparr>"

lemma keys_run:
  "\<forall>(u, mt) \<in> set rest. map_of (by_key m g t) u = Some mt \<Longrightarrow> distinct (map fst rest @ vs) \<Longrightarrow>
   round_steps isF (in_round q p m (Keys kr g tr t (ss, vs)) c e)
     (in_round q p m (Keys kr g tr t (ss, rev (map fst rest) @ vs)) c
       (e @ concat (map (\<lambda>(_, mt). fire_one isF p g t mt) rest)))"
proof (induction rest arbitrary: vs e)
  case Nil
  then show ?case by simp
next
  case (Cons x rest)
  obtain u mt where x: "x = (u, mt)" by fastforce
  have "round_step isF (in_round q p m (Keys kr g tr t (ss, vs)) c e)
      (in_round q p m (Keys kr g tr t (ss, u # vs)) c (e @ fire_one isF p g t mt))"
    using Cons.prems x key [of "in_round q p m (Keys kr g tr t (ss, vs)) c e" p kr g tr t ss vs u mt isF] by simp
  moreover note Cons.IH [of "u # vs" "e @ fire_one isF p g t mt"]
  ultimately show ?case using Cons.prems x by (auto intro: round_then)
qed

lemma targets_run:
  "\<forall>(t, b) \<in> set rest. map_of (by_target m g) t = Some b \<and> gomap_ok b \<Longrightarrow> distinct (map fst rest @ us) \<Longrightarrow>
   round_steps isF (in_round q p m (Targets kr g (ts, us)) c e)
     (in_round q p m (Targets kr g (ts, rev (map fst rest) @ us)) c
       (e @ concat (map (\<lambda>(t, b). concat (map (\<lambda>(_, mt). fire_one isF p g t mt) b)) rest)))"
proof (induction rest arbitrary: us e)
  case Nil
  then show ?case by simp
next
  case (Cons x rest)
  obtain t b where x: "x = (t, b)" by fastforce
  have b: "by_key m g t = b" "gomap_ok b" and t: "t \<in> fst ` set (by_target m g)" "t \<notin> set us"
    using Cons.prems x by (auto simp: by_key_def image_iff dest!: map_of_SomeD intro: rev_bexI)
  let ?e = "e @ concat (map (\<lambda>(_, mt). fire_one isF p g t mt) b)" and ?ss = "map fst b"
  have "round_step isF (in_round q p m (Targets kr g (ts, us)) c e)
      (in_round q p m (Keys kr g (ts, t # us) t (?ss, [])) c e)"
    using t b target [of "in_round q p m (Targets kr g (ts, us)) c e" p kr g ts us t isF] by simp
  moreover have "round_steps isF (in_round q p m (Keys kr g (ts, t # us) t (?ss, [])) c e)
      (in_round q p m (Keys kr g (ts, t # us) t (?ss, rev ?ss @ [])) c ?e)"
    by (rule keys_run) (use b in \<open>auto simp: map_of_mem_iff\<close>)
  moreover have "round_step isF (in_round q p m (Keys kr g (ts, t # us) t (?ss, rev ?ss @ [])) c ?e)
      (in_round q p m (Targets kr g (ts, t # us)) c ?e)"
    using keys_end [of "in_round q p m (Keys kr g (ts, t # us) t (?ss, rev ?ss @ [])) c ?e" p kr g "(ts, t # us)" t ?ss
        "rev ?ss @ []" isF] by simp
  moreover have "round_steps isF (in_round q p m (Targets kr g (ts, t # us)) c ?e)
     (in_round q p m (Targets kr g (ts, rev (map fst rest) @ t # us)) c
       (?e @ concat (map (\<lambda>(t, b). concat (map (\<lambda>(_, mt). fire_one isF p g t mt) b)) rest)))"
    using Cons.IH [of "t # us" ?e] Cons.prems x by auto
  ultimately have "round_steps isF (in_round q p m (Targets kr g (ts, us)) c e)
     (in_round q p m (Targets kr g (ts, rev (map fst rest) @ t # us)) c
       (?e @ concat (map (\<lambda>(t, b). concat (map (\<lambda>(_, mt). fire_one isF p g t mt) b)) rest)))"
    by (blast intro: round_then rtranclp_trans)
  then show ?case by (simp add: x)
qed

lemma deletes_run:
  "\<exists>c'. round_steps isF (in_round q p (AList.update g bt m) (Deletes kr g ks) c e)
     (in_round q p (AList.update g (fold (\<lambda>k. AList.delete (target_of k)) ks bt) m) (Deletes kr g []) c' e)"
proof (induction ks arbitrary: bt c)
  case Nil
  then show ?case by auto
next
  case (Cons k ks)
  have "round_step isF (in_round q p (AList.update g bt m) (Deletes kr g (k # ks)) c e)
      (in_round q p (AList.update g (AList.delete (target_of k) bt) m) (Deletes kr g ks) (detach g (target_of k) c) e)"
    using delete [of "in_round q p (AList.update g bt m) (Deletes kr g (k # ks)) c e" p kr g k ks isF]
    by (simp add: delete_target_def update_update by_target_update)
  with Cons.IH show ?case by (fastforce intro: round_then)
qed

lemma keys2_run:
  "round_steps isF (in_round q p (put_keys g t b m) (Keys2 kr g tr t ds) c e)
     (in_round q p (put_keys g t (fold AList.delete ds b) m) (Keys2 kr g tr t []) c e)"
proof (induction ds arbitrary: b)
  case Nil
  then show ?case by auto
next
  case (Cons u ds)
  have "round_step isF (in_round q p (put_keys g t b m) (Keys2 kr g tr t (u # ds)) c e)
      (in_round q p (put_keys g t (AList.delete u b) m) (Keys2 kr g tr t ds) c e)"
    using key2 [of "in_round q p (put_keys g t b m) (Keys2 kr g tr t (u # ds)) c e" p kr g tr t u ds isF]
    by (simp add: delete_key_def) (simp add: put_keys_def update_update by_target_update)
  with Cons.IH show ?case by (fastforce intro: round_then)
qed

lemma targets2_run:
  "distinct (map fst (pre @ rest)) \<Longrightarrow> set us = fst ` set pre \<Longrightarrow>
   \<exists>us'. set us' = fst ` set (pre @ rest) \<and> round_steps isF
     (in_round q p (AList.update g (pre @ rest) m) (Targets2 kr g (ts, us)) c e)
     (in_round q p (AList.update g (pre @ map (\<lambda>(t, b). (t, fold AList.delete (delete_strings p g) b)) rest) m)
       (Targets2 kr g (ts, us')) c e)"
proof (induction rest arbitrary: pre us)
  case Nil
  then show ?case by auto
next
  case (Cons x rest)
  obtain t b where x: "x = (t, b)" by fastforce
  let ?ds = "delete_strings p g" and ?m = "AList.update g (pre @ (t, b) # rest) m"
  let ?b = "fold AList.delete ?ds b"
  have fresh: "t \<notin> fst ` set pre" using Cons.prems x by auto
  then have put: "put_keys g t b' ?m = AList.update g (pre @ (t, b') # rest) m" for b'
    by (simp add: put_keys_def by_target_update update_update update_middle)
  have "round_step isF (in_round q p ?m (Targets2 kr g (ts, us)) c e) (in_round q p ?m (Keys2 kr g (ts, t # us) t ?ds) c e)"
    using Cons.prems(2) fresh target2 [of "in_round q p ?m (Targets2 kr g (ts, us)) c e" p kr g ts us t isF]
    by (simp add: by_target_update)
  moreover have "round_steps isF (in_round q p ?m (Keys2 kr g (ts, t # us) t ?ds) c e)
      (in_round q p (AList.update g (pre @ (t, ?b) # rest) m) (Keys2 kr g (ts, t # us) t []) c e)"
    using keys2_run [where isF = isF and q = q and p = p and g = g and t = t and b = b and m = ?m and kr = kr
        and tr = "(ts, t # us)" and ds = ?ds and c = c and e = e] unfolding put .
  moreover have "round_step isF (in_round q p (AList.update g (pre @ (t, ?b) # rest) m) (Keys2 kr g (ts, t # us) t []) c e)
      (in_round q p (AList.update g (pre @ (t, ?b) # rest) m) (Targets2 kr g (ts, t # us)) c e)"
    using keys2_end [of "in_round q p (AList.update g (pre @ (t, ?b) # rest) m) (Keys2 kr g (ts, t # us) t []) c e"
        p kr g "(ts, t # us)" t isF] by simp
  moreover obtain us' where "set us' = fst ` set ((pre @ [(t, ?b)]) @ rest)" and "round_steps isF
     (in_round q p (AList.update g (pre @ (t, ?b) # rest) m) (Targets2 kr g (ts, t # us)) c e)
     (in_round q p (AList.update g (pre @ (t, ?b) # map (\<lambda>(t, b). (t, fold AList.delete ?ds b)) rest) m)
       (Targets2 kr g (ts, us')) c e)"
    using Cons.IH [of "pre @ [(t, ?b)]" "t # us"] Cons.prems x by auto
  ultimately have "set us' = fst ` set (pre @ (t, b) # rest) \<and> round_steps isF
     (in_round q p ?m (Targets2 kr g (ts, us)) c e)
     (in_round q p (AList.update g (pre @ (t, ?b) # map (\<lambda>(t, b). (t, fold AList.delete ?ds b)) rest) m)
       (Targets2 kr g (ts, us')) c e)"
    by (intro conjI) (simp, blast intro: round_then rtranclp_trans)
  then show ?case by (intro exI [of _ us']) (simp add: x)
qed

lemma kind_run:
  assumes "matchers_ok m" and "map_of m g = Some bt" and "g \<notin> set vs"
    and "process_gvk isF p g bt = (fired, checks, bt')"
  shows "\<exists>c'. round_steps isF (in_round q p m (Kinds (ks, vs)) c e)
     (in_round q p (AList.update g bt' m) (Kinds (ks, g # vs)) c' (e @ fired))"
proof -
  let ?kr = "(ks, g # vs)" and ?ts = "map fst bt" and ?e = "e @ fired" and ?ds = "delete_strings p g"
  let ?bt = "fold (\<lambda>k. AList.delete (target_of k)) (removed_keys p) bt"
  have bt: "by_target m g = bt" "AList.update g bt m = m" using assms(2) by (simp_all add: by_target_def update_present)
  have ok: "by_target_ok bt" using by_target_okI [OF assms(1), of g] bt by simp
  then have gm: "gomap_ok bt" and "gomap_ok ?bt" by (simp_all add: by_target_ok_def gomap_ok_fold_delete)
  have "g \<in> fst ` set m" using assms(2) by (force dest: map_of_SomeD)
  then have "round_step isF (in_round q p m (Kinds (ks, vs)) c e) (in_round q p m (Targets ?kr g (?ts, [])) c e)"
    using assms(3) bt kind [of "in_round q p m (Kinds (ks, vs)) c e" p ks vs g isF] by simp
  then have "round_steps isF (in_round q p m (Kinds (ks, vs)) c e) (in_round q p m (Targets ?kr g (?ts, [])) c e)"
    by (blast intro: round_then)
  also have "round_steps isF (in_round q p m (Targets ?kr g (?ts, [])) c e)
     (in_round q p m (Targets ?kr g (?ts, rev ?ts @ [])) c (e @ concat (map (\<lambda>(t, b).
        concat (map (\<lambda>(_, mt). fire_one isF p g t mt) b)) bt)))"
    by (rule targets_run) (use gm ok bt in \<open>auto simp: by_target_ok_def by_key_ok_def map_of_mem_iff\<close>)
  also have "e @ concat (map (\<lambda>(t, b). concat (map (\<lambda>(_, mt). fire_one isF p g t mt) b)) bt) = ?e"
    using assms(4) by (auto simp: process_gvk_def Let_def)
  finally have "round_steps isF (in_round q p m (Kinds (ks, vs)) c e)
      (in_round q p m (Targets ?kr g (?ts, rev ?ts @ [])) c ?e)" .
  also have "round_steps isF (in_round q p m (Targets ?kr g (?ts, rev ?ts @ [])) c ?e)
      (in_round q p (AList.update g bt m) (Deletes ?kr g (removed_keys p)) c ?e)"
    using targets_end [of "in_round q p m (Targets ?kr g (?ts, rev ?ts @ [])) c ?e" p ?kr g ?ts "rev ?ts @ []" isF] bt
    by (auto intro: round_then)
  finally have fired: "round_steps isF (in_round q p m (Kinds (ks, vs)) c e)
      (in_round q p (AList.update g bt m) (Deletes ?kr g (removed_keys p)) c ?e)" .
  obtain c' where c': "round_steps isF (in_round q p (AList.update g bt m) (Deletes ?kr g (removed_keys p)) c ?e)
      (in_round q p (AList.update g ?bt m) (Deletes ?kr g []) c' ?e)"
    using deletes_run [where isF = isF and q = q and p = p and g = g and bt = bt and m = m and kr = ?kr
        and ks = "removed_keys p" and c = c and e = ?e] by blast
  let ?d = "in_round q p (AList.update g ?bt m) (Deletes ?kr g []) c' ?e"
  have "round_steps isF ?d (in_round q p (AList.update g bt' m) (Kinds ?kr) c' ?e)"
  proof (cases "length ?ds > 0")
    case True
    have bt': "bt' = map (\<lambda>(t, b). (t, fold AList.delete ?ds b)) ?bt"
      using assms(4) process_gvk_map [of isF p g bt] by simp
    have "round_step isF ?d (in_round q p (AList.update g ?bt m) (Targets2 ?kr g (map fst ?bt, [])) c' ?e)"
      using True deletes_end [of ?d p ?kr g isF] by (simp add: by_target_update)
    moreover obtain us' where us: "set us' = fst ` set ?bt"
      and run: "round_steps isF (in_round q p (AList.update g ?bt m) (Targets2 ?kr g (map fst ?bt, [])) c' ?e)
       (in_round q p (AList.update g bt' m) (Targets2 ?kr g (map fst ?bt, us')) c' ?e)"
      using targets2_run [where pre = "[]" and rest = ?bt and us = "[]" and isF = isF and q = q and p = p and g = g
        and m = m and kr = ?kr and ts = "map fst ?bt" and c = c' and e = ?e] \<open>gomap_ok ?bt\<close> by (auto simp: bt')
    moreover have "round_step isF (in_round q p (AList.update g bt' m) (Targets2 ?kr g (map fst ?bt, us')) c' ?e)
        (in_round q p (AList.update g bt' m) (Kinds ?kr) c' ?e)"
      using us targets2_end [of "in_round q p (AList.update g bt' m) (Targets2 ?kr g (map fst ?bt, us')) c' ?e"
          p ?kr g "map fst ?bt" us' isF] by simp
    ultimately show ?thesis by (meson round_then rtranclp_trans rtranclp.rtrancl_refl)
  next
    case False
    then have "bt' = ?bt" using assms(4) by (auto simp: process_gvk_def Let_def)
    then show ?thesis using False deletes_end [of ?d p ?kr g isF] by (auto intro: round_then)
  qed
  with fired c' show ?thesis by (meson rtranclp_trans)
qed

lemma kinds_run:
  assumes "matchers_ok (pre @ rest)" and "set vs = fst ` set pre"
  shows "\<exists>c' vs'. set vs' = fst ` set (pre @ rest) \<and> round_steps isF
     (in_round q p (pre @ rest) (Kinds (ks, vs)) c e)
     (in_round q p (pre @ snd (snd (triggers_process isF p rest))) (Kinds (ks, vs')) c'
       (e @ fst (triggers_process isF p rest)))"
  using assms
proof (induction rest arbitrary: pre vs c e)
  case Nil
  then show ?case by (auto simp: triggers_process_def)
next
  case (Cons x rest)
  obtain g bt where x: "x = (g, bt)" by fastforce
  obtain fired checks bt' where pg: "process_gvk isF p g bt = (fired, checks, bt')" by (metis prod_cases3)
  let ?m = "pre @ (g, bt) # rest" and ?m' = "(pre @ [(g, bt')]) @ rest"
  have fresh: "g \<notin> fst ` set pre" "gomap_ok ?m" using Cons.prems(1) x by (auto simp: matchers_ok_def)
  then have look: "map_of ?m g = Some bt" using map_of_mem_iff [of ?m g bt] by simp
  have upd: "AList.update g bt' ?m = ?m'" using fresh by (simp add: update_middle)
  obtain c1 where one: "round_steps isF (in_round q p ?m (Kinds (ks, vs)) c e) (in_round q p ?m' (Kinds (ks, g # vs)) c1 (e @ fired))"
    using kind_run [OF _ look _ pg, of vs q ks c e] Cons.prems x fresh upd by auto
  have "by_target_ok bt" using Cons.prems(1) x by (auto simp: matchers_ok_def)
  then have "by_target_ok bt'" using pg process_gvk_map [of isF p g bt] by (simp add: by_target_ok_process)
  then have "matchers_ok ?m'" using Cons.prems(1) x matchers_ok_update [of ?m bt' g] upd by simp
  from Cons.IH [OF this, of "g # vs" c1 "e @ fired"] Cons.prems(2)
  obtain c2 vs' where "set vs' = fst ` set (?m' @ [])"
    and two: "round_steps isF (in_round q p ?m' (Kinds (ks, g # vs)) c1 (e @ fired))
     (in_round q p ((pre @ [(g, bt')]) @ snd (snd (triggers_process isF p rest))) (Kinds (ks, vs')) c2
       ((e @ fired) @ fst (triggers_process isF p rest)))" by auto
  with one pg show ?case
    unfolding x by (intro exI [of _ c2] exI [of _ vs']) (auto simp: triggers_process_def intro: rtranclp_trans)
qed

lemma process_run:
  assumes "matchers_ok (the_matchers s)" and "working s = Some (p, Taken)"
    and "triggers_process isF p (the_matchers s) = (fired, checks, m)"
  shows "\<exists>c. round_steps isF s (set_matchers m (s\<lparr>working := None, calls := c, enqueued := enqueued s @ fired\<rparr>))"
proof -
  let ?m = "the_matchers s" and ?q = "toTrigger (tstate s)" and ?e = "enqueued s @ fired"
  have s: "s = in_round ?q p ?m Taken (calls s) (enqueued s)" using assms(2) by simp
  have "round_step isF s (in_round ?q p ?m (Kinds (map fst ?m, [])) (calls s) (enqueued s))"
    using start [OF assms(2), of isF] s by (metis (no_types, lifting) trigger_loop.update_convs(2))
  moreover obtain c vs where vs: "set vs = fst ` set ?m" and "round_steps isF
     (in_round ?q p ?m (Kinds (map fst ?m, [])) (calls s) (enqueued s)) (in_round ?q p m (Kinds (map fst ?m, vs)) c ?e)"
    using kinds_run [where pre = "[]" and rest = ?m and vs = "[]" and isF = isF and q = ?q and p = p and c = "calls s"
        and ks = "map fst ?m" and e = "enqueued s"] assms by auto
  moreover have "round_step isF (in_round ?q p m (Kinds (map fst ?m, vs)) c ?e)
      ((in_round ?q p m (Kinds (map fst ?m, vs)) c ?e)\<lparr>working := None\<rparr>)"
    by (rule kinds_end [of _ p "map fst ?m" vs]) (simp_all add: vs)
  ultimately have "round_steps isF s ((in_round ?q p m (Kinds (map fst ?m, vs)) c ?e)\<lparr>working := None\<rparr>)"
    by (meson round_then rtranclp_trans rtranclp.rtrancl_refl)
  also have "(in_round ?q p m (Kinds (map fst ?m, vs)) c ?e)\<lparr>working := None\<rparr> =
      set_matchers m (s\<lparr>working := None, calls := c, enqueued := ?e\<rparr>)"
    by (cases s; cases "tstate s") simp
  finally show ?thesis by blast
qed

section \<open>Well-formed states\<close>

definition position_ok :: "(triggerKey, kobj option) gomap \<Rightarrow> position \<Rightarrow> bool" where
  "position_ok p pos \<longleftrightarrow> (case pos of
       Deletes kr g ks \<Rightarrow> set ks \<subseteq> set (removed_keys p)
     | Keys2 kr g tr t ss \<Rightarrow> set ss \<subseteq> set (delete_strings p g)
     | _ \<Rightarrow> True)"

definition loop_ok :: "trigger_loop \<Rightarrow> bool" where
  "loop_ok s \<longleftrightarrow> matchers_ok (the_matchers s) \<and> gomap_ok (toTrigger (tstate s)) \<and>
     (\<forall>p pos. working s = Some (p, pos) \<longrightarrow> gomap_ok p \<and> position_ok p pos)"

lemma round_step_ok: "round_step isF s s' \<Longrightarrow> loop_ok s \<Longrightarrow> loop_ok s'"
  by (induction rule: round_step.induct) (auto simp: loop_ok_def position_ok_def access_ok)

lemma loop_step_ok: "loop_step isF s s' \<Longrightarrow> loop_ok s \<Longrightarrow> loop_ok s'"
proof (induction rule: loop_step.induct)
  case (round s s')
  then show ?case by (rule round_step_ok)
qed (auto simp: loop_ok_def position_ok_def access_ok target_call_def store_call_def)

lemma trigger_step_ok: "trigger_step isF s s' \<Longrightarrow> loop_ok s \<Longrightarrow> loop_ok s'"
proof (induction rule: trigger_step.induct)
  case (step_loop s s')
  then show ?case by (rule loop_step_ok)
qed (auto simp: loop_ok_def access_ok begin_call_def Trigger_def UnregisterAndTrigger_def)

definition pending_keys :: "trigger_loop \<Rightarrow> (triggerKey \<times> kobj option) set" where
  "pending_keys s = set (toTrigger (tstate s)) \<union> (case working s of None \<Rightarrow> {} | Some (p, pos) \<Rightarrow> set p)"

text \<open>The target is being removed: its own key is pending with a nil object.\<close>

definition removing :: "enqueueTarget \<Rightarrow> trigger_loop \<Rightarrow> bool" where
  "removing t s \<longleftrightarrow> (\<exists>key. (key, None) \<in> pending_keys s \<and> target_of key = t)"

section \<open>What a matcher is owed\<close>

lemma delete_string_exact:
  assumes "no_slash (tkNamespace key) (tkName key)"
    and "objectMatcher_String (named_matcher ns n) =
      objectMatcher_String (named_matcher (tkNamespace key) (tkName key))"
  shows "ns = tkNamespace key \<and> n = tkName key"
proof -
  have eq: "n @ CHR ''/'' # ns = tkName key @ CHR ''/'' # tkNamespace key"
    using assms(2) by (simp add: objectMatcher_String_def named_matcher_def)
  have "CHR ''/'' \<notin> set n"
  proof
    assume "CHR ''/'' \<in> set n"
    then have "2 \<le> count_list (n @ CHR ''/'' # ns) (CHR ''/'')"
      using count_list_0_iff [of n "CHR ''/''"] by (cases "count_list n (CHR ''/'')") auto
    moreover have "count_list (tkName key @ CHR ''/'' # tkNamespace key) (CHR ''/'') = 1"
      using assms(1) by (simp add: no_slash_def count_list_0_iff)
    ultimately show False unfolding eq by simp
  qed
  then have "cut_at (n @ CHR ''/'' # ns) ''/'' = Some (n, ns)" by simp
  moreover have "cut_at (tkName key @ CHR ''/'' # tkNamespace key) ''/'' = Some (tkName key, tkNamespace key)"
    using assms(1) by (simp add: no_slash_def)
  ultimately show ?thesis unfolding eq by simp
qed

lemma matcher_of_text:
  assumes "no_slash ns n" and "objectMatcher_String mt = objectMatcher_String (named_matcher ns n)"
  shows "mt = named_matcher ns n"
proof -
  have eq: "objectMatcher_String mt = n @ CHR ''/'' # ns"
    using assms(2) by (simp add: objectMatcher_String_def named_matcher_def)
  have one: "count_list (n @ CHR ''/'' # ns) (CHR ''/'') = 1" using assms(1) by (simp add: no_slash_def count_list_0_iff)
  have "mSelector mt = None \<and> mFields mt = None"
  proof (rule ccontr)
    assume "\<not> (mSelector mt = None \<and> mFields mt = None)"
    then have "2 \<le> count_list (objectMatcher_String mt) (CHR ''/'')"
      by (auto simp: objectMatcher_String_def Let_def split: option.splits)
    with eq one show False by simp
  qed
  then have m: "mt = named_matcher (mNamespace mt) (mName mt)" by (simp add: named_matcher_def)
  let ?key = "\<lparr>tkName = n, tkNamespace = ns, tkGVK = cm_gvk\<rparr>"
  have "mNamespace mt = ns \<and> mName mt = n"
    using delete_string_exact [of ?key "mNamespace mt" "mName mt"] assms m by simp
  with m show ?thesis by simp
qed

text \<open>The round at position \<open>pos\<close> still has to visit the matcher \<open>u\<close> of target \<open>t\<close> for kind \<open>g\<close>.\<close>

fun covers :: "position \<Rightarrow> gvk \<Rightarrow> enqueueTarget \<Rightarrow> string \<Rightarrow> bool" where
  "covers Taken g t u = True"
| "covers (Kinds (ks, vs)) g t u = (g \<in> set ks \<and> g \<notin> set vs)"
| "covers (Targets (ks, vs) g' (ts, us)) g t u =
     (if g' = g then t \<in> set ts \<and> t \<notin> set us else g \<in> set ks \<and> g \<notin> set vs)"
| "covers (Keys (ks, vs) g' (ts, us) t' (ss, ws)) g t u =
     (if g' = g then if t' = t then u \<in> set ss \<and> u \<notin> set ws else t \<in> set ts \<and> t \<notin> set us
      else g \<in> set ks \<and> g \<notin> set vs)"
| "covers (Deletes (ks, vs) g' _) g t u = (g' \<noteq> g \<and> g \<in> set ks \<and> g \<notin> set vs)"
| "covers (Targets2 (ks, vs) g' _) g t u = (g' \<noteq> g \<and> g \<in> set ks \<and> g \<notin> set vs)"
| "covers (Keys2 (ks, vs) g' _ _ _) g t u = (g' \<noteq> g \<and> g \<in> set ks \<and> g \<notin> set vs)"

abbreviation key_matcher :: "triggerKey \<Rightarrow> objectMatcher" where
  "key_matcher key \<equiv> named_matcher (tkNamespace key) (tkName key)"

abbreviation key_text :: "triggerKey \<Rightarrow> string" where
  "key_text key \<equiv> objectMatcher_String (key_matcher key)"

text \<open>The matcher of target \<open>t\<close> that names the object \<open>key\<close> is where a lookup finds it.\<close>

definition has_matcher :: "triggerKey \<Rightarrow> enqueueTarget \<Rightarrow> trigger_loop \<Rightarrow> bool" where
  "has_matcher key t s \<longleftrightarrow> map_of (by_key (the_matchers s) (tkGVK key) t) (key_text key) = Some (key_matcher key)"

text \<open>It is there, and a round over the removal of \<open>key\<close>, if one is under way, has not passed it; then also: the object
  is waiting to be triggered, or a round over it has not passed the matcher.\<close>

definition safe :: "triggerKey \<Rightarrow> enqueueTarget \<Rightarrow> trigger_loop \<Rightarrow> bool" where
  "safe key t s \<longleftrightarrow> has_matcher key t s \<and>
     (\<forall>p pos. working s = Some (p, pos) \<and> (key, None) \<in> set p \<longrightarrow> covers pos (tkGVK key) t (key_text key))"

definition due :: "triggerKey \<Rightarrow> enqueueTarget \<Rightarrow> trigger_loop \<Rightarrow> bool" where
  "due key t s \<longleftrightarrow> key \<in> fst ` set (toTrigger (tstate s)) \<or>
     (\<exists>p pos. working s = Some (p, pos) \<and> key \<in> fst ` set p \<and> covers pos (tkGVK key) t (key_text key))"

lemma has_matcher_keys:
  assumes "has_matcher key t s"
  shows "tkGVK key \<in> fst ` set (the_matchers s)" and "t \<in> fst ` set (by_target (the_matchers s) (tkGVK key))"
    and "key_text key \<in> fst ` set (by_key (the_matchers s) (tkGVK key) t)"
proof -
  note look = assms [unfolded has_matcher_def]
  show "key_text key \<in> fst ` set (by_key (the_matchers s) (tkGVK key) t)" using look by (force dest: map_of_SomeD)
  show t: "t \<in> fst ` set (by_target (the_matchers s) (tkGVK key))"
    using look by (auto simp: by_key_def split: option.splits dest!: map_of_SomeD intro: rev_image_eqI)
  show "tkGVK key \<in> fst ` set (the_matchers s)"
    using t by (cases "map_of (the_matchers s) (tkGVK key)") (auto simp: by_target_def dest!: map_of_SomeD intro: rev_image_eqI)
qed

lemma key_matcher_fires:
  "key \<in> fst ` set p \<Longrightarrow> tkName key \<noteq> [] \<Longrightarrow> t \<in> set (fire_one isF p (tkGVK key) t (key_matcher key))"
proof -
  assume "key \<in> fst ` set p" and n: "tkName key \<noteq> []"
  then have "map_of p key \<noteq> None" by (simp add: map_of_eq_None_iff)
  then show ?thesis using n by (cases key) (auto simp: fire_one_def named_matcher_def)
qed

lemma delete_strings_mem:
  assumes "key_text key \<in> set (delete_strings p (tkGVK key))" and "no_slash (tkNamespace key) (tkName key)"
  shows "(key, None) \<in> set p"
proof -
  obtain k where k: "k \<in> set (removed_keys p)" "tkGVK k = tkGVK key" and "key_text k = key_text key"
    using assms(1) by (auto simp: delete_strings_def named_matcher_def)
  then have "tkNamespace k = tkNamespace key \<and> tkName k = tkName key"
    using delete_string_exact [OF assms(2), of "tkNamespace k" "tkName k"] by simp
  with k(2) have "k = key" by (intro triggerKey.equality) auto
  with k(1) show ?thesis by (simp add: removed_keys_mem)
qed

text \<open>A round keeps both, unless it enqueues the target.\<close>

lemma round_enqueues: "round_step isF s s' \<Longrightarrow> \<exists>e. enqueued s' = enqueued s @ e"
  by (induction rule: round_step.induct) auto

lemma round_keeps_matcher:
  assumes "round_step isF s s'" and "loop_ok s" and "\<not> removing t s"
    and "no_slash (tkNamespace key) (tkName key)" and "safe key t s"
  shows "has_matcher key t s'"
  using assms(1)
proof cases
  case (delete p kr g k ks)
  then have "(k, None) \<in> set p" using assms(2) by (auto simp: loop_ok_def position_ok_def removed_keys_mem)
  then have "t \<noteq> target_of k" using assms(3) delete(2) by (auto simp: removing_def pending_keys_def)
  with assms(5) delete(1) show ?thesis by (auto simp: safe_def has_matcher_def)
next
  case (key2 p kr g tr t' u ss)
  have "\<not> (g = tkGVK key \<and> t' = t \<and> u = key_text key)"
  proof
    assume eq: "g = tkGVK key \<and> t' = t \<and> u = key_text key"
    then have "key_text key \<in> set (delete_strings p (tkGVK key))"
      using assms(2) key2(2) by (auto simp: loop_ok_def position_ok_def)
    then have "(key, None) \<in> set p" by (rule delete_strings_mem [OF _ assms(4)])
    with assms(5) key2(2) eq show False by (cases kr) (auto simp: safe_def)
  qed
  with assms(5) key2(1) show ?thesis by (auto simp: safe_def has_matcher_def)
qed (use assms(5) in \<open>auto simp: safe_def has_matcher_def\<close>)

lemma round_keeps_covers:
  assumes "round_step isF s s'" and "has_matcher key t s" and "tkName key \<noteq> []"
    and "working s = Some (p, pos)" and "key \<in> fst ` set p" and "covers pos (tkGVK key) t (key_text key)"
  shows "t \<in> set (drop (length (enqueued s)) (enqueued s')) \<or>
    (\<exists>pos'. working s' = Some (p, pos') \<and> covers pos' (tkGVK key) t (key_text key))"
  using assms(1)
proof cases
  case (key p' kr g tr t' ss vs u mt)
  show ?thesis
  proof (cases "g = tkGVK key \<and> t' = t \<and> u = key_text key")
    case True
    with key assms(2,4) key_matcher_fires [OF assms(5,3), of t isF] show ?thesis by (simp add: has_matcher_def)
  next
    case False
    with key assms(4,6) show ?thesis by (cases kr; cases tr) auto
  qed
next
  case (keys_end p' kr g tr t' ss vs)
  with assms(4,6) show ?thesis by (cases kr; cases tr) (auto split: if_splits)
next
  case (targets_end p' kr g ts us)
  with assms(4,6) show ?thesis by (cases kr) (auto split: if_splits)
next
  case (delete p' kr g k ks)
  with assms(4,6) show ?thesis by (cases kr) auto
next
  case (deletes_end p' kr g)
  with assms(4,6) show ?thesis by (cases kr) auto
next
  case (target2 p' kr g ts us t')
  with assms(4,6) show ?thesis by (cases kr) auto
next
  case (targets2_end p' kr g ts us)
  with assms(4,6) show ?thesis by (cases kr) auto
next
  case (key2 p' kr g tr t' u ss)
  with assms(4,6) show ?thesis by (cases kr) auto
next
  case (keys2_end p' kr g tr t')
  with assms(4,6) show ?thesis by (cases kr) auto
next
  case (target p' kr g ts us t')
  with assms(4,6) has_matcher_keys [OF assms(2)] show ?thesis by (cases kr) (auto split: if_splits)
next
  case (kind p' ks vs g)
  with assms(4,6) has_matcher_keys [OF assms(2)] show ?thesis by auto
next
  case (kinds_end p' ks vs)
  with assms(4,6) show ?thesis by auto
next
  case (start p')
  with assms(4,6) has_matcher_keys [OF assms(2)] show ?thesis by auto
qed

lemma round_working: "round_step isF s s' \<Longrightarrow> working s' = Some (p, pos) \<Longrightarrow> \<exists>pos0. working s = Some (p, pos0)"
  by (induction rule: round_step.induct) auto

lemma round_queue: "round_step isF s s' \<Longrightarrow> toTrigger (tstate s') = toTrigger (tstate s)"
  by (induction rule: round_step.induct) auto

lemma round_pending: "round_step isF s s' \<Longrightarrow> pending_keys s' \<subseteq> pending_keys s"
  by (induction rule: round_step.induct) (auto simp: pending_keys_def)

lemma round_keeps:
  assumes "round_step isF s s'" and "loop_ok s" and "\<not> removing t s" and "tkName key \<noteq> []"
    and "no_slash (tkNamespace key) (tkName key)" and "safe key t s"
  shows "t \<in> set (drop (length (enqueued s)) (enqueued s')) \<or> safe key t s' \<and> (due key t s \<longrightarrow> due key t s')"
proof (cases "t \<in> set (drop (length (enqueued s)) (enqueued s'))")
  case False
  have has: "has_matcher key t s" using assms(6) by (simp add: safe_def)
  note keeps = round_keeps_covers [OF assms(1) has assms(4)]
  have "covers pos (tkGVK key) t (key_text key)" if w: "working s' = Some (p, pos)" and p: "(key, None) \<in> set p" for p pos
  proof -
    obtain pos0 where "working s = Some (p, pos0)" using round_working [OF assms(1) w] by blast
    with keeps [of p pos0] assms(6) False w p show ?thesis by (force simp: safe_def)
  qed
  then have "safe key t s'" using round_keeps_matcher [OF assms(1-3,5,6)] by (simp add: safe_def)
  moreover have "due key t s'" if "due key t s"
    using that keeps False round_queue [OF assms(1)] unfolding due_def by metis
  ultimately show ?thesis by blast
qed simp

text \<open>So do the other steps.\<close>

lemma has_matcher_begin [simp]: "has_matcher key t (begin_call i g u mr s) = has_matcher key t s"
  by (simp add: has_matcher_def begin_call_def)

lemma has_matcher_target [simp]: "has_matcher key t (target_call i r s) = has_matcher key t s"
  by (simp add: has_matcher_def target_call_def)

lemma has_matcher_store_call: "has_matcher key t s \<Longrightarrow> has_matcher key t (store_call i r s)"
  by (auto simp: has_matcher_def store_call_def by_key_store_matcher)

lemma call_fields [simp]:
  "working (begin_call i g u mr s) = working s" "working (target_call i r s) = working s"
  "working (store_call i r s) = working s" "enqueued (begin_call i g u mr s) = enqueued s"
  "enqueued (target_call i r s) = enqueued s" "enqueued (store_call i r s) = enqueued s"
  "toTrigger (tstate (begin_call i g u mr s)) = toTrigger (tstate s)"
  "toTrigger (tstate (target_call i r s)) = toTrigger (tstate s)"
  "toTrigger (tstate (store_call i r s)) = toTrigger (tstate s)"
  by (simp_all add: begin_call_def target_call_def store_call_def)

lemma loop_keeps:
  assumes "loop_step isF s s'" and "loop_ok s" and "\<not> removing t s" and "tkName key \<noteq> []"
    and "no_slash (tkNamespace key) (tkName key)" and "safe key t s"
  shows "t \<in> set (drop (length (enqueued s)) (enqueued s')) \<or> safe key t s' \<and> (due key t s \<longrightarrow> due key t s')"
  using assms(1)
proof cases
  case round
  with round_keeps assms show ?thesis by blast
next
  case take
  with assms(6) show ?thesis by (auto simp: safe_def due_def has_matcher_def)
qed (use assms(6) in \<open>auto simp: safe_def due_def has_matcher_store_call\<close>)

lemma step_keeps:
  assumes "trigger_step isF s s'" and "loop_ok s" and "\<not> removing t s" and "tkName key \<noteq> []"
    and "no_slash (tkNamespace key) (tkName key)" and "safe key t s"
  shows "t \<in> set (drop (length (enqueued s)) (enqueued s')) \<or> safe key t s' \<and> (due key t s \<longrightarrow> due key t s')"
  using assms(1)
proof cases
  case step_loop
  with loop_keeps assms show ?thesis by blast
qed (use assms(6) in \<open>auto simp: safe_def due_def has_matcher_def [of _ _ "_\<lparr>calls := _\<rparr>"]
    has_matcher_def [of _ _ "_\<lparr>tstate := _\<rparr>"] has_matcher_def [of _ _ s] Trigger_def UnregisterAndTrigger_def keys_update\<close>)

lemma step_enqueues: "trigger_step isF s s' \<Longrightarrow> \<exists>e. enqueued s' = enqueued s @ e"
  by (induction rule: trigger_step.induct) (auto elim!: loop_step.cases dest: round_enqueues)

text \<open>Target \<open>t\<close> has been enqueued since the first \<open>n\<close> targets were, or watches the object \<open>key\<close>; or is owed a call.\<close>

definition watching :: "triggerKey \<Rightarrow> enqueueTarget \<Rightarrow> nat \<Rightarrow> trigger_loop \<Rightarrow> bool" where
  "watching key t n s \<longleftrightarrow> n \<le> length (enqueued s) \<and> (t \<in> set (drop n (enqueued s)) \<or> safe key t s)"

definition owed :: "triggerKey \<Rightarrow> enqueueTarget \<Rightarrow> nat \<Rightarrow> trigger_loop \<Rightarrow> bool" where
  "owed key t n s \<longleftrightarrow> n \<le> length (enqueued s) \<and> (t \<in> set (drop n (enqueued s)) \<or> safe key t s \<and> due key t s)"

lemma watching_step:
  assumes "trigger_step isF s s'" and "loop_ok s" and "watching key t n s" and "\<not> removing t s"
    and "tkName key \<noteq> []" and "no_slash (tkNamespace key) (tkName key)"
  shows "watching key t n s'"
proof -
  obtain e where e: "enqueued s' = enqueued s @ e" using step_enqueues [OF assms(1)] by blast
  with assms(3) step_keeps [OF assms(1,2,4-6)] show ?thesis by (auto simp: watching_def)
qed

lemma owed_step:
  assumes "trigger_step isF s s'" and "loop_ok s" and "owed key t n s" and "\<not> removing t s"
    and "tkName key \<noteq> []" and "no_slash (tkNamespace key) (tkName key)"
  shows "owed key t n s'"
proof -
  obtain e where e: "enqueued s' = enqueued s @ e" using step_enqueues [OF assms(1)] by blast
  with assms(3) step_keeps [OF assms(1,2,4-6)] show ?thesis by (auto simp: owed_def)
qed

lemma watching_triggered:
  assumes "watching key t n s"
  shows "owed key t n (s\<lparr>tstate := Trigger (tkName key) (tkNamespace key) (tkGVK key) obj (tstate s)\<rparr>)"
  using assms by (auto simp: watching_def owed_def safe_def due_def has_matcher_def Trigger_def keys_update)

lemma owed_at_rest: "owed key t n s \<Longrightarrow> toTrigger (tstate s) = [] \<Longrightarrow> working s = None \<Longrightarrow> t \<in> set (drop n (enqueued s))"
  by (auto simp: owed_def due_def)

text \<open>A call of \<open>register\<close> keeps its hold on the map of its target while the target is not being removed; its last access
  then registers the matcher.\<close>

definition attached :: "nat \<Rightarrow> enqueueTarget \<Rightarrow> trigger_loop \<Rightarrow> bool" where
  "attached i t s \<longleftrightarrow> (\<forall>r. map_of (calls s) i = Some r \<and> rgTarget r = t \<longrightarrow> rgStage r \<noteq> Detached)"

lemma map_of_detach: "map_of (detach g t c) i = map_option (detach_one g t) (map_of c i)"
  by (simp add: detach_def map_of_map)

lemma attached_step:
  assumes "trigger_step isF s s'" and "loop_ok s" and "attached i t s" and "\<not> removing t s"
  shows "attached i t s'"
  using assms(1)
proof cases
  case step_loop
  then show ?thesis
  proof cases
    case round
    then show ?thesis
    proof cases
      case (delete p kr g k ks)
      then have "(k, None) \<in> set p" using assms(2) by (auto simp: loop_ok_def position_ok_def removed_keys_mem)
      then have "t \<noteq> target_of k" using assms(4) delete(2) by (auto simp: removing_def pending_keys_def)
      with assms(3) delete(1) show ?thesis by (auto simp: attached_def map_of_detach detach_one_def split: if_splits)
    qed (use assms(3) in \<open>auto simp: attached_def\<close>)
  qed (use assms(3) in \<open>auto simp: attached_def target_call_def store_call_def\<close>)
qed (use assms(3) in \<open>auto simp: attached_def begin_call_def\<close>)

lemma store_call_has:
  assumes "loop_ok s" and "rgStage r = HasTarget" and "rgKind r = tkGVK key" and "rgMatcher r = key_matcher key"
    and "no_slash (tkNamespace key) (tkName key)"
  shows "has_matcher key (rgTarget r) (store_call i r s)"
proof -
  let ?b = "by_key (the_matchers s) (tkGVK key) (rgTarget r)"
  have ok: "matchers_ok (the_matchers s)" using assms(1) by (simp add: loop_ok_def)
  show ?thesis
  proof (cases "map_of ?b (key_text key)")
    case None
    with assms(2-4) show ?thesis by (simp add: has_matcher_def store_call_def by_key_store_matcher)
  next
    case (Some mt)
    then have "key_text key = objectMatcher_String mt" using registered_String [OF ok] by (metis map_of_SomeD)
    then have "mt = key_matcher key" by (intro matcher_of_text [OF assms(5)]) simp
    with Some assms(2-4) show ?thesis by (simp add: has_matcher_def store_call_def by_key_store_matcher)
  qed
qed

section \<open>A registration that is lost\<close>

text \<open>Two targets, of which one watches the object \<open>ns/conf\<close> and the other comes to read it.\<close>

definition app_target :: enqueueTarget where
  "app_target = \<lparr>etKey = ''ns/app'', etGVK = cm_gvk\<rparr>"

definition late_target :: enqueueTarget where
  "late_target = \<lparr>etKey = ''ns/late'', etGVK = cm_gvk\<rparr>"

definition conf_key :: triggerKey where
  "conf_key = \<lparr>tkName = ''conf'', tkNamespace = ''ns'', tkGVK = cm_gvk\<rparr>"

abbreviation conf_text :: string where
  "conf_text \<equiv> key_text conf_key"

abbreviation conf_matchers :: "(string, objectMatcher) gomap" where
  "conf_matchers \<equiv> [(conf_text, key_matcher conf_key)]"

abbreviation live_loop :: "(kobj \<Rightarrow> bool) \<Rightarrow> enqueueTarget \<Rightarrow> trigger_loop \<Rightarrow> trigger_loop \<Rightarrow> bool" where
  "live_loop isF t \<equiv> (\<lambda>s s'. trigger_step isF s s' \<and> \<not> removing t s')\<^sup>*\<^sup>*"

definition loop_start :: trigger_loop where
  "loop_start = \<lparr>tstate = \<lparr>matchers = [], toTrigger = []\<rparr>, working = None, calls = [], enqueued = []\<rparr>"

text \<open>The round over the removal of \<open>ns/conf\<close>, between its first range and the deletes.\<close>

abbreviation gone :: "(triggerKey, kobj option) gomap" where
  "gone \<equiv> [(conf_key, None)]"

abbreviation conf_round :: "(enqueueTarget, (string, objectMatcher) gomap) gomap \<Rightarrow> position \<Rightarrow> (nat, registration) gomap \<Rightarrow> trigger_loop" where
  "conf_round bt pos c \<equiv> in_round [] gone [(cm_gvk, bt)] pos c [app_target]"

lemma lost_facts [simp]:
  "app_target \<noteq> late_target" "late_target \<noteq> app_target" "target_of conf_key \<noteq> late_target" "target_of conf_key \<noteq> app_target"
  "app_target \<noteq> target_of conf_key" "late_target \<noteq> target_of conf_key"
  "tkGVK conf_key = cm_gvk" "removed_keys gone = [conf_key]" "delete_strings gone cm_gvk = [conf_text]"
  "fire_one isF gone cm_gvk t (key_matcher conf_key) = [t]"
  by (simp_all add: app_target_def late_target_def target_of_def conf_key_def toKey_def removed_keys_def delete_strings_def
      named_matcher_def fire_one_def)

lemma live_then:
  "trigger_step isF s s' \<Longrightarrow> \<not> removing t s' \<Longrightarrow> live_loop isF t s' s'' \<Longrightarrow> live_loop isF t s s''"
  by (rule converse_rtranclp_into_rtranclp) blast+

lemma live_round:
  assumes "round_steps isF s s'" and "\<not> removing t s"
  shows "live_loop isF t s s' \<and> \<not> removing t s'"
  using assms
proof (induction rule: rtranclp_induct)
  case (step s1 s2)
  then have "live_loop isF t s s1 \<and> \<not> removing t s1" by blast
  moreover have "\<not> removing t s2" using calculation round_pending [OF step.hyps(2)] by (auto simp: removing_def)
  ultimately show ?case using step_loop [OF loop_step.round [OF step.hyps(2)]] by (blast intro: rtranclp.rtrancl_into_rtrancl)
qed simp

lemma live_register:
  fixes s :: trigger_loop and u :: enqueueTarget
  assumes "map_of (calls s) i = None" and "\<not> removing t s"
  shows "live_loop isF t s (set_matchers (register (etGVK u) (etKey u) g mr (the_matchers s)) s)"
proof -
  let ?r = "\<lambda>st. \<lparr>rgKind = g, rgTarget = u, rgMatcher = mr, rgStage = st\<rparr>"
  define s1 where "s1 = begin_call i g u mr s"
  define s2 where "s2 = target_call i (?r HasKind) s1"
  define s3 where "s3 = store_call i (?r HasTarget) s2"
  have s3: "s3 = set_matchers (register (etGVK u) (etKey u) g mr (the_matchers s)) (s\<lparr>calls := AList.update i (?r Stored) (calls s)\<rparr>)"
    unfolding s3_def s2_def s1_def by (rule calls_register [OF assms(1)])
  have "trigger_step isF s s1" unfolding s1_def by (rule step_register [OF assms(1)])
  moreover have "trigger_step isF s1 s2" unfolding s2_def
    by (intro step_loop call_target) (simp_all add: s1_def begin_call_def)
  moreover have "trigger_step isF s2 s3" unfolding s3_def
    by (intro step_loop call_store) (simp_all add: s2_def target_call_def)
  moreover have "trigger_step isF s3 (s3\<lparr>calls := AList.delete i (calls s3)\<rparr>)"
    by (rule step_registered [of _ _ "?r Stored"]) (simp_all add: s3)
  moreover have "s3\<lparr>calls := AList.delete i (calls s3)\<rparr> = set_matchers (register (etGVK u) (etKey u) g mr (the_matchers s)) s"
    using assms(1) by (simp add: s3 update_fresh_delete)
  moreover have "\<not> removing t s1" "\<not> removing t s2" "\<not> removing t s3" "\<not> removing t (s3\<lparr>calls := AList.delete i (calls s3)\<rparr>)"
    using assms(2) by (simp_all add: removing_def pending_keys_def s3 s2_def s1_def)
  ultimately show ?thesis by (metis (no_types, lifting) live_then rtranclp.rtrancl_refl)
qed

abbreviation both :: "(string, objectMatcher) gomap \<Rightarrow> (string, objectMatcher) gomap \<Rightarrow> (enqueueTarget, (string, objectMatcher) gomap) gomap" where
  "both a b \<equiv> [(app_target, a), (late_target, b)]"

text \<open>The rest of the round deletes both matchers.\<close>

lemma gone_round_deletes:
  "round_steps isF (conf_round (both conf_matchers conf_matchers) (Deletes ([cm_gvk], [cm_gvk]) cm_gvk []) [])
     ((conf_round (both [] []) Taken [])\<lparr>working := None\<rparr>)"
proof -
  let ?k = "([cm_gvk], [cm_gvk])" and ?t = "[app_target, late_target]" and ?c = conf_matchers
  let ?r = "\<lambda>bt pos. conf_round bt pos []"
  note S = by_target_def by_key_def delete_key_def put_keys_def
  have "round_step isF (?r (both ?c ?c) (Deletes ?k cm_gvk [])) (?r (both ?c ?c) (Targets2 ?k cm_gvk (?t, [])))"
    using deletes_end [of "?r (both ?c ?c) (Deletes ?k cm_gvk [])" gone ?k cm_gvk isF] by (simp add: S)
  moreover have "round_step isF (?r (both ?c ?c) (Targets2 ?k cm_gvk (?t, [])))
      (?r (both ?c ?c) (Keys2 ?k cm_gvk (?t, [app_target]) app_target [conf_text]))"
    using target2 [of "?r (both ?c ?c) (Targets2 ?k cm_gvk (?t, []))" gone ?k cm_gvk ?t "[]" app_target isF] by (simp add: S)
  moreover have "round_step isF (?r (both ?c ?c) (Keys2 ?k cm_gvk (?t, [app_target]) app_target [conf_text]))
      (?r (both [] ?c) (Keys2 ?k cm_gvk (?t, [app_target]) app_target []))"
    using key2 [of "?r (both ?c ?c) (Keys2 ?k cm_gvk (?t, [app_target]) app_target [conf_text])" gone ?k cm_gvk
        "(?t, [app_target])" app_target conf_text "[]" isF] by (simp add: S)
  moreover have "round_step isF (?r (both [] ?c) (Keys2 ?k cm_gvk (?t, [app_target]) app_target []))
      (?r (both [] ?c) (Targets2 ?k cm_gvk (?t, [app_target])))"
    using keys2_end [of "?r (both [] ?c) (Keys2 ?k cm_gvk (?t, [app_target]) app_target [])" gone ?k cm_gvk
        "(?t, [app_target])" app_target isF] by simp
  moreover have "round_step isF (?r (both [] ?c) (Targets2 ?k cm_gvk (?t, [app_target])))
      (?r (both [] ?c) (Keys2 ?k cm_gvk (?t, [late_target, app_target]) late_target [conf_text]))"
    using target2 [of "?r (both [] ?c) (Targets2 ?k cm_gvk (?t, [app_target]))" gone ?k cm_gvk ?t "[app_target]" late_target isF]
    by (simp add: S)
  moreover have "round_step isF (?r (both [] ?c) (Keys2 ?k cm_gvk (?t, [late_target, app_target]) late_target [conf_text]))
      (?r (both [] []) (Keys2 ?k cm_gvk (?t, [late_target, app_target]) late_target []))"
    using key2 [of "?r (both [] ?c) (Keys2 ?k cm_gvk (?t, [late_target, app_target]) late_target [conf_text])" gone ?k cm_gvk
        "(?t, [late_target, app_target])" late_target conf_text "[]" isF] by (simp add: S)
  moreover have "round_step isF (?r (both [] []) (Keys2 ?k cm_gvk (?t, [late_target, app_target]) late_target []))
      (?r (both [] []) (Targets2 ?k cm_gvk (?t, [late_target, app_target])))"
    using keys2_end [of "?r (both [] []) (Keys2 ?k cm_gvk (?t, [late_target, app_target]) late_target [])" gone ?k cm_gvk
        "(?t, [late_target, app_target])" late_target isF] by simp
  moreover have "round_step isF (?r (both [] []) (Targets2 ?k cm_gvk (?t, [late_target, app_target]))) (?r (both [] []) (Kinds ?k))"
    using targets2_end [of "?r (both [] []) (Targets2 ?k cm_gvk (?t, [late_target, app_target]))" gone ?k cm_gvk ?t
        "[late_target, app_target]" isF] by simp
  moreover have "round_step isF (?r (both [] []) (Kinds ?k)) ((?r (both [] []) Taken)\<lparr>working := None\<rparr>)"
    using kinds_end [of "?r (both [] []) (Kinds ?k)" gone "[cm_gvk]" "[cm_gvk]" isF] by simp
  ultimately show ?thesis by (meson round_then rtranclp.rtrancl_refl)
qed

text \<open>The first half of the round, before the late registration.\<close>

lemma gone_round_fires:
  "round_steps isF (in_round [] gone [(cm_gvk, [(app_target, conf_matchers)])] Taken [] [])
     (conf_round [(app_target, conf_matchers)] (Deletes ([cm_gvk], [cm_gvk]) cm_gvk []) [])"
proof -
  let ?k = "([cm_gvk], [cm_gvk])" and ?m = "[(cm_gvk, [(app_target, conf_matchers)])]" and ?t = "[app_target]" and ?u = "[conf_text]"
  let ?r = "\<lambda>pos. in_round [] gone ?m pos []" and ?F = isF
  note S = by_target_def by_key_def delete_target_def detach_def
  have "round_step isF (?r Taken []) (?r (Kinds ([cm_gvk], [])) [])"
    using start [of "?r Taken []" gone isF] by simp
  moreover have "round_step isF (?r (Kinds ([cm_gvk], [])) []) (?r (Targets ?k cm_gvk (?t, [])) [])"
    using kind [of "?r (Kinds ([cm_gvk], [])) []" gone "[cm_gvk]" "[]" cm_gvk isF] by (simp add: S)
  moreover have "round_step isF (?r (Targets ?k cm_gvk (?t, [])) []) (?r (Keys ?k cm_gvk (?t, ?t) app_target (?u, [])) [])"
    using target [of "?r (Targets ?k cm_gvk (?t, [])) []" gone ?k cm_gvk ?t "[]" app_target isF] by (simp add: S)
  moreover have "round_step isF (?r (Keys ?k cm_gvk (?t, ?t) app_target (?u, [])) [])
      (?r (Keys ?k cm_gvk (?t, ?t) app_target (?u, ?u)) [app_target])"
    using key [of "?r (Keys ?k cm_gvk (?t, ?t) app_target (?u, [])) []" gone ?k cm_gvk "(?t, ?t)" app_target ?u "[]"
        conf_text "key_matcher conf_key" isF] by (simp add: S)
  moreover have "round_step isF (?r (Keys ?k cm_gvk (?t, ?t) app_target (?u, ?u)) [app_target])
      (?r (Targets ?k cm_gvk (?t, ?t)) [app_target])"
    using keys_end [of "?r (Keys ?k cm_gvk (?t, ?t) app_target (?u, ?u)) [app_target]" gone ?k cm_gvk "(?t, ?t)" app_target
        ?u ?u isF] by simp
  moreover have "round_step isF (?r (Targets ?k cm_gvk (?t, ?t)) [app_target]) (?r (Deletes ?k cm_gvk [conf_key]) [app_target])"
    using targets_end [of "?r (Targets ?k cm_gvk (?t, ?t)) [app_target]" gone ?k cm_gvk ?t ?t isF] by simp
  moreover have "round_step isF (?r (Deletes ?k cm_gvk [conf_key]) [app_target]) (?r (Deletes ?k cm_gvk []) [app_target])"
    using delete [of "?r (Deletes ?k cm_gvk [conf_key]) [app_target]" gone ?k cm_gvk conf_key "[]" isF] by (simp add: S)
  ultimately show ?thesis by (meson round_then rtranclp.rtrancl_refl)
qed

lemma register_app: "register cm_gvk ''ns/app'' cm_gvk (key_matcher conf_key) [] = [(cm_gvk, [(app_target, conf_matchers)])]"
  by (simp add: register_def Let_def app_target_def)

lemma register_late:
  "register cm_gvk ''ns/late'' cm_gvk (key_matcher conf_key) [(cm_gvk, [(app_target, conf_matchers)])] =
     [(cm_gvk, both conf_matchers conf_matchers)]"
  using lost_facts(1) by (simp add: register_def Let_def late_target_def [symmetric])

lemma late_names:
  "etGVK app_target = cm_gvk" "etKey app_target = ''ns/app''" "etGVK late_target = cm_gvk" "etKey late_target = ''ns/late''"
  by (simp_all add: app_target_def late_target_def)

lemma calm: "\<forall>x \<in> pending_keys s. fst x = conf_key \<Longrightarrow> \<not> removing late_target s"
  by (auto simp: removing_def)

text \<open>The registration of \<open>ns/app\<close> and the first half of the round over the removal.\<close>

lemma until_deletes:
  "live_loop isF late_target loop_start (conf_round [(app_target, conf_matchers)] (Deletes ([cm_gvk], [cm_gvk]) cm_gvk []) [])"
proof -
  let ?t = late_target and ?mt = "key_matcher conf_key" and ?m = "[(cm_gvk, [(app_target, conf_matchers)])]"
  let ?s1 = "\<lparr>tstate = \<lparr>matchers = ?m, toTrigger = []\<rparr>, working = None, calls = [], enqueued = []\<rparr>"
  have "live_loop isF ?t loop_start (set_matchers (register (etGVK app_target) (etKey app_target) cm_gvk ?mt (the_matchers loop_start)) loop_start)"
    by (rule live_register [of _ 0]) (simp_all add: loop_start_def calm pending_keys_def)
  also have "set_matchers (register (etGVK app_target) (etKey app_target) cm_gvk ?mt (the_matchers loop_start)) loop_start = ?s1"
    by (simp add: late_names loop_start_def register_app)
  also have "live_loop isF ?t ?s1 (in_round [] gone ?m Taken [] [])"
  proof (rule live_then)
    let ?s2 = "\<lparr>tstate = \<lparr>matchers = ?m, toTrigger = gone\<rparr>, working = None, calls = [], enqueued = []\<rparr>"
    show "trigger_step isF ?s1 ?s2"
      using step_unregister [of isF ?s1 "''conf''" "''ns''" cm_gvk] by (simp add: UnregisterAndTrigger_def conf_key_def)
    show "\<not> removing ?t ?s2" by (simp add: calm pending_keys_def)
    have "trigger_step isF ?s2 (in_round [] gone ?m Taken [] [])" using step_loop [OF loop_step.take [of ?s2 isF]] by simp
    then show "live_loop isF ?t ?s2 (in_round [] gone ?m Taken [] [])" by (auto simp: calm pending_keys_def)
  qed
  also have "live_loop isF ?t (in_round [] gone ?m Taken [] []) (conf_round [(app_target, conf_matchers)] (Deletes ([cm_gvk], [cm_gvk]) cm_gvk []) [])"
    using live_round [OF gone_round_fires] by (simp add: calm pending_keys_def)
  finally show ?thesis .
qed

text \<open>The object is created again.\<close>

lemma comes_back:
  fixes obj :: kobj
  defines "s8 \<equiv> \<lparr>tstate = \<lparr>matchers = [(cm_gvk, both [] [])], toTrigger = [(conf_key, Some obj)]\<rparr>, working = None, calls = [],
      enqueued = [app_target]\<rparr>"
  shows "\<exists>rest. live_loop isF late_target s8 rest \<and> toTrigger (tstate rest) = [] \<and> working rest = None \<and>
    late_target \<notin> set (enqueued rest)"
proof -
  let ?t = late_target
  let ?p = "[(conf_key, Some obj)]" and ?m7 = "[(cm_gvk, both [] [])]"
  let ?s9 = "in_round [] ?p ?m7 Taken [] [app_target]"
  have taken: "trigger_step isF s8 ?s9" using step_loop [OF loop_step.take [of s8 isF]] by (simp add: s8_def)
  have ok: "matchers_ok ?m7" by (simp add: matchers_ok_def by_target_ok_def by_key_ok_def)
  have "fst (triggers_process isF ?p ?m7) = []" by (simp add: triggers_process_def process_gvk_def Let_def)
  then obtain checks m where f: "triggers_process isF ?p ?m7 = ([], checks, m)" by (metis prod.collapse)
  obtain c where run: "round_steps isF ?s9 (set_matchers m (?s9\<lparr>working := None, calls := c, enqueued := enqueued ?s9 @ []\<rparr>))"
    using process_run [of ?s9 ?p isF "[]" checks m] ok f by auto
  define s10 where "s10 = set_matchers m (?s9\<lparr>working := None, calls := c, enqueued := enqueued ?s9 @ []\<rparr>)"
  have rest: "live_loop isF ?t s8 s10"
  proof (rule live_then [OF taken])
    show "\<not> removing ?t ?s9" by (simp add: calm pending_keys_def)
    then show "live_loop isF ?t ?s9 s10" using live_round [OF run] by (simp add: s10_def)
  qed
  moreover have "toTrigger (tstate s10) = []" "working s10 = None" "?t \<notin> set (enqueued s10)" by (simp_all add: s10_def)
  ultimately show ?thesis by blast
qed

text \<open>C31: a handler can miss an object that comes back: there is a run of the loop and the registrations in which a
  handler's read of a named object stores its matcher, while the round over the removal of that object is under way,
  and is not called again when the object is created afterwards and triggers, although its own target is never removed:
  the round's deletes, which come after its matchers have fired, take the fresh matcher away.\<close>

theorem registration_lost:
  "\<exists>before i r after rest. live_loop isF late_target loop_start before \<and>
     map_of (calls before) i = Some r \<and> rgStage r = HasTarget \<and> rgKind r = cm_gvk \<and> rgTarget r = late_target \<and>
     rgMatcher r = named_matcher ''ns'' ''conf'' \<and>
     registered (the_matchers (store_call i r before)) cm_gvk late_target (named_matcher ''ns'' ''conf'') \<and>
     trigger_step isF before (store_call i r before) \<and> live_loop isF late_target (store_call i r before) after \<and>
     live_loop isF late_target (after\<lparr>tstate := Trigger ''conf'' ''ns'' cm_gvk (Some obj) (tstate after)\<rparr>) rest \<and>
     toTrigger (tstate rest) = [] \<and> working rest = None \<and> late_target \<notin> set (enqueued rest)"
proof -
  let ?t = late_target and ?mt = "key_matcher conf_key"
  have mt: "?mt = named_matcher ''ns'' ''conf''" by (simp add: conf_key_def)
  \<comment> \<open>the late registration\<close>
  define s3 where "s3 = conf_round [(app_target, conf_matchers)] (Deletes ([cm_gvk], [cm_gvk]) cm_gvk []) []"
  let ?r = "\<lambda>st. \<lparr>rgKind = cm_gvk, rgTarget = ?t, rgMatcher = ?mt, rgStage = st\<rparr>"
  define s4 where "s4 = begin_call 0 cm_gvk ?t ?mt s3"
  define s5 where "s5 = target_call 0 (?r HasKind) s4"
  have store: "store_call 0 (?r HasTarget) s5 = conf_round (both conf_matchers conf_matchers) (Deletes ([cm_gvk], [cm_gvk]) cm_gvk []) [(0, ?r Stored)]"
    using calls_register [of s3 0 cm_gvk ?t ?mt] by (simp add: s5_def s4_def s3_def late_names register_late)
  have c5: "map_of (calls s5) 0 = Some (?r HasTarget)" by (simp add: s5_def target_call_def)
  have quiet: "\<not> removing ?t s4" "\<not> removing ?t s5" by (simp_all add: calm pending_keys_def s5_def s4_def s3_def)
  have t1: "trigger_step isF s3 s4" unfolding s4_def by (rule step_register) (simp add: s3_def)
  have t2: "trigger_step isF s4 s5" unfolding s5_def
    by (intro step_loop call_target) (simp_all add: s4_def begin_call_def)
  have "live_loop isF ?t s3 s5" by (rule live_then [OF t1 quiet(1) live_then [OF t2 quiet(2) rtranclp.rtrancl_refl]])
  with until_deletes have before: "live_loop isF ?t loop_start s5" unfolding s3_def by (rule rtranclp_trans)
  have stored: "trigger_step isF s5 (store_call 0 (?r HasTarget) s5)" by (intro step_loop call_store [OF c5]) simp
  have "registered (the_matchers (store_call 0 (?r HasTarget) s5)) cm_gvk ?t ?mt"
    unfolding store registered_def by force
  \<comment> \<open>the rest of the round\<close>
  let ?s6 = "conf_round (both conf_matchers conf_matchers) (Deletes ([cm_gvk], [cm_gvk]) cm_gvk []) []"
  define s7 where "s7 = (conf_round (both [] []) Taken [])\<lparr>working := None\<rparr>"
  have after: "live_loop isF ?t (store_call 0 (?r HasTarget) s5) s7"
  proof (rule live_then)
    show "trigger_step isF (store_call 0 (?r HasTarget) s5) ?s6"
      using step_registered [of "store_call 0 (?r HasTarget) s5" 0 "?r Stored" isF] by (simp add: store)
    show "\<not> removing ?t ?s6" by (simp add: calm pending_keys_def)
    then show "live_loop isF ?t ?s6 s7" using live_round [OF gone_round_deletes] by (simp add: s7_def)
  qed
  \<comment> \<open>the object is created again\<close>
  have "s7\<lparr>tstate := Trigger ''conf'' ''ns'' cm_gvk (Some obj) (tstate s7)\<rparr> = \<lparr>tstate = \<lparr>matchers = [(cm_gvk, both [] [])],
      toTrigger = [(conf_key, Some obj)]\<rparr>, working = None, calls = [], enqueued = [app_target]\<rparr>"
    by (simp add: s7_def Trigger_def conf_key_def)
  then obtain rest where rest: "live_loop isF ?t (s7\<lparr>tstate := Trigger ''conf'' ''ns'' cm_gvk (Some obj) (tstate s7)\<rparr>) rest"
    "toTrigger (tstate rest) = []" "working rest = None" "?t \<notin> set (enqueued rest)"
    using comes_back [of isF obj] by auto
  with before c5 stored after rest \<open>registered _ _ _ _\<close> show ?thesis
    unfolding mt [symmetric]
    by (intro exI [of _ s5] exI [of _ 0] exI [of _ "?r HasTarget"] exI [of _ s7] exI [of _ rest]) simp
qed

end
