(* ===== verification/Router_Loop.thy ===== *)
theory Router_Loop
  imports Router_Handle Trigger_Loop
begin

text \<open>
  The router as a whole: any number of passes of handlers, the loop of \<open>kick\<close> and what they share, the triggers. A
  pass is the sequence of what it does to the shared state: the accesses of its handlers' clients, each of them the
  calls of a registration, the watch of the kind and the call of the backend, and, when its handlers are done, the
  trigger it sets off; the steps of different passes and those of the loop interleave in any order. Whoever has read an
  object through its client is called again after the object is handled.
\<close>

section \<open>The steps\<close>

inductive client_step :: "('w, 'a) backend_scheme \<Rightarrow> 'w rstate \<Rightarrow> 'w rstate \<Rightarrow> bool" for B where
  watch_call: "triggerRegistry_Watch B t obj ns n sel fs rs = (e, rs') \<Longrightarrow> client_step B rs rs'"
| backend_call: "client_step B rs (rs\<lparr>rworld := w\<rparr>)"

abbreviation client_steps :: "('w, 'a) backend_scheme \<Rightarrow> 'w rstate \<Rightarrow> 'w rstate \<Rightarrow> bool" where
  "client_steps B \<equiv> (client_step B)\<^sup>*\<^sup>*"

record 'w router_loop =
  rl_rs :: "'w rstate"
  rl_working :: "((triggerKey, kobj option) gomap \<times> position) option"
  rl_calls :: "(nat, registration) gomap"
  rl_enqueued :: "enqueueTarget list"

text \<open>The triggers with the loop, as in the theory \<open>Trigger_Loop\<close>.\<close>

definition trigger_view :: "'w router_loop \<Rightarrow> trigger_loop" where
  "trigger_view s =
     \<lparr>tstate = rtriggers (rl_rs s), working = rl_working s, calls = rl_calls s, enqueued = rl_enqueued s\<rparr>"

definition put_view :: "trigger_loop \<Rightarrow> 'w router_loop \<Rightarrow> 'w router_loop" where
  "put_view v s = s\<lparr>rl_rs := (rl_rs s)\<lparr>rtriggers := tstate v\<rparr>, rl_working := working v, rl_calls := calls v,
     rl_enqueued := enqueued v\<rparr>"

definition registrant_target :: "registrant \<Rightarrow> enqueueTarget" where
  "registrant_target reg = \<lparr>etKey = regKey reg, etGVK = regGVK reg\<rparr>"

text \<open>
  An access begins with the first call of its registration and, when the last is made, watches the kind; \<open>new_request\<close> is
  the client of a new pass, with no kinds of its own yet.
\<close>

inductive router_step :: "('w, 'a) backend_scheme \<Rightarrow> (kobj \<Rightarrow> bool) \<Rightarrow> 'w router_loop \<Rightarrow> 'w router_loop \<Rightarrow> bool" for B isF where
  backend: "router_step B isF s (s\<lparr>rl_rs := (rl_rs s)\<lparr>rworld := w\<rparr>\<rparr>)"
| new_request: "router_step B isF s (s\<lparr>rl_rs := (rl_rs s)\<lparr>rgvks := []\<rparr>\<rparr>)"
| access: "\<not> IsWrapped obj \<Longrightarrow> gvkFor B (obj_of obj) = Inr g \<Longrightarrow> map_of (rl_calls s) i = None \<Longrightarrow>
     router_step B isF s (put_view (begin_call i (item_kind obj g) (registrant_target reg)
       \<lparr>mNamespace = ns, mName = n, mSelector = sel, mFields = fs\<rparr> (trigger_view s)) s)"
| watch_kind: "map_of (rl_calls s) i = Some r \<Longrightarrow> rgStage r = Stored \<Longrightarrow> WatchGVK B [rgKind r] (rl_rs s) = (e, rs) \<Longrightarrow>
     router_step B isF s (s\<lparr>rl_rs := (if e = None then rs\<lparr>rgvks := AList.update (rgKind r) True (rgvks rs)\<rparr> else rs),
       rl_calls := AList.delete i (rl_calls s)\<rparr>)"
| set_off: "hrs st = rl_rs s \<Longrightarrow> router_step B isF s (s\<lparr>rl_rs := hrs (set_off_triggers u req st)\<rparr>)"
| loop: "loop_step isF (trigger_view s) v \<Longrightarrow> router_step B isF s (put_view v s)"

abbreviation router_steps ::
  "('w, 'a) backend_scheme \<Rightarrow> (kobj \<Rightarrow> bool) \<Rightarrow> 'w router_loop \<Rightarrow> 'w router_loop \<Rightarrow> bool" where
  "router_steps B isF \<equiv> (router_step B isF)\<^sup>*\<^sup>*"

section \<open>The clients' calls are steps\<close>

lemma watched_steps: "watched B t obj ns n sel fs call rs = (r, rs') \<Longrightarrow> client_steps B rs rs'"
proof -
  assume w: "watched B t obj ns n sel fs call rs = (r, rs')"
  obtain e rs1 where one: "triggerRegistry_Watch B t obj ns n sel fs rs = (e, rs1)" by fastforce
  then have "client_step B rs rs1" by (rule watch_call)
  moreover have "rs' = rs1 \<or> client_step B rs1 rs'"
    using w one by (auto simp: watched_def split: option.splits prod.splits intro: client_step.intros)
  ultimately show ?thesis by (auto intro: rtranclp.intros)
qed

lemma reader_steps:
  "reader_Get B t obj g key rs = (r, rs') \<Longrightarrow> client_steps B rs rs'"
  "reader_List B t obj g ns sel fs rs = (rl, rs') \<Longrightarrow> client_steps B rs rs'"
  by (simp_all add: reader_Get_def reader_List_def watched_steps)

lemma writer_steps:
  "writer_Update B t obj rs = (r, rs') \<Longrightarrow> client_steps B rs rs'"
  "writer_Patch B t obj pt patch rs = (r, rs') \<Longrightarrow> client_steps B rs rs'"
  "writer_Delete B t obj g rs = (u, rs') \<Longrightarrow> client_steps B rs rs'"
  "writer_DeleteAllOf B t obj ns sel fs rs = (u, rs') \<Longrightarrow> client_steps B rs rs'"
  "Status_Update B t obj rs = (r, rs') \<Longrightarrow> client_steps B rs rs'"
  by (simp_all add: writer_Update_def writer_Patch_def writer_Delete_def writer_DeleteAllOf_def Status_Update_def
      subResource_op_def watched_steps)

lemma client_step_then_world:
  "client_step B rs rs1 \<Longrightarrow> client_steps B rs (rs1\<lparr>rworld := w\<rparr>)"
  by (auto intro: client_step.intros rtranclp.intros)

lemma writer_Create_steps: "writer_Create B t obj rs = (r, rs') \<Longrightarrow> client_steps B rs rs'"
  by (auto simp: writer_Create_def Let_def split: if_splits prod.splits option.splits
      intro: client_step_then_world watch_call backend_call
        converse_rtranclp_into_rtranclp [where r = "client_step B", OF backend_call] r_into_rtranclp)

lemma writer_Apply_steps: "writer_Apply B t obj isObj rs = (r, rs') \<Longrightarrow> client_steps B rs rs'"
  by (auto simp: writer_Apply_def split: if_splits prod.splits option.splits
      intro: client_step_then_world watch_call r_into_rtranclp backend_call)

lemma Request_steps:
  "Request_Get B req obj ns n rs = (r, rs') \<Longrightarrow> client_steps B rs rs'"
  "Request_Delete B req g obj rs = (e, rs') \<Longrightarrow> client_steps B rs rs'"
  by (auto simp: Request_Get_def Request_Delete_def reader_steps split: prod.splits sum.splits dest: writer_steps)

lemma save_steps: "save B req u n rs = (r, rs') \<Longrightarrow> client_steps B rs rs'"
  by (auto simp: save_def Let_def split: option.splits if_splits prod.splits sum.splits
      dest!: Request_steps(1) intro: r_into_rtranclp backend_call rtranclp.rtrancl_into_rtrancl)

section \<open>A pass is steps\<close>

text \<open>A handler that touches the shared state through its client only.\<close>

definition client_only :: "('w, 'a) backend_scheme \<Rightarrow> 'w handler \<Rightarrow> bool" where
  "client_only B hdl \<longleftrightarrow> (\<forall>req st e st'. hdl req st = (e, st') \<longrightarrow> client_steps B (hrs st) (hrs st'))"

lemma client_onlyD: "client_only B hdl \<Longrightarrow> hdl req st = (e, st') \<Longrightarrow> client_steps B (hrs st) (hrs st')"
  by (simp add: client_only_def)

lemma run_handlers_steps:
  "run_handlers hs req st = (errs, st') \<Longrightarrow> \<forall>nh \<in> set hs. client_only B (snd nh) \<Longrightarrow> client_steps B (hrs st) (hrs st')"
proof (induction hs arbitrary: st errs)
  case Nil
  then show ?case by simp
next
  case (Cons nh hs)
  obtain name hdl where nh: "nh = (name, hdl)" by fastforce
  obtain e st1 where one: "hdl req st = (e, st1)" by fastforce
  obtain errs1 where rest: "run_handlers hs req st1 = (errs1, st')"
    using Cons.prems(1) nh one by (auto split: prod.splits)
  have "client_only B hdl" using Cons.prems(2) nh by auto
  from client_onlyD [of B hdl req st e st1, OF this one] have "client_steps B (hrs st) (hrs st1)" .
  also have "client_steps B (hrs st1) (hrs st')" using Cons.IH [OF rest] Cons.prems(2) by simp
  finally show ?case .
qed

definition errors_client_only :: "('w, 'a) backend_scheme \<Rightarrow> 'w error_handler option \<Rightarrow> bool" where
  "errors_client_only B onError \<longleftrightarrow> (case onError of None \<Rightarrow> True | Some f \<Rightarrow> \<forall>err. client_only B (\<lambda>req. f req err))"

lemma handleError_steps:
  "errors_client_only B onError \<Longrightarrow> handleError onError req err st = (e, st') \<Longrightarrow> client_steps B (hrs st) (hrs st')"
  by (cases onError) (auto simp: errors_client_only_def handleError_def dest: client_onlyD)

lemma unless_handled_steps:
  "errors_client_only B onError \<Longrightarrow> unless_handled onError req err st = (e, st') \<Longrightarrow> client_steps B (hrs st) (hrs st')"
  by (auto simp: unless_handled_def dest: handleError_steps split: option.splits)

lemma handle_done_steps:
  "errors_client_only B onError \<Longrightarrow> handle_done onError req st = (r, rs') \<Longrightarrow> client_steps B (hrs st) rs'"
  by (auto simp: handle_done_def dest: handleError_steps split: prod.splits)

lemma handle_save_steps:
  assumes "errors_client_only B onError" and "handle_save B onError u req st = (r, rs')"
  shows "client_steps B (hrs st) rs'"
proof -
  obtain n err rs where s: "save B req u (hobject st) (hrs st) = ((n, err), rs)" by (metis surj_pair)
  obtain e st1 where h: "unless_handled onError req err (st\<lparr>hrs := rs\<rparr>) = (e, st1)" by fastforce
  have "client_steps B (hrs st) rs" by (rule save_steps [OF s])
  also have "client_steps B rs (hrs st1)" using unless_handled_steps [OF assms(1) h] by simp
  also have "client_steps B (hrs st1) rs'"
  proof (cases "e = None \<and> 0 < respDelay (hresp st1)")
    case True
    obtain te w where t: "bTrigger B (rworld (hrs st1)) (reqGVK req) (reqKey req) (respDelay (hresp st1)) = (te, w)" by fastforce
    have "client_step B (hrs st1) ((hrs st1)\<lparr>rworld := w\<rparr>)" by (rule backend_call)
    moreover have "client_steps B ((hrs st1)\<lparr>rworld := w\<rparr>) rs'"
      using assms(2) s h True t handle_done_steps [OF assms(1)]
      by (fastforce simp: handle_save_def Let_def split: option.splits)
    ultimately show ?thesis by (rule converse_rtranclp_into_rtranclp)
  next
    case False
    with assms(2) s h handle_done_steps [OF assms(1)] show ?thesis
      by (fastforce simp: handle_save_def Let_def split: option.splits if_splits)
  qed
  finally show ?thesis .
qed

lemma put_view_simps [simp]:
  "trigger_view (put_view v s) = v" "put_view v (put_view v' s) = put_view v s"
  "rl_calls (put_view v s) = calls v" "rl_enqueued (put_view v s) = enqueued v" "rl_working (put_view v s) = working v"
  "rtriggers (rl_rs (put_view v s)) = tstate v" "rworld (rl_rs (put_view v s)) = rworld (rl_rs s)"
  by (simp_all add: trigger_view_def put_view_def)

lemma trigger_view_fields [simp]:
  "tstate (trigger_view s) = rtriggers (rl_rs s)" "calls (trigger_view s) = rl_calls s"
  "working (trigger_view s) = rl_working s" "enqueued (trigger_view s) = rl_enqueued s"
  by (simp_all add: trigger_view_def)

lemma fresh_call: "\<exists>i. map_of (c :: (nat, registration) gomap) i = None"
  using ex_new_if_finite [of "fst ` set c"] by (auto simp: map_of_eq_None_iff)

text \<open>The registration of an access, up to the watch of the kind.\<close>

lemma access_run:
  fixes reg :: registrant and ns n :: string and sel :: "label_selector option" and fs :: "field_selector option"
  assumes "\<not> IsWrapped obj" and "gvkFor B (obj_of obj) = Inr g" and "map_of (rl_calls s) i = None"
  defines "r \<equiv> \<lambda>st. \<lparr>rgKind = item_kind obj g, rgTarget = registrant_target reg,
      rgMatcher = \<lparr>mNamespace = ns, mName = n, mSelector = sel, mFields = fs\<rparr>, rgStage = st\<rparr>"
  defines "s1 \<equiv> put_view (begin_call i (item_kind obj g) (registrant_target reg)
      \<lparr>mNamespace = ns, mName = n, mSelector = sel, mFields = fs\<rparr> (trigger_view s)) s"
  defines "s2 \<equiv> put_view (target_call i (r HasKind) (trigger_view s1)) s1"
  defines "s3 \<equiv> put_view (store_call i (r HasTarget) (trigger_view s2)) s2"
  shows "router_step B isF s s1" and "router_step B isF s1 s2" and "router_step B isF s2 s3"
    and "s3 = s\<lparr>rl_rs := (rl_rs s)\<lparr>rtriggers := (rtriggers (rl_rs s))\<lparr>matchers := register (regGVK reg) (regKey reg)
        (item_kind obj g) \<lparr>mNamespace = ns, mName = n, mSelector = sel, mFields = fs\<rparr> (matchers (rtriggers (rl_rs s)))\<rparr>\<rparr>,
      rl_calls := AList.update i (r Stored) (rl_calls s)\<rparr>"
    and "map_of (rl_calls s2) i = Some (r HasTarget)"
proof -
  show "router_step B isF s s1" unfolding s1_def by (rule access [OF assms(1-3)])
  show "router_step B isF s1 s2" unfolding s2_def
    by (intro loop call_target) (simp_all add: s1_def begin_call_def r_def)
  show "router_step B isF s2 s3" unfolding s3_def
    by (intro loop call_store) (simp_all add: s2_def target_call_def r_def)
  show "map_of (rl_calls s2) i = Some (r HasTarget)" by (simp add: s2_def target_call_def r_def)
  have eq: "s3 = put_view (store_call i (r HasTarget) (target_call i (r HasKind) (begin_call i (item_kind obj g)
      (registrant_target reg) \<lparr>mNamespace = ns, mName = n, mSelector = sel, mFields = fs\<rparr> (trigger_view s)))) s"
    by (simp add: s3_def s2_def s1_def)
  have "map_of (calls (trigger_view s)) i = None" using assms(3) by simp
  then show "s3 = s\<lparr>rl_rs := (rl_rs s)\<lparr>rtriggers := (rtriggers (rl_rs s))\<lparr>matchers := register (regGVK reg) (regKey reg)
        (item_kind obj g) \<lparr>mNamespace = ns, mName = n, mSelector = sel, mFields = fs\<rparr> (matchers (rtriggers (rl_rs s)))\<rparr>\<rparr>,
      rl_calls := AList.update i (r Stored) (rl_calls s)\<rparr>"
    unfolding eq r_def by (subst calls_register) (simp_all add: put_view_def registrant_target_def)
qed

lemma WatchGVK_triggers:
  "WatchGVK B gs (rs\<lparr>rtriggers := tr\<rparr>) = (case WatchGVK B gs rs of (e, rs') \<Rightarrow> (e, rs'\<lparr>rtriggers := tr\<rparr>))"
  by (simp add: WatchGVK_def split: prod.splits)

lemma client_step_runs:
  assumes "client_step B (rl_rs s) rs"
  shows "router_steps B isF s (s\<lparr>rl_rs := rs\<rparr>)"
  using assms
proof cases
  case (backend_call w)
  then show ?thesis using backend [of B isF s w] by auto
next
  case (watch_call t obj ns n sel fs e)
  show ?thesis
  proof (cases "IsWrapped obj \<or> (\<exists>err. gvkFor B (obj_of obj) = Inl err)")
    case True
    with watch_call have "rs = rl_rs s" by (auto simp: triggerRegistry_Watch_def Register_def split: if_splits)
    then show ?thesis by simp
  next
    case False
    then obtain g where ok: "\<not> IsWrapped obj" "gvkFor B (obj_of obj) = Inr g" by (metis sumE)
    obtain i where i: "map_of (rl_calls s) i = None" using fresh_call by blast
    note steps = access_run(1-3) [where isF = isF and reg = t and ns = ns and n = n and sel = sel and fs = fs, OF ok i]
    note three = access_run(4) [where reg = t and ns = ns and n = n and sel = sel and fs = fs, OF ok i]
    obtain e1 rs1 where w: "WatchGVK B [item_kind obj g] (rl_rs s) = (e1, rs1)" by fastforce
    let ?k = "item_kind obj g" and ?tr = "(rtriggers (rl_rs s))\<lparr>matchers := register (regGVK t) (regKey t) (item_kind obj g)
       \<lparr>mNamespace = ns, mName = n, mSelector = sel, mFields = fs\<rparr> (matchers (rtriggers (rl_rs s)))\<rparr>"
    have rs: "rs = (if e1 = None then rs1\<lparr>rtriggers := ?tr, rgvks := AList.update ?k True (rgvks rs1)\<rparr> else rs1\<lparr>rtriggers := ?tr\<rparr>)"
      using watch_call ok w
      by (auto simp: triggerRegistry_Watch_def Register_def Let_def item_kind_def [symmetric] split: option.splits)
    let ?r = "\<lparr>rgKind = ?k, rgTarget = registrant_target t, rgMatcher = \<lparr>mNamespace = ns, mName = n, mSelector = sel, mFields = fs\<rparr>,
       rgStage = Stored\<rparr>"
    let ?s3 = "s\<lparr>rl_rs := (rl_rs s)\<lparr>rtriggers := ?tr\<rparr>, rl_calls := AList.update i ?r (rl_calls s)\<rparr>"
    have "router_steps B isF s ?s3" using steps unfolding three by (blast intro: rtranclp.intros)
    also have "router_step B isF ?s3 (?s3\<lparr>rl_rs := rs, rl_calls := AList.delete i (rl_calls ?s3)\<rparr>)"
    proof -
      have "map_of (rl_calls ?s3) i = Some ?r" "rgStage ?r = Stored" by simp_all
      moreover have "WatchGVK B [rgKind ?r] (rl_rs ?s3) = (e1, rs1\<lparr>rtriggers := ?tr\<rparr>)" by (simp add: WatchGVK_triggers w)
      ultimately have "router_step B isF ?s3 (?s3\<lparr>rl_rs := (if e1 = None then (rs1\<lparr>rtriggers := ?tr\<rparr>)
          \<lparr>rgvks := AList.update (rgKind ?r) True (rgvks (rs1\<lparr>rtriggers := ?tr\<rparr>))\<rparr> else rs1\<lparr>rtriggers := ?tr\<rparr>),
          rl_calls := AList.delete i (rl_calls ?s3)\<rparr>)" by (rule watch_kind)
      moreover have "(if e1 = None then (rs1\<lparr>rtriggers := ?tr\<rparr>)
          \<lparr>rgvks := AList.update (rgKind ?r) True (rgvks (rs1\<lparr>rtriggers := ?tr\<rparr>))\<rparr> else rs1\<lparr>rtriggers := ?tr\<rparr>) = rs"
        unfolding rs by simp
      ultimately show ?thesis by (simp only:)
    qed
    also have "?s3\<lparr>rl_rs := rs, rl_calls := AList.delete i (rl_calls ?s3)\<rparr> = s\<lparr>rl_rs := rs\<rparr>"
      using i by (simp add: update_fresh_delete)
    finally show ?thesis .
  qed
qed

lemma router_steps_client: "client_steps B (rl_rs s) rs \<Longrightarrow> router_steps B isF s (s\<lparr>rl_rs := rs\<rparr>)"
proof (induction rule: rtranclp_induct)
  case (step rs rs')
  from client_step_runs [of B "s\<lparr>rl_rs := rs\<rparr>" rs' isF] step show ?case by (auto intro: rtranclp_trans)
qed simp

lemma HandlerSet_handle_parts:
  assumes "\<forall>nh \<in> set (handlers_of h g). client_only B (snd nh)" and "errors_client_only B onError"
    and "HandlerSet_handle B onError h g key u trigger rs = ((obj, err), rs')"
  shows "\<exists>req st st1. newRequestResponse g key u trigger rs = (req, st) \<and> client_steps B (hrs st) (hrs st1) \<and>
    (err \<noteq> None \<and> rs' = hrs st1 \<or> client_steps B (hrs (set_off_triggers u req st1)) rs')"
proof -
  obtain req st where n: "newRequestResponse g key u trigger rs = (req, st)" by fastforce
  have g: "reqGVK req = g" using n by (auto simp: newRequestResponse_def split: prod.splits)
  show ?thesis
  proof (cases "Handles h req")
    case True
    obtain e st1 where run: "handlers_Handle h req st = (e, st1)" by fastforce
    obtain e2 st2 where un: "unless_handled onError req e st1 = (e2, st2)" by fastforce
    have "client_steps B (hrs st) (hrs st1)"
      using run assms(1) g by (auto simp: handlers_Handle_def split: prod.splits dest: run_handlers_steps)
    also have "client_steps B (hrs st1) (hrs st2)" by (rule unless_handled_steps [OF assms(2) un])
    finally have "client_steps B (hrs st) (hrs st2)" .
    moreover have "err \<noteq> None \<and> rs' = hrs st2 \<or> client_steps B (hrs (set_off_triggers u req st2)) rs'"
      using assms(3) n True run un handle_save_steps [OF assms(2)]
      by (fastforce simp: HandlerSet_handle_def split: option.splits)
    ultimately show ?thesis using n by blast
  next
    case False
    with assms(3) n have "handle_done onError req (set_off_triggers u req st) = ((obj, err), rs')"
      by (simp add: HandlerSet_handle_def)
    with handle_done_steps [OF assms(2)] n show ?thesis by blast
  qed
qed

text \<open>The end of a pass over the object \<open>ns/n\<close> of kind \<open>g\<close> that sets off a trigger: the object is gone or the pass was not
  itself set off by one.\<close>

definition pass_ends :: "gvk \<Rightarrow> string \<Rightarrow> string \<Rightarrow> 'w router_loop \<Rightarrow> 'w router_loop \<Rightarrow> bool" where
  "pass_ends g ns n s s' \<longleftrightarrow> (\<exists>u req st. hrs st = rl_rs s \<and> reqGVK req = g \<and> reqNamespace req = ns \<and> reqName req = n \<and>
     (u = None \<or> \<not> reqFromTrigger req) \<and> s' = s\<lparr>rl_rs := hrs (set_off_triggers u req st)\<rparr>)"

text \<open>C4: the pass of the code is a run of these steps: when the handlers of the kind, and the error handler, touch the
  shared state through their client only, \<open>handle\<close> takes the router from state to state by steps, whatever its
  result, and a pass without an error, over an object that is gone or not set off by a trigger, has ended as a pass over
  the object of its key.\<close>

theorem handle_refines_steps:
  assumes "\<forall>nh \<in> set (handlers_of h g). client_only B (snd nh)" and "errors_client_only B onError"
    and "HandlerSet_handle B onError h g key u trigger (rl_rs s) = ((obj, err), rs)"
  shows "router_steps B isF s (s\<lparr>rl_rs := rs\<rparr>) \<and>
    (err = None \<and> (u = None \<or> \<not> trigger) \<longrightarrow> (\<exists>s1 s2. router_steps B isF s s1 \<and>
       pass_ends g (fst (cut_key key)) (snd (cut_key key)) s1 s2 \<and> router_steps B isF s2 (s\<lparr>rl_rs := rs\<rparr>)))"
proof -
  obtain req st st1 where n: "newRequestResponse g key u trigger (rl_rs s) = (req, st)"
    and steps: "client_steps B (hrs st) (hrs st1)"
    and fin: "err \<noteq> None \<and> rs = hrs st1 \<or> client_steps B (hrs (set_off_triggers u req st1)) rs"
    using HandlerSet_handle_parts [OF assms] by blast
  have req: "reqGVK req = g" "reqNamespace req = fst (cut_key key)" "reqName req = snd (cut_key key)" "reqFromTrigger req = trigger"
    and "hrs st = (rl_rs s)\<lparr>rgvks := []\<rparr>" using n by (auto simp: newRequestResponse_def split: prod.splits)
  then have "router_step B isF s (s\<lparr>rl_rs := hrs st\<rparr>)" using new_request by simp
  also have "router_steps B isF (s\<lparr>rl_rs := hrs st\<rparr>) (s\<lparr>rl_rs := hrs st1\<rparr>)"
    using router_steps_client [of B "s\<lparr>rl_rs := hrs st\<rparr>" "hrs st1"] steps by simp
  finally have run: "router_steps B isF s (s\<lparr>rl_rs := hrs st1\<rparr>)" by auto
  from fin show ?thesis
  proof
    assume "err \<noteq> None \<and> rs = hrs st1"
    with run show ?thesis by blast
  next
    let ?s1 = "s\<lparr>rl_rs := hrs st1\<rparr>" and ?s2 = "s\<lparr>rl_rs := hrs (set_off_triggers u req st1)\<rparr>"
    assume "client_steps B (hrs (set_off_triggers u req st1)) rs"
    then have after: "router_steps B isF ?s2 (s\<lparr>rl_rs := rs\<rparr>)" using router_steps_client [of B ?s2 rs] by simp
    have "router_step B isF ?s1 ?s2" using set_off [of st1 ?s1 B isF u req] by simp
    with run after have "router_steps B isF s (s\<lparr>rl_rs := rs\<rparr>)"
      by (meson rtranclp.rtrancl_into_rtrancl rtranclp_trans)
    moreover have "pass_ends g (fst (cut_key key)) (snd (cut_key key)) ?s1 ?s2" if "u = None \<or> \<not> trigger"
      unfolding pass_ends_def by (intro exI [of _ u] exI [of _ req] exI [of _ st1]) (use req that in simp)
    ultimately show ?thesis using run after by blast
  qed
qed

text \<open>A handler that reads the object \<open>ns/conf\<close>.\<close>

abbreviation object_gvk :: gvk where
  "object_gvk \<equiv> \<lparr>Group = [], Version = ''v1'', Kind = ''Object''\<rparr>"

definition conf :: kobj where
  "conf = empty_obj\<lparr>Namespace := ''ns'', Name := ''conf''\<rparr>"

definition read_conf :: "kobj list handler" where
  "read_conf req st =
     (case reader_Get (memory_backend False) (registrant_of req) (plain_obj empty_obj) object_gvk (mk_key ''ns'' ''conf'') (hrs st) of
        (Inl err, rs) \<Rightarrow> (Some err, st\<lparr>hrs := rs\<rparr>)
      | (Inr _, rs) \<Rightarrow> (None, st\<lparr>hrs := rs\<rparr>))"

definition conf_loop :: "kobj list router_loop" where
  "conf_loop = \<lparr>rl_rs = empty_rstate [conf], rl_working = None, rl_calls = [], rl_enqueued = []\<rparr>"

lemma read_conf_client_only: "client_only (memory_backend False) read_conf"
  by (auto simp: client_only_def read_conf_def split: prod.splits sum.splits dest: reader_steps)

lemma read_conf_get:
  "\<exists>rs. reader_Get (memory_backend False) reg (plain_obj empty_obj) object_gvk (mk_key ''ns'' ''conf'') (empty_rstate [conf]) =
     (Inr conf, rs)"
  by (simp add: reader_Get_def watched_def triggerRegistry_Watch_def Register_def plain_obj_def WatchGVK_def
      example_lib_def NewErrors_def empty_rstate_def key_of_def conf_def Let_def)

theorem handle_refines_steps_witness:
  "\<exists>s1 s2. router_steps (memory_backend False) (\<lambda>_. False) conf_loop s1 \<and> pass_ends cm_gvk ''ns'' ''app'' s1 s2"
proof -
  let ?B = "memory_backend False" and ?h = "[(cm_gvk, [(''h'', read_conf)])]"
  obtain obj err rs where run: "HandlerSet_handle ?B None ?h cm_gvk ''ns/app'' None False (rl_rs conf_loop) = ((obj, err), rs)"
    by (metis surj_pair)
  have "(empty_rstate w)\<lparr>rgvks := []\<rparr> = empty_rstate w" for w :: "kobj list" by (simp add: empty_rstate_def)
  then have "err = None"
    using run read_conf_get [of "\<lparr>regGVK = cm_gvk, regKey = ''ns/app''\<rparr>"]
    by (auto simp: HandlerSet_handle_def newRequestResponse_def handlers_Handle_def handlers_of_def Handles_def conf_loop_def
        read_conf_def registrant_of_def NewErrors_def unless_handled_def handle_save_def handle_done_def handleError_def
        save_def new_response_def Let_def split: prod.splits)
  moreover have "\<forall>nh \<in> set (handlers_of ?h cm_gvk). client_only ?B (snd nh)"
    by (simp add: handlers_of_def read_conf_client_only)
  moreover have "errors_client_only ?B None" by (simp add: errors_client_only_def)
  ultimately obtain s1 s2 where "router_steps ?B (\<lambda>_. False) conf_loop s1"
    "pass_ends cm_gvk (fst (cut_key ''ns/app'')) (snd (cut_key ''ns/app'')) s1 s2"
    using handle_refines_steps [OF _ _ run, of "\<lambda>_. False"] by blast
  moreover have "cut_key ''ns/app'' = (''ns'', ''app'')"
    using cut_key_toKey [of "''ns''" "''app''"] by (simp add: no_slash_def toKey_def)
  ultimately show ?thesis by auto
qed

section \<open>Triggers\<close>

text \<open>What the steps do to the triggers is what the loop of the theory \<open>Trigger_Loop\<close> does.\<close>

lemma router_step_view:
  assumes "router_step B isF s s'"
  shows "trigger_view s' = trigger_view s \<or> trigger_step isF (trigger_view s) (trigger_view s')"
  using assms
proof cases
  case (access obj g i reg ns n sel fs)
  then show ?thesis using step_register [of "trigger_view s" i isF] by simp
next
  case (watch_kind i r e rs)
  then have "trigger_view s' = (trigger_view s)\<lparr>calls := AList.delete i (calls (trigger_view s))\<rparr>"
    using WatchGVK_frame [of B "[rgKind r]" "rl_rs s" e rs] by (auto simp: trigger_view_def)
  moreover have "trigger_step isF (trigger_view s) ((trigger_view s)\<lparr>calls := AList.delete i (calls (trigger_view s))\<rparr>)"
    using watch_kind by (intro step_registered [of _ _ r]) simp_all
  ultimately show ?thesis by (simp only:) simp
next
  case (set_off st u req)
  then show ?thesis
    using step_trigger [of isF "trigger_view s"] step_unregister [of isF "trigger_view s"]
    by (auto simp: trigger_view_def set_off_triggers_def Let_def)
next
  case (loop v)
  then show ?thesis using step_loop [of isF "trigger_view s" v] by simp
qed (simp_all add: trigger_view_def)

text \<open>Steps on which the target is not being removed.\<close>

abbreviation live_steps ::
  "('w, 'a) backend_scheme \<Rightarrow> (kobj \<Rightarrow> bool) \<Rightarrow> enqueueTarget \<Rightarrow> 'w router_loop \<Rightarrow> 'w router_loop \<Rightarrow> bool" where
  "live_steps B isF t \<equiv> (\<lambda>s s'. router_step B isF s s' \<and> \<not> removing t (trigger_view s'))\<^sup>*\<^sup>*"

lemma live_steps_keep:
  assumes "live_steps B isF t s s'" and "\<not> removing t (trigger_view s)" and "loop_ok (trigger_view s)" and "P (trigger_view s)"
    and step: "\<And>v v'. trigger_step isF v v' \<Longrightarrow> loop_ok v \<Longrightarrow> P v \<Longrightarrow> \<not> removing t v \<Longrightarrow> P v'"
  shows "\<not> removing t (trigger_view s') \<and> loop_ok (trigger_view s') \<and> P (trigger_view s')"
  using assms(1)
proof (induction rule: rtranclp_induct)
  case base
  show ?case using assms(2-4) by simp
next
  case (step s1 s2)
  then have view: "trigger_view s2 = trigger_view s1 \<or> trigger_step isF (trigger_view s1) (trigger_view s2)"
    using router_step_view by blast
  with step.IH step.hyps assms(5) trigger_step_ok show ?case by metis
qed

text \<open>
  A read of the object \<open>ns/n\<close> of kind \<open>g\<close>, not wrapped by untriggered, by a handler of the key of \<open>reg\<close>: its
  access begins, with the number \<open>i\<close>, and later its registration makes its last call. When the map of its target has
  been taken out of the kind's map meanwhile, that call stores into a map that nobody sees.
\<close>

definition begins_read ::
  "('w, 'a) backend_scheme \<Rightarrow> registrant \<Rightarrow> gvk \<Rightarrow> string \<Rightarrow> string \<Rightarrow> nat \<Rightarrow> 'w router_loop \<Rightarrow> 'w router_loop \<Rightarrow> bool" where
  "begins_read B reg g ns n i s s' \<longleftrightarrow> (\<exists>obj :: robj. \<not> IsWrapped obj \<and> \<not> IsList obj \<and> gvkFor B (obj_of obj) = Inr g \<and>
     map_of (rl_calls s) i = None \<and>
     s' = put_view (begin_call i g (registrant_target reg) (named_matcher ns n) (trigger_view s)) s)"

definition stores_read :: "registrant \<Rightarrow> gvk \<Rightarrow> string \<Rightarrow> string \<Rightarrow> nat \<Rightarrow> 'w router_loop \<Rightarrow> 'w router_loop \<Rightarrow> bool" where
  "stores_read reg g ns n i s s' \<longleftrightarrow> (\<exists>r. map_of (rl_calls s) i = Some r \<and> rgStage r \<in> {HasTarget, Detached} \<and>
     rgKind r = g \<and> rgTarget r = registrant_target reg \<and> rgMatcher r = named_matcher ns n \<and>
     s' = put_view (store_call i r (trigger_view s)) s)"

text \<open>A \<open>Get\<close> of a handler's client that nothing comes between is such a read.\<close>

lemma reader_Get_reads:
  assumes "reader_Get B reg obj h (mk_key ns n) (rl_rs s) = (Inr x, rs)"
    and "\<not> IsWrapped obj" and "\<not> IsList obj" and "gvkFor B (obj_of obj) = Inr g"
  shows "\<exists>i s1 s2 s3. begins_read B reg g ns n i s s1 \<and> router_step B isF s s1 \<and> router_step B isF s1 s2 \<and>
    stores_read reg g ns n i s2 s3 \<and> router_step B isF s2 s3 \<and> router_steps B isF s3 (s\<lparr>rl_rs := rs\<rparr>) \<and>
    (\<forall>s' \<in> {s1, s2, s3, s\<lparr>rl_rs := rs\<rparr>}. toTrigger (rtriggers (rl_rs s')) = toTrigger (rtriggers (rl_rs s)) \<and>
       rl_working s' = rl_working s \<and> rl_enqueued s' = rl_enqueued s)"
proof -
  obtain rs1 w where one: "triggerRegistry_Watch B reg obj ns n None None (rl_rs s) = (None, rs1)" "rs = rs1\<lparr>rworld := w\<rparr>"
    using assms(1) by (auto simp: reader_Get_def watched_def split: prod.splits option.splits)
  obtain i where i: "map_of (rl_calls s) i = None" using fresh_call by blast
  let ?r = "\<lambda>st. \<lparr>rgKind = g, rgTarget = registrant_target reg, rgMatcher = named_matcher ns n, rgStage = st\<rparr>"
  define s1 where "s1 = put_view (begin_call i g (registrant_target reg) (named_matcher ns n) (trigger_view s)) s"
  define s2 where "s2 = put_view (target_call i (?r HasKind) (trigger_view s1)) s1"
  define s3 where "s3 = put_view (store_call i (?r HasTarget) (trigger_view s2)) s2"
  have kind: "item_kind obj g = g" using assms(3) by (simp add: item_kind_def)
  note run = access_run [where reg = reg and ns = ns and n = n and sel = None and fs = None, OF assms(2,4) i,
      unfolded kind, folded named_matcher_def, folded s1_def, folded s2_def, folded s3_def]
  have tr: "matchers (rtriggers rs1) = register (regGVK reg) (regKey reg) g (named_matcher ns n) (matchers (rtriggers (rl_rs s)))"
    "toTrigger (rtriggers rs1) = toTrigger (rtriggers (rl_rs s))"
    using triggerRegistry_Watch_ok(1,2) [OF one(1) assms(2,4)] by (simp_all add: kind named_matcher_def)
  obtain e rs2 where wk: "WatchGVK B [g] (rl_rs s3) = (e, rs2)" by fastforce
  have rs1: "e = None" "rs1 = rs2\<lparr>rgvks := AList.update g True (rgvks rs2)\<rparr>"
    using one(1) assms(2-4) wk run(4)
    by (auto simp: triggerRegistry_Watch_def Register_def Let_def WatchGVK_triggers named_matcher_def split: prod.splits option.splits)
  have at: "map_of (rl_calls s3) i = Some (?r Stored)" by (simp add: run(4))
  have "router_step B isF s3 (s3\<lparr>rl_rs := rs1, rl_calls := AList.delete i (rl_calls s3)\<rparr>)"
    using watch_kind [OF at _, of B e rs2 isF] wk rs1 by simp
  also have "s3\<lparr>rl_rs := rs1, rl_calls := AList.delete i (rl_calls s3)\<rparr> = s\<lparr>rl_rs := rs1\<rparr>"
    using i by (simp add: run(4) update_fresh_delete)
  finally have "router_steps B isF s3 (s\<lparr>rl_rs := rs1\<rparr>)" by blast
  also have "router_step B isF (s\<lparr>rl_rs := rs1\<rparr>) (s\<lparr>rl_rs := rs\<rparr>)" using backend [of B isF "s\<lparr>rl_rs := rs1\<rparr>" w] one(2) by simp
  finally have rest: "router_steps B isF s3 (s\<lparr>rl_rs := rs\<rparr>)" .
  have "begins_read B reg g ns n i s s1"
    unfolding begins_read_def by (intro exI [of _ obj]) (use assms(2-4) i in \<open>simp add: s1_def\<close>)
  moreover have "stores_read reg g ns n i s2 s3"
    unfolding stores_read_def by (intro exI [of _ "?r HasTarget"]) (simp add: run(5) s3_def)
  moreover have "\<forall>s' \<in> {s1, s2, s3, s\<lparr>rl_rs := rs\<rparr>}. toTrigger (rtriggers (rl_rs s')) = toTrigger (rtriggers (rl_rs s)) \<and>
       rl_working s' = rl_working s \<and> rl_enqueued s' = rl_enqueued s"
    using tr(2) one(2) by (simp add: s1_def s2_def s3_def)
  ultimately show ?thesis using run(1-3) rest by blast
qed

lemma begins_read_view:
  assumes "begins_read B reg g ns n i s s'" and "loop_ok (trigger_view s)"
  shows "loop_ok (trigger_view s')" and "attached i t (trigger_view s')" and "rl_enqueued s' = rl_enqueued s"
proof -
  have i: "map_of (calls (trigger_view s)) i = None"
    and s': "s' = put_view (begin_call i g (registrant_target reg) (named_matcher ns n) (trigger_view s)) s"
    using assms(1) by (auto simp: begins_read_def)
  show "loop_ok (trigger_view s')"
    using trigger_step_ok [OF step_register [OF i] assms(2)] by (simp add: s')
  show "attached i t (trigger_view s')" "rl_enqueued s' = rl_enqueued s" by (simp_all add: s' attached_def begin_call_def)
qed

lemma pass_ends_trigger:
  assumes "pass_ends g ns n s s'"
  shows "\<exists>obj. trigger_view s' = (trigger_view s)\<lparr>tstate := Trigger n ns g obj (tstate (trigger_view s))\<rparr>"
proof -
  obtain u req st where p: "hrs st = rl_rs s" "reqGVK req = g" "reqNamespace req = ns" "reqName req = n"
    "u = None \<or> \<not> reqFromTrigger req" "s' = s\<lparr>rl_rs := hrs (set_off_triggers u req st)\<rparr>"
    using assms unfolding pass_ends_def by blast
  then show ?thesis
    by (intro exI [of _ "if u = None then None else hobject st"])
      (auto simp: trigger_view_def set_off_triggers_def Let_def Trigger_def UnregisterAndTrigger_def)
qed

text \<open>A round over the removal of the object is under way.\<close>

definition removal_round :: "triggerKey \<Rightarrow> 'w router_loop \<Rightarrow> bool" where
  "removal_round key s \<longleftrightarrow> (\<exists>p pos. rl_working s = Some (p, pos) \<and> (key, None) \<in> set p)"

lemma stores_read_watching:
  assumes "stores_read reg g ns n i s s'" and "loop_ok (trigger_view s)" and "attached i (registrant_target reg) (trigger_view s)"
    and "no_slash ns n" and "\<not> removal_round \<lparr>tkName = n, tkNamespace = ns, tkGVK = g\<rparr> s" and "l \<le> length (rl_enqueued s)"
  shows "loop_ok (trigger_view s') \<and>
    watching \<lparr>tkName = n, tkNamespace = ns, tkGVK = g\<rparr> (registrant_target reg) l (trigger_view s')"
proof -
  let ?key = "\<lparr>tkName = n, tkNamespace = ns, tkGVK = g\<rparr>"
  obtain r where r: "map_of (calls (trigger_view s)) i = Some r" "rgStage r \<in> {HasTarget, Detached}" "rgKind r = g"
    "rgTarget r = registrant_target reg" "rgMatcher r = named_matcher ns n"
    and s': "s' = put_view (store_call i r (trigger_view s)) s"
    using assms(1) by (auto simp: stores_read_def)
  have "loop_ok (trigger_view s')"
    using trigger_step_ok [OF step_loop [OF call_store [OF r(1,2)]] assms(2)] by (simp add: s')
  moreover have "rgStage r = HasTarget" using assms(3) r(1,2,4) by (auto simp: attached_def)
  then have "has_matcher ?key (registrant_target reg) (trigger_view s')"
    using store_call_has [of "trigger_view s" r ?key i] assms(2,4) r(3-5) by (simp add: s')
  ultimately show ?thesis
    using assms(5,6) by (auto simp: watching_def safe_def s' removal_round_def)
qed

text \<open>C2: who has read an object is called again after it is handled: let a handler for the key of target \<open>t\<close> read a named
  object through its client, and let, after the read's matcher is stored, a pass over that object end that sets off its
  trigger. Then, whatever the steps of other passes, reads, triggers and rounds of the loop between any two of these,
  once the loop has nothing left to do \<open>t\<close> has been enqueued since the read began; unless \<open>t\<close> itself is being removed,
  or the matcher is stored while a round over the removal of the object itself is under way (which may then take the
  matcher away without having seen it).\<close>

theorem watcher_called_again:
  assumes "loop_ok (trigger_view s0)" and "n \<noteq> []" and "no_slash ns n" and "t = registrant_target reg"
    and "begins_read B reg g ns n i s0 s1" and "\<not> removing t (trigger_view s1)" and "live_steps B isF t s1 s2"
    and "stores_read reg g ns n i s2 s3" and "\<not> removal_round \<lparr>tkName = n, tkNamespace = ns, tkGVK = g\<rparr> s2"
    and "\<not> removing t (trigger_view s3)" and "live_steps B isF t s3 s4"
    and "pass_ends g ns n s4 s5" and "\<not> removing t (trigger_view s5)" and "live_steps B isF t s5 s6"
    and "toTrigger (rtriggers (rl_rs s6)) = []" and "rl_working s6 = None"
  shows "t \<in> set (drop (length (rl_enqueued s0)) (rl_enqueued s6))"
proof -
  let ?key = "\<lparr>tkName = n, tkNamespace = ns, tkGVK = g\<rparr>" and ?l = "length (rl_enqueued s0)"
  note one = begins_read_view(1) [OF assms(5,1)] begins_read_view(2) [OF assms(5,1), of t] begins_read_view(3) [OF assms(5,1)]
  from live_steps_keep [where P = "\<lambda>v. attached i t v \<and> ?l \<le> length (enqueued v)", OF assms(7,6) one(1)]
  have two: "loop_ok (trigger_view s2)" "attached i t (trigger_view s2)" "?l \<le> length (rl_enqueued s2)"
    using one(2,3) attached_step step_enqueues by (auto, (metis le_add1 le_trans length_append)+)
  have three: "loop_ok (trigger_view s3)" "watching ?key t ?l (trigger_view s3)"
    using stores_read_watching [OF assms(8) two(1) _ assms(3,9) two(3)] two(2) assms(4) by auto
  from live_steps_keep [where P = "watching ?key t ?l", OF assms(11,10) three watching_step] assms(2,3)
  have four: "loop_ok (trigger_view s4)" "watching ?key t ?l (trigger_view s4)" by auto
  obtain obj where trig: "trigger_view s5 = (trigger_view s4)\<lparr>tstate := Trigger n ns g obj (tstate (trigger_view s4))\<rparr>"
    using pass_ends_trigger [OF assms(12)] by blast
  then have "loop_ok (trigger_view s5)" using trigger_step_ok [OF step_trigger four(1)] by simp
  moreover have "owed ?key t ?l (trigger_view s5)" using watching_triggered [OF four(2), of obj] trig by simp
  ultimately have "owed ?key t ?l (trigger_view s6)"
    using live_steps_keep [where P = "owed ?key t ?l", OF assms(14,13) _ _ owed_step] assms(2,3) by auto
  with owed_at_rest [of ?key t ?l "trigger_view s6"] assms(15,16) show ?thesis by simp
qed

lemma round_live:
  assumes "round_steps isF (trigger_view s) v" and "\<not> removing t (trigger_view s)"
  shows "live_steps B isF t s (put_view v s)"
  using assms(1)
proof (induction rule: rtranclp_induct)
  case base
  have "put_view (trigger_view s) s = s" by (simp add: put_view_def)
  then show ?case by simp
next
  case (step v v')
  have "round_steps isF (trigger_view s) v'" using step.hyps by (rule rtranclp.rtrancl_into_rtrancl)
  then have "pending_keys v' \<subseteq> pending_keys (trigger_view s)"
    by (induction rule: rtranclp_induct) (auto dest: round_pending)
  with assms(2) have "\<not> removing t v'" by (auto simp: removing_def)
  moreover have "router_step B isF (put_view v s) (put_view v' s)"
    using loop [of isF "put_view v s" v' B] loop_step.round [OF step.hyps(2)] by simp
  ultimately show ?case using step.IH by (simp add: rtranclp.rtrancl_into_rtrancl)
qed

lemma router_steps_ok: "router_steps B isF s s' \<Longrightarrow> loop_ok (trigger_view s) \<Longrightarrow> loop_ok (trigger_view s')"
  by (induction rule: rtranclp_induct) (auto dest!: router_step_view dest: trigger_step_ok)

lemma live_router: "live_steps B isF t s s' \<Longrightarrow> router_steps B isF s s'"
  by (induction rule: rtranclp_induct) (auto intro: rtranclp.rtrancl_into_rtrancl)

theorem watcher_called_again_witness:
  "\<exists>s. router_steps (memory_backend False) (\<lambda>_. False) conf_loop s \<and> \<lparr>etKey = ''ns/app'', etGVK = cm_gvk\<rparr> \<in> set (rl_enqueued s)"
proof -
  let ?B = "memory_backend False" and ?reg = "\<lparr>regGVK = cm_gvk, regKey = ''ns/app''\<rparr>" and ?F = "\<lambda>_ :: kobj. False"
  let ?t = "\<lparr>etKey = ''ns/app'', etGVK = cm_gvk\<rparr>" and ?q = "\<lambda>s. toTrigger (rtriggers (rl_rs s))"
  obtain rs where rs: "reader_Get ?B ?reg (plain_obj empty_obj) object_gvk (mk_key ''ns'' ''conf'') (rl_rs conf_loop) = (Inr conf, rs)"
    using read_conf_get by (auto simp: conf_loop_def)
  obtain i s1 s2 s3 where read: "begins_read ?B ?reg object_gvk ''ns'' ''conf'' i conf_loop s1"
    "stores_read ?reg object_gvk ''ns'' ''conf'' i s2 s3" and steps: "router_step ?B ?F conf_loop s1" "router_step ?B ?F s1 s2"
      "router_step ?B ?F s2 s3" and same: "\<forall>s' \<in> {s1, s2, s3}. ?q s' = [] \<and> rl_working s' = None"
    using reader_Get_reads [OF rs, of object_gvk ?F] by (auto simp: plain_obj_def conf_loop_def example_lib_def empty_rstate_def)
  define st where "st = \<lparr>hrs = rl_rs s3, hobject = Some conf, hresp = new_response\<rparr>"
  let ?req = "\<lparr>reqGVK = object_gvk, reqNamespace = ''ns'', reqName = ''conf'', reqKey = ''ns/conf'', reqFromTrigger = False\<rparr>"
  let ?p = "[(\<lparr>tkName = ''conf'', tkNamespace = ''ns'', tkGVK = object_gvk\<rparr>, Some conf)]"
  define s5 where "s5 = s3\<lparr>rl_rs := hrs (set_off_triggers (Some conf) ?req st)\<rparr>"
  have ends: "pass_ends object_gvk ''ns'' ''conf'' s3 s5"
    unfolding pass_ends_def by (intro exI [of _ "Some conf"] exI [of _ ?req] exI [of _ st]) (simp add: st_def s5_def)
  have q5: "?q s5 = ?p" "rl_working s5 = None" using same by (simp_all add: s5_def st_def set_off_triggers_def Trigger_def Let_def)
  let ?v = "(trigger_view s5)\<lparr>working := Some (?q s5, Taken), tstate := (rtriggers (rl_rs s5))\<lparr>toTrigger := []\<rparr>\<rparr>"
  define s where "s = put_view ?v s5"
  have taken: "router_step ?B ?F s5 s" unfolding s_def
    using loop_step.take [of "trigger_view s5" ?F] q5 by (intro loop) simp
  have "loop_ok (trigger_view conf_loop)"
    by (simp add: loop_ok_def trigger_view_def conf_loop_def empty_rstate_def matchers_ok_def)
  moreover have "router_steps ?B ?F conf_loop s3" using steps by (blast intro: rtranclp.intros)
  then have to5: "router_steps ?B ?F conf_loop s5"
    using set_off [of st s3 ?B ?F "Some conf" ?req] by (auto simp: s5_def st_def intro: rtranclp.rtrancl_into_rtrancl)
  ultimately have ok: "loop_ok (trigger_view conf_loop)" "loop_ok (trigger_view s)"
    using router_steps_ok taken by (blast intro: rtranclp.rtrancl_into_rtrancl)+
  obtain fired checks m where f: "triggers_process ?F ?p (the_matchers (trigger_view s)) = (fired, checks, m)" by (metis prod_cases3)
  have w: "working (trigger_view s) = Some (?p, Taken)" by (simp add: s_def q5)
  have "matchers_ok (the_matchers (trigger_view s))" using ok(2) by (simp add: loop_ok_def)
  from process_run [OF this w f] obtain c where run: "round_steps ?F (trigger_view s)
    (set_matchers m ((trigger_view s)\<lparr>working := None, calls := c, enqueued := enqueued (trigger_view s) @ fired\<rparr>))" by blast
  define s6 where "s6 = put_view (set_matchers m
    ((trigger_view s)\<lparr>working := None, calls := c, enqueued := enqueued (trigger_view s) @ fired\<rparr>)) s"
  have live: "\<not> removing ?t (trigger_view s1)" "\<not> removing ?t (trigger_view s2)" "\<not> removing ?t (trigger_view s3)"
    "\<not> removing ?t (trigger_view s5)" "\<not> removing ?t (trigger_view s)"
    using same q5 by (simp_all add: removing_def pending_keys_def s_def)
  have last: "live_steps ?B ?F ?t s s6" unfolding s6_def by (rule round_live [OF run live(5)])
  then have "live_steps ?B ?F ?t s5 s6" using taken live(5) by (blast intro: converse_rtranclp_into_rtranclp)
  moreover have "live_steps ?B ?F ?t s1 s2" using steps(2) live(2) by blast
  moreover have "\<not> removal_round \<lparr>tkName = ''conf'', tkNamespace = ''ns'', tkGVK = object_gvk\<rparr> s2"
    using same by (simp add: removal_round_def)
  moreover have "?q s6 = []" "rl_working s6 = None" by (simp_all add: s6_def s_def)
  moreover have "?t = registrant_target ?reg" by (simp add: registrant_target_def)
  ultimately have "?t \<in> set (rl_enqueued s6)"
    using watcher_called_again [OF ok(1) _ _ _ read(1) live(1) _ read(2) _ live(3) rtranclp.rtrancl_refl ends live(4)]
    by (auto simp: conf_loop_def no_slash_def)
  moreover have "router_steps ?B ?F conf_loop s6"
    using to5 taken live_router [OF last] by (meson rtranclp.rtrancl_into_rtrancl rtranclp_trans)
  ultimately show ?thesis by blast
qed

end
