(* ===== verification/Route_Builder.thy ===== *)
theory Route_Builder
  imports Router_Handle Go_Numbers
begin

text \<open>
  The builder of pkg/router/router.go: its methods work on a copy of the builder and hand it on, so that a chain of calls
  describes a route. The middleware is a slice: copies of a builder share its array. Arrays are kept in a store; what
  capacity a new array gets is the argument \<open>grow\<close> (old capacity, needed length).
\<close>

section \<open>Slices\<close>

record slice =
  slArray :: nat
  slLen :: nat
  slCap :: nat

record 'm arrays =
  arCells :: "nat \<Rightarrow> nat \<Rightarrow> 'm"
  arNext :: nat

definition nil_slice :: slice where
  "nil_slice = \<lparr>slArray = 0, slLen = 0, slCap = 0\<rparr>"

definition elems :: "'m arrays \<Rightarrow> slice \<Rightarrow> 'm list" where
  "elems A s = map (arCells A (slArray s)) [0..<slLen s]"

definition write_at :: "(nat \<Rightarrow> 'm) \<Rightarrow> nat \<Rightarrow> 'm list \<Rightarrow> nat \<Rightarrow> 'm" where
  "write_at c n ms = (\<lambda>i. if n \<le> i \<and> i < n + length ms then ms ! (i - n) else c i)"

text \<open>Go's \<open>append(s, ms...)\<close>: in place while the capacity lasts, else in a new array.\<close>

definition go_append :: "(nat \<Rightarrow> nat \<Rightarrow> nat) \<Rightarrow> slice \<Rightarrow> 'm list \<Rightarrow> 'm arrays \<Rightarrow> slice \<times> 'm arrays" where
  "go_append grow s ms A =
     (if slLen s + length ms \<le> slCap s then
        (s\<lparr>slLen := slLen s + length ms\<rparr>,
         A\<lparr>arCells := (arCells A)(slArray s := write_at (arCells A (slArray s)) (slLen s) ms)\<rparr>)
      else
        (\<lparr>slArray = arNext A, slLen = slLen s + length ms, slCap = grow (slCap s) (slLen s + length ms)\<rparr>,
         A\<lparr>arCells := (arCells A)(arNext A := write_at (arCells A (slArray s)) (slLen s) ms), arNext := arNext A + 1\<rparr>))"

definition allocated :: "'m arrays \<Rightarrow> slice \<Rightarrow> bool" where
  "allocated A s \<longleftrightarrow> slLen s \<le> slCap s \<and> (slCap s = 0 \<or> slArray s < arNext A)"

lemma elems_append: "elems (snd (go_append grow s ms A)) (fst (go_append grow s ms A)) = elems A s @ ms"
  by (auto simp: go_append_def elems_def write_at_def intro!: nth_equalityI simp: nth_append)

section \<open>The builder\<close>

text \<open>The fields of the builder are those of \<open>RouteBuilder\<close>; its middleware is read through the slice.\<close>

record 'w builder =
  bRoute :: "'w RouteBuilder"
  bObjType :: gvk
  bMiddleware :: slice

type_synonym 'w mw_arrays = "('w handler \<Rightarrow> 'w handler) arrays"

definition builder_route :: "'w mw_arrays \<Rightarrow> 'w builder \<Rightarrow> 'w RouteBuilder" where
  "builder_route A b = (bRoute b)\<lparr>middleware := elems A (bMiddleware b)\<rparr>"

definition builder_Middleware ::
  "(nat \<Rightarrow> nat \<Rightarrow> nat) \<Rightarrow> ('w handler \<Rightarrow> 'w handler) list \<Rightarrow> 'w builder \<Rightarrow> 'w mw_arrays \<Rightarrow> 'w builder \<times> 'w mw_arrays" where
  "builder_Middleware grow m b A =
     (case go_append grow (bMiddleware b) m A of (s, A) \<Rightarrow> (b\<lparr>bMiddleware := s\<rparr>, A))"

definition builder_Namespace :: "string \<Rightarrow> 'w builder \<Rightarrow> 'w builder" where
  "builder_Namespace namespace b = b\<lparr>bRoute := (bRoute b)\<lparr>rbNamespace := namespace\<rparr>\<rparr>"

definition builder_Selector :: "label_selector option \<Rightarrow> 'w builder \<Rightarrow> 'w builder" where
  "builder_Selector sel b = b\<lparr>bRoute := (bRoute b)\<lparr>rbSel := sel\<rparr>\<rparr>"

definition builder_FieldSelector :: "field_selector option \<Rightarrow> 'w builder \<Rightarrow> 'w builder" where
  "builder_FieldSelector sel b = b\<lparr>bRoute := (bRoute b)\<lparr>fieldSelector := sel\<rparr>\<rparr>"

definition builder_Name :: "string \<Rightarrow> 'w builder \<Rightarrow> 'w builder" where
  "builder_Name name' b = b\<lparr>bRoute := (bRoute b)\<lparr>rbName := name'\<rparr>\<rparr>"

definition builder_IncludeRemoved :: "'w builder \<Rightarrow> 'w builder" where
  "builder_IncludeRemoved b = b\<lparr>bRoute := (bRoute b)\<lparr>includeRemove := True\<rparr>\<rparr>"

definition builder_IncludeFinalizing :: "'w builder \<Rightarrow> 'w builder" where
  "builder_IncludeFinalizing b = b\<lparr>bRoute := (bRoute b)\<lparr>includeFinalizing := True\<rparr>\<rparr>"

definition builder_Type :: "gvk \<Rightarrow> 'w builder \<Rightarrow> 'w builder" where
  "builder_Type objType b = b\<lparr>bObjType := objType\<rparr>"

section \<open>Registering\<close>

text \<open>\<open>callerName\<close> is the file and line of the call. Every way to end a chain adds a handler to the router's set.\<close>

definition builder_Handler ::
  "('w, 'a) backend_scheme \<Rightarrow> string \<Rightarrow> 'w builder \<Rightarrow> 'w handler \<Rightarrow> 'w mw_arrays \<Rightarrow> 'w handlers \<Rightarrow> 'w handlers" where
  "builder_Handler B callerName b h A hs =
     (case RouteBuilder_Handler B callerName (builder_route A b) h of
        (n, result) \<Rightarrow> AddHandler n (bObjType b) result hs)"

definition builder_HandlerFunc ::
  "('w, 'a) backend_scheme \<Rightarrow> string \<Rightarrow> 'w builder \<Rightarrow> 'w handler \<Rightarrow> 'w mw_arrays \<Rightarrow> 'w handlers \<Rightarrow> 'w handlers" where
  "builder_HandlerFunc B callerName b h =
     builder_Handler B callerName (b\<lparr>bRoute := (bRoute b)\<lparr>routeName := callerName\<rparr>\<rparr>) h"

definition builder_Finalize ::
  "('w, 'a) backend_scheme \<Rightarrow> string \<Rightarrow> string \<Rightarrow> 'w builder \<Rightarrow> 'w handler \<Rightarrow> 'w mw_arrays \<Rightarrow> 'w handlers \<Rightarrow> 'w handlers" where
  "builder_Finalize B callerName finalizerID b h =
     builder_Handler B callerName (b\<lparr>bRoute := (bRoute b)\<lparr>finalizeID := finalizerID, routeName := callerName\<rparr>\<rparr>) h"

definition builder_FinalizeFunc ::
  "('w, 'a) backend_scheme \<Rightarrow> string \<Rightarrow> string \<Rightarrow> 'w builder \<Rightarrow> 'w handler \<Rightarrow> 'w mw_arrays \<Rightarrow> 'w handlers \<Rightarrow> 'w handlers" where
  "builder_FinalizeFunc B callerName finalizerID b h =
     builder_Handler B callerName (b\<lparr>bRoute := (bRoute b)\<lparr>finalizeID := finalizerID, routeName := callerName\<rparr>\<rparr>) h"

text \<open>\<open>name()\<close>: the base name of the calling file, as \<open>filepath.Base\<close> gives it, and the line.\<close>

definition caller_name :: "string \<Rightarrow> int \<Rightarrow> string" where
  "caller_name base line = base @ '':'' @ int_text line"

text \<open>A router is a builder itself; \<open>Handle\<close> and \<open>HandleFunc\<close> set its own \<open>routeName\<close>, which stays.\<close>

definition new_builder :: "'w builder" where
  "new_builder = \<lparr>bRoute = \<lparr>includeRemove = False, includeFinalizing = False, finalizeID = [], rbName = [],
     rbNamespace = [], routeName = [], middleware = [], rbSel = None, fieldSelector = None\<rparr>,
     bObjType = \<lparr>Group = [], Version = [], Kind = []\<rparr>, bMiddleware = nil_slice\<rparr>"

definition Router_Handle_route ::
  "('w, 'a) backend_scheme \<Rightarrow> string \<Rightarrow> gvk \<Rightarrow> 'w handler \<Rightarrow> 'w builder \<Rightarrow> 'w mw_arrays \<Rightarrow> 'w handlers \<Rightarrow> 'w builder \<times> 'w handlers" where
  "Router_Handle_route B callerName objType h r A hs =
     (let r = r\<lparr>bRoute := (bRoute r)\<lparr>routeName := callerName\<rparr>\<rparr> in
      (r, builder_Handler B callerName (builder_Type objType r) h A hs))"

definition Router_HandleFunc_route ::
  "('w, 'a) backend_scheme \<Rightarrow> string \<Rightarrow> gvk \<Rightarrow> 'w handler \<Rightarrow> 'w builder \<Rightarrow> 'w mw_arrays \<Rightarrow> 'w handlers \<Rightarrow> 'w builder \<times> 'w handlers" where
  "Router_HandleFunc_route B callerName objType h r A hs =
     (let r = r\<lparr>bRoute := (bRoute r)\<lparr>routeName := callerName\<rparr>\<rparr> in
      (r, builder_Handler B callerName (builder_Type objType r) h A hs))"

section \<open>What a chain builds\<close>

lemma builder_Middleware_route:
  assumes "builder_Middleware grow m b A = (b', A')"
  shows "builder_route A' b' = (builder_route A b)\<lparr>middleware := middleware (builder_route A b) @ m\<rparr>"
  using assms elems_append [of grow "bMiddleware b" m A]
  by (auto simp: builder_Middleware_def builder_route_def split: prod.splits)

text \<open>C35: Two routes made from one builder can share their middleware: when the array of the builder still has room, the
  middleware of the second route is written over that of the first, which from then on runs it instead of its own.
\<close>

theorem Middleware_overwrites:
  assumes "slLen (bMiddleware base) < slCap (bMiddleware base)"
    and "builder_Middleware grow [m1] base A = (r1, A1)" and "builder_Middleware grow [m2] base A1 = (r2, A2)"
  shows "middleware (builder_route A1 r1) = middleware (builder_route A base) @ [m1] \<and>
    middleware (builder_route A2 r1) = middleware (builder_route A base) @ [m2]"
  using assms
  by (auto simp: builder_Middleware_def go_append_def builder_route_def elems_def write_at_def split: if_splits)

definition doubling :: "nat \<Rightarrow> nat \<Rightarrow> nat" where
  "doubling c n = (if 2 * c < n then n else 2 * c)"

definition pass_on :: "unit handler \<Rightarrow> unit handler" where
  "pass_on h = h"

definition refuse :: "unit handler \<Rightarrow> unit handler" where
  "refuse h req st = (Some (Err ''refused''), st)"

text \<open>Three calls of \<open>Middleware\<close> with one function each leave room for a fourth.\<close>

theorem Middleware_overwrites_witness:
  "\<exists>base A r1 A1 r2 A2.
     elems A (bMiddleware base) = [pass_on, pass_on, pass_on] \<and>
     builder_Middleware doubling [pass_on] base A = (r1, A1) \<and> builder_Middleware doubling [refuse] base A1 = (r2, A2) \<and>
     middleware (builder_route A2 r1) = [pass_on, pass_on, pass_on] @ [refuse]"
proof -
  define A0 :: "unit mw_arrays" where "A0 = \<lparr>arCells = (\<lambda>a i. pass_on), arNext = 1\<rparr>"
  obtain b1 A1 where 1: "builder_Middleware doubling [pass_on] new_builder A0 = (b1, A1)" by fastforce
  obtain b2 A2 where 2: "builder_Middleware doubling [pass_on] b1 A1 = (b2, A2)" by fastforce
  obtain base A where 3: "builder_Middleware doubling [pass_on] b2 A2 = (base, A)" by fastforce
  obtain r1 B1 where 4: "builder_Middleware doubling [pass_on] base A = (r1, B1)" by fastforce
  obtain r2 B2 where 5: "builder_Middleware doubling [refuse] base B1 = (r2, B2)" by fastforce
  have sl: "slLen (bMiddleware base) = 3" "slCap (bMiddleware base) = 4"
    using 1 2 3 by (auto simp: builder_Middleware_def go_append_def new_builder_def nil_slice_def doubling_def)
  have el: "middleware (builder_route A base) = [pass_on, pass_on, pass_on]"
    using builder_Middleware_route [OF 1] builder_Middleware_route [OF 2] builder_Middleware_route [OF 3]
    by (simp add: builder_route_def elems_def new_builder_def nil_slice_def)
  from sl have "slLen (bMiddleware base) < slCap (bMiddleware base)" by simp
  from Middleware_overwrites [OF this 4 5] el
  have "middleware (builder_route B2 r1) = [pass_on, pass_on, pass_on] @ [refuse]" by simp
  moreover from el have "elems A (bMiddleware base) = [pass_on, pass_on, pass_on]" by (simp add: builder_route_def)
  ultimately show ?thesis using 4 5 by blast
qed

text \<open>Where the array is full, \<open>Middleware\<close> makes a new one and every other builder keeps what it has.\<close>

lemma Middleware_full_independent:
  assumes "slCap (bMiddleware base) < slLen (bMiddleware base) + length m"
    and "builder_Middleware grow m base A = (r1, A1)" and "slArray (bMiddleware r) < arNext A"
  shows "builder_route A1 r = builder_route A r"
  using assms by (auto simp: builder_Middleware_def go_append_def builder_route_def elems_def)

text \<open>
  \<open>Router.Handle\<close> names more than its own route: the name of its line stays in the router, and a route that is later
  ended with \<open>Handler\<close> at another line is registered under it.
\<close>

theorem Handle_leaves_name:
  assumes "Router_Handle_route B c1 t1 h1 r A hs = (r', hs')" and "c1 \<noteq> []"
  shows "\<exists>result. handlers_of (builder_Handler B c2 (builder_Type t r') h A hs') t = handlers_of hs' t @ [(c1, result)]"
  using assms
  by (auto simp: Router_Handle_route_def Let_def builder_Handler_def RouteBuilder_Handler_def route_name_def builder_route_def
      builder_Type_def AddHandler_def handlers_of_def split: prod.splits)

theorem Handle_leaves_name_witness:
  "\<exists>r' hs' result.
     Router_Handle_route (memory_backend False) ''a.go:1'' \<lparr>Group = [], Version = ''v1'', Kind = ''Node''\<rparr> (\<lambda>req st. (None, st))
       new_builder \<lparr>arCells = (\<lambda>a i h. h), arNext = 1\<rparr> [] = (r', hs') \<and>
     handlers_of (builder_Handler (memory_backend False) ''b.go:2'' (builder_Type \<lparr>Group = [], Version = ''v1'', Kind = ''Pod''\<rparr> r')
        (\<lambda>req st. (None, st)) \<lparr>arCells = (\<lambda>a i h. h), arNext = 1\<rparr> hs') \<lparr>Group = [], Version = ''v1'', Kind = ''Pod''\<rparr> =
     handlers_of hs' \<lparr>Group = [], Version = ''v1'', Kind = ''Pod''\<rparr> @ [(''a.go:1'', result)]"
proof -
  let ?A = "\<lparr>arCells = (\<lambda>a i h. h), arNext = 1\<rparr> :: kobj list mw_arrays"
  obtain r' hs' where r: "Router_Handle_route (memory_backend False) ''a.go:1'' \<lparr>Group = [], Version = ''v1'', Kind = ''Node''\<rparr>
      (\<lambda>req st. (None, st)) new_builder ?A [] = (r', hs')" by fastforce
  have "\<exists>result. handlers_of (builder_Handler (memory_backend False) ''b.go:2''
        (builder_Type \<lparr>Group = [], Version = ''v1'', Kind = ''Pod''\<rparr> r') (\<lambda>req st. (None, st)) ?A hs')
        \<lparr>Group = [], Version = ''v1'', Kind = ''Pod''\<rparr> =
      handlers_of hs' \<lparr>Group = [], Version = ''v1'', Kind = ''Pod''\<rparr> @ [(''a.go:1'', result)]"
    by (rule Handle_leaves_name [OF r]) simp
  with r show ?thesis by blast
qed

end
