(* ===== verification/Router_Start.thy ===== *)
theory Router_Start
  imports Kube_Examples Error_Lists
begin

text \<open>
  pkg/router/healthz.go, getorcreate.go, the start and stop callbacks of router.go, pkg/leader/leader.go and
  pkg/leader/locks/file.go: the health a process reports, what a router does when it becomes the leader, follows one
  or stops, and the election lock kept in a file.
\<close>

section \<open>Health\<close>

record healthz_state =
  hzHealths :: "(string, bool) gomap"
  hzStarted :: bool
  hzPort :: int

definition healthz_init :: healthz_state where
  "healthz_init = \<lparr>hzHealths = [], hzStarted = False, hzPort = 0\<rparr>"

definition setPort :: "int \<Rightarrow> healthz_state \<Rightarrow> healthz_state" where
  "setPort port hz = (if hzPort hz > 0 then hz else hz\<lparr>hzPort := port\<rparr>)"

definition setHealthy :: "string \<Rightarrow> bool \<Rightarrow> healthz_state \<Rightarrow> healthz_state" where
  "setHealthy name healthy hz = hz\<lparr>hzHealths := AList.update name healthy (hzHealths hz)\<rparr>"

fun no_unhealthy :: "(string, bool) gomap \<Rightarrow> bool" where
  "no_unhealthy [] = True"
| "no_unhealthy ((name, healthy) # hs) = (if \<not> healthy then False else no_unhealthy hs)"

definition GetHealthy :: "healthz_state \<Rightarrow> bool" where
  "GetHealthy hz = (if \<not> no_unhealthy (hzHealths hz) then False else 0 < length (hzHealths hz))"

text \<open>\<open>True\<close>: a server is started on the port.\<close>

definition startHealthz :: "healthz_state \<Rightarrow> bool \<times> healthz_state" where
  "startHealthz hz =
     (if hzStarted hz \<or> hzPort hz \<le> 0 then (False, hz) else (True, hz\<lparr>hzStarted := True\<rparr>))"

definition healthz_status :: "healthz_state \<Rightarrow> nat" where
  "healthz_status hz = (if GetHealthy hz then 200 else 503)"

section \<open>The router\<close>

text \<open>A channel is nil, open or closed; closing a closed channel panics.\<close>

datatype chan = NilChan | OpenChan | ClosedChan

record 'w router_state =
  rtName :: string
  rtStopped :: chan
  rtPostStarts :: "('w \<Rightarrow> 'w) list"
  rtOnError :: bool
  rtHandlersOnError :: bool

definition Router_New :: "'w router_state" where
  "Router_New = \<lparr>rtName = [], rtStopped = OpenChan, rtPostStarts = [], rtOnError = False, rtHandlersOnError = False\<rparr>"

definition New_router :: "int \<Rightarrow> healthz_state \<Rightarrow> 'w router_state \<times> healthz_state" where
  "New_router healthzPort hz = (Router_New, if healthzPort > 0 then setPort healthzPort hz else hz)"

definition PosStart :: "('w \<Rightarrow> 'w) \<Rightarrow> 'w router_state \<Rightarrow> 'w router_state" where
  "PosStart f r = r\<lparr>rtPostStarts := rtPostStarts r @ [f]\<rparr>"

text \<open>What the callers of \<open>Stopped\<close> see: whether the channel they get is closed.\<close>

definition Router_Stopped :: "'w router_state \<Rightarrow> bool" where
  "Router_Stopped r = (rtStopped r = NilChan \<or> rtStopped r = ClosedChan)"

definition Router_done :: "'w router_state \<Rightarrow> 'w router_state option" where
  "Router_done r =
     (case rtStopped r of
        NilChan \<Rightarrow> Some r
      | OpenChan \<Rightarrow> Some (r\<lparr>rtStopped := ClosedChan\<rparr>)
      | ClosedChan \<Rightarrow> None)"

text \<open>\<open>hsStart\<close> is \<open>HandlerSet.Start\<close> on the world outside. The argument of the deferred \<open>setHealthy\<close> is
  evaluated where the \<open>defer\<close> stands, when \<open>err\<close> is nil.\<close>

definition startHandlers ::
  "('w \<Rightarrow> err option \<times> 'w) \<Rightarrow> 'w router_state \<Rightarrow> healthz_state \<Rightarrow> 'w
     \<Rightarrow> err option \<times> 'w router_state \<times> healthz_state \<times> 'w" where
  "startHandlers hsStart r hz w =
     (let r = (if rtStopped r = NilChan then r\<lparr>rtStopped := OpenChan\<rparr> else r);
          err = (None :: err option);
          hz = setHealthy (rtName r) False hz;
          deferred = setHealthy (rtName r) (err = None)
      in case hsStart w of
           (Some err, w) \<Rightarrow> (Some err, r, deferred hz, w)
         | (None, w) \<Rightarrow> (None, r, deferred hz, fold (\<lambda>f w. f w) (rtPostStarts r) w))"

text \<open>The callback for a new leader; \<open>None\<close> is the fatal end of the process.\<close>

definition onNewLeader ::
  "('w \<Rightarrow> err option \<times> 'w) \<Rightarrow> string \<Rightarrow> string \<Rightarrow> 'w router_state \<Rightarrow> healthz_state \<Rightarrow> 'w
     \<Rightarrow> (healthz_state \<times> 'w) option" where
  "onNewLeader hsPreload self leader r hz w =
     (if self = leader then Some (hz, w)
      else
        (let hz = setHealthy (rtName r) False hz in
         case hsPreload w of
           (Some err, w) \<Rightarrow> None
         | (None, w) \<Rightarrow> Some (setHealthy (rtName r) True hz, w)))"

section \<open>Health, as it is reported\<close>

lemma no_unhealthy_iff: "no_unhealthy hs \<longleftrightarrow> (\<forall>(name, healthy) \<in> set hs. healthy)"
  by (induction hs rule: no_unhealthy.induct) auto

lemma GetHealthy_iff: "GetHealthy hz \<longleftrightarrow> hzHealths hz \<noteq> [] \<and> (\<forall>(name, healthy) \<in> set (hzHealths hz). healthy)"
  by (auto simp: GetHealthy_def no_unhealthy_iff)

lemma update_not_Nil [simp]: "AList.update k v m \<noteq> []"
  by (cases m) auto

lemma setHealthy_twice: "setHealthy n h (setHealthy n h' hz) = setHealthy n h hz"
proof -
  have "AList.update n h (AList.update n h' m) = AList.update n h m" for m :: "(string, bool) gomap"
    by (induction m) auto
  then show ?thesis by (simp add: setHealthy_def)
qed

lemma GetHealthy_setHealthy_only:
  "fst ` set (hzHealths hz) \<subseteq> {n} \<Longrightarrow> gomap_ok (hzHealths hz) \<Longrightarrow> GetHealthy (setHealthy n h hz) = h"
proof -
  assume "fst ` set (hzHealths hz) \<subseteq> {n}" "gomap_ok (hzHealths hz)"
  then have "hzHealths hz = [] \<or> (\<exists>b. hzHealths hz = [(n, b)])"
    by (cases "hzHealths hz" rule: list.exhaust; cases "tl (hzHealths hz)") auto
  then show ?thesis by (auto simp: GetHealthy_iff setHealthy_def)
qed

text \<open>The name is a field of the embedded builder, which nothing sets on a router.\<close>

definition fresh_router :: "'w router_state \<Rightarrow> bool" where
  "fresh_router r \<longleftrightarrow> rtName r = []"

lemma fresh_router_kept:
  "fresh_router Router_New" "fresh_router r \<Longrightarrow> fresh_router (PosStart f r)"
  "fresh_router r \<Longrightarrow> Router_done r = Some r' \<Longrightarrow> fresh_router r'"
  "fresh_router r \<Longrightarrow> startHandlers hs r hz w = (e, r', hz', w') \<Longrightarrow> fresh_router r'"
  by (auto simp: fresh_router_def Router_New_def PosStart_def Router_done_def startHandlers_def Let_def
      split: chan.splits prod.splits option.splits if_splits)

lemma startHandlers_health:
  assumes "startHandlers hs r hz w = (e, r', hz', w')"
  shows "hz' = setHealthy (rtName r) True hz"
  using assms
  by (auto simp: startHandlers_def Let_def setHealthy_twice split: option.splits prod.splits if_splits)

text \<open>C37: a router whose start fails reports itself healthy: the health that is set when \<open>startHandlers\<close> returns
  was computed before the start. Since every router goes by the empty name, that also covers up a
  router of the same process that is not ready.\<close>

theorem failed_start_is_healthy:
  assumes "fresh_router r" and "fresh_router other" and "gomap_ok (hzHealths hz)"
    and "fst ` set (hzHealths hz) \<subseteq> {rtName other}"
    and "startHandlers hsStart r (setHealthy (rtName other) False hz) w = (Some err, r', hz', w')"
  shows "GetHealthy hz' \<and> healthz_status hz' = 200"
proof -
  from startHandlers_health [OF assms(5)] have "hz' = setHealthy (rtName other) True hz"
    using assms(1,2) by (simp add: fresh_router_def setHealthy_twice)
  with GetHealthy_setHealthy_only [OF assms(4,3)] have "GetHealthy hz'" by simp
  then show ?thesis by (simp add: healthz_status_def)
qed

theorem failed_start_is_healthy_witness:
  "GetHealthy (setHealthy [] True healthz_init)"
proof -
  have "startHandlers (\<lambda>w. (Some (Err ''no cluster''), w)) Router_New (setHealthy (rtName (Router_New :: nat router_state)) False healthz_init) (0::nat) =
      (Some (Err ''no cluster''), Router_New, setHealthy [] True healthz_init, 0)"
    by (simp add: startHandlers_def Router_New_def Let_def setHealthy_twice)
  from failed_start_is_healthy [OF fresh_router_kept(1) fresh_router_kept(1) _ _ this]
  show ?thesis by (simp add: healthz_init_def)
qed

section \<open>Get or create\<close>

text \<open>\<open>prepare\<close> works on the object that is then created. The object comes back as the calls leave it; a
  read that finds nothing leaves it alone.\<close>

definition GetOrCreate ::
  "('w, 'a) kube_scheme \<Rightarrow> gvk \<Rightarrow> kobj \<Rightarrow> (kobj \<Rightarrow> err option \<times> kobj) option \<Rightarrow> 'w \<Rightarrow> (err option \<times> kobj) \<times> 'w" where
  "GetOrCreate K g obj prepare w =
     (let key = key_of obj in
      case clGet K w g (GoType obj) key of
        (Inr o', w) \<Rightarrow> ((None, o'), w)
      | (Inl err, w) \<Rightarrow>
          if \<not> IsNotFound (Some err) then ((Some err, obj), w)
          else
            (case (case prepare of None \<Rightarrow> (None, obj) | Some f \<Rightarrow> f obj) of
               (Some err, obj) \<Rightarrow> ((Some err, obj), w)
             | (None, obj) \<Rightarrow>
                 (case clCreate K w obj of
                    (err, obj, w) \<Rightarrow>
                      if IsAlreadyExists err
                      then (case clGet K w g (GoType obj) key of
                              (Inr o', w) \<Rightarrow> ((None, o'), w)
                            | (Inl err, w) \<Rightarrow> ((Some err, obj), w))
                      else ((err, obj), w))))"

text \<open>Whoever wins the race for the name, everybody gets the object that is stored.\<close>

lemma GetOrCreate_memory:
  assumes "GetOrCreate (memory_kube L) g obj None w = ((e, o'), w')"
  shows "e = None \<and> key_of o' = key_of obj \<and> o' \<in> set w' \<and> w' = (if o' \<in> set w then w else w @ [obj])"
proof (cases "find (\<lambda>x. key_of x = key_of obj) w")
  case None
  then have "key_of obj \<notin> key_of ` set w" by (auto simp: find_None_iff)
  with None assms show ?thesis by (auto simp: GetOrCreate_def Let_def)
next
  case (Some x)
  then have "x \<in> set w \<and> key_of x = key_of obj" by (auto simp: find_Some_iff)
  with Some assms show ?thesis by (auto simp: GetOrCreate_def Let_def)
qed

section \<open>Leader election\<close>

record ElectionConfig =
  ecTTL :: int
  ecName :: string
  ecNamespace :: string
  ecResourceLockType :: string

datatype ended = SignalDone | Fatal

text \<open>\<open>Run\<close>; \<open>run\<close> is the start of the library's elector with the configuration. Outcome: what
  \<open>onLeader\<close> or the elector answered.\<close>

definition election_Run ::
  "(ElectionConfig \<Rightarrow> err option) \<Rightarrow> ('w \<Rightarrow> err option \<times> 'w) \<Rightarrow> ElectionConfig option \<Rightarrow> 'w \<Rightarrow> err option \<times> 'w" where
  "election_Run run onLeader ec w =
     (case ec of
        None \<Rightarrow> onLeader w
      | Some ec \<Rightarrow>
          (let ec = (if ecNamespace ec = [] then ec\<lparr>ecNamespace := ''kube-system''\<rparr> else ec) in
           case run ec of
             Some err \<Rightarrow> (Some (Err (''failed to start leader election for '' @ ecName ec @ '': '' @ err_text err)), w)
           | None \<Rightarrow> (None, w)))"

definition OnStoppedLeading :: "bool \<Rightarrow> ended" where
  "OnStoppedLeading ctx_done = (if ctx_done then SignalDone else Fatal)"

section \<open>The lock in a file\<close>

text \<open>A file system is a map from names to contents. \<open>enc\<close> and \<open>dec\<close> are the library's JSON codec for the
  election record, of which only the holder is read here.\<close>

record election_record =
  leHolder :: string
  leRest :: string

record file_lock =
  lkId :: string
  lkFile :: string
  lkLease :: "election_record option"

type_synonym file_system = "string \<Rightarrow> string option"

definition NewFile :: "string \<Rightarrow> string \<Rightarrow> file_lock" where
  "NewFile i file = \<lparr>lkId = i, lkFile = file, lkLease = None\<rparr>"

definition lock_Get ::
  "(string \<Rightarrow> err + election_record) \<Rightarrow> file_system \<Rightarrow> file_lock \<Rightarrow> (err + election_record \<times> string) \<times> file_lock" where
  "lock_Get dec fs l =
     (case fs (lkFile l) of
        None \<Rightarrow> (Inl (ApiErr NotFound (lkFile l)), l)
      | Some byteData \<Rightarrow>
          (case dec byteData of
             Inl err \<Rightarrow> (Inl err, l)
           | Inr ler \<Rightarrow> (Inr (ler, byteData), l\<lparr>lkLease := Some ler\<rparr>)))"

datatype open_flag = CreateExcl | Truncate

text \<open>Both flags leave an empty file behind; \<open>O_EXCL\<close> fails when there is one, \<open>O_TRUNC\<close> alone when there is none.\<close>

definition open_file :: "open_flag \<Rightarrow> string \<Rightarrow> file_system \<Rightarrow> err option \<times> file_system" where
  "open_file flag name fs =
     (case flag of
        CreateExcl \<Rightarrow> if fs name \<noteq> None then (Some (Err ''file exists''), fs) else (None, fs(name \<mapsto> []))
      | Truncate \<Rightarrow> if fs name = None then (Some (Err ''no such file''), fs) else (None, fs(name \<mapsto> [])))"

definition writeToFile ::
  "(election_record \<Rightarrow> err + string) \<Rightarrow> election_record \<Rightarrow> open_flag \<Rightarrow> file_system \<Rightarrow> file_lock
     \<Rightarrow> err option \<times> file_system \<times> file_lock" where
  "writeToFile enc ler flag fs l =
     (case open_file flag (lkFile l) fs of
        (Some err, fs) \<Rightarrow> (Some err, fs, l)
      | (None, fs) \<Rightarrow>
          (case enc ler of
             Inl err \<Rightarrow> (Some err, fs, l)
           | Inr text \<Rightarrow> (None, fs(lkFile l \<mapsto> text), l\<lparr>lkLease := Some ler\<rparr>)))"

definition lock_Create ::
  "(election_record \<Rightarrow> err + string) \<Rightarrow> election_record \<Rightarrow> file_system \<Rightarrow> file_lock \<Rightarrow> err option \<times> file_system \<times> file_lock" where
  "lock_Create enc ler fs l =
     (case writeToFile enc ler CreateExcl fs (l\<lparr>lkLease := Some \<lparr>leHolder = [], leRest = []\<rparr>\<rparr>) of
        (Some err, fs, l) \<Rightarrow> (Some err, fs, l\<lparr>lkLease := None\<rparr>)
      | (None, fs, l) \<Rightarrow> (None, fs, l))"

definition lock_Update ::
  "(election_record \<Rightarrow> err + string) \<Rightarrow> election_record \<Rightarrow> file_system \<Rightarrow> file_lock \<Rightarrow> err option \<times> file_system \<times> file_lock" where
  "lock_Update enc ler fs l =
     (if lkLease l = None then (Some (Err ''lease not initialized, call get or create first''), fs, l)
      else writeToFile enc ler Truncate fs l)"

lemma lock_Create_exclusive:
  "lock_Create enc ler fs l = (None, fs', l') \<Longrightarrow> fs (lkFile l) = None \<and> fs' (lkFile l) \<noteq> None"
  by (auto simp: lock_Create_def writeToFile_def open_file_def split: if_splits sum.splits option.splits prod.splits)

text \<open>C38: the file lock lets two candidates take the lease at once: when both have read the record of a holder that is
  gone, the update of one succeeds and so does the update of the other, that has not seen it; nothing
  compares the file with what was read before it is overwritten.\<close>

theorem file_lock_two_holders:
  assumes codec: "\<And>r. \<exists>t. enc r = Inr t \<and> dec t = Inr r"
    and "lkFile a = lkFile b" and "fs (lkFile a) = Some t" and "dec t = Inr old"
  shows "\<exists>a1 b1 b2 fs1 a2 fs2.
    lock_Get dec fs a = (Inr (old, t), a1) \<and> lock_Get dec fs b = (Inr (old, t), b1) \<and>
    lock_Update enc (old\<lparr>leHolder := lkId b\<rparr>) fs b1 = (None, fs1, b2) \<and>
    lock_Update enc (old\<lparr>leHolder := lkId a\<rparr>) fs1 a1 = (None, fs2, a2) \<and>
    map_option leHolder (lkLease a2) = Some (lkId a) \<and> map_option leHolder (lkLease b2) = Some (lkId b)"
proof -
  obtain ta where ta: "enc (old\<lparr>leHolder := lkId a\<rparr>) = Inr ta" using codec by blast
  obtain tb where tb: "enc (old\<lparr>leHolder := lkId b\<rparr>) = Inr tb" using codec by blast
  show ?thesis
    using assms(2-4) ta tb by (simp add: lock_Get_def lock_Update_def writeToFile_def open_file_def)
qed

definition pair_enc :: "election_record \<Rightarrow> err + string" where
  "pair_enc r = Inr (replicate (length (leHolder r)) CHR ''1'' @ ''0'' @ leHolder r @ leRest r)"

definition pair_dec :: "string \<Rightarrow> err + election_record" where
  "pair_dec s =
     (let n = length (takeWhile (\<lambda>c. c = CHR ''1'') s); rest = drop (n + 1) s
      in Inr \<lparr>leHolder = take n rest, leRest = drop n rest\<rparr>)"

lemma pair_codec: "\<exists>t. pair_enc r = Inr t \<and> pair_dec t = Inr r"
proof -
  have "takeWhile (\<lambda>c. c = CHR ''1'') (replicate n CHR ''1'' @ CHR ''0'' # xs) = replicate n CHR ''1''" for n xs
    by (induction n) auto
  then show ?thesis by (simp add: pair_enc_def pair_dec_def Let_def)
qed

theorem file_lock_two_holders_witness:
  "\<exists>a1 b1 b2 fs1 a2 fs2.
    lock_Get pair_dec [''lock'' \<mapsto> ''10xy''] (NewFile ''a'' ''lock'') = (Inr (\<lparr>leHolder = ''x'', leRest = ''y''\<rparr>, ''10xy''), a1) \<and>
    lock_Get pair_dec [''lock'' \<mapsto> ''10xy''] (NewFile ''b'' ''lock'') = (Inr (\<lparr>leHolder = ''x'', leRest = ''y''\<rparr>, ''10xy''), b1) \<and>
    lock_Update pair_enc \<lparr>leHolder = ''b'', leRest = ''y''\<rparr> [''lock'' \<mapsto> ''10xy''] b1 = (None, fs1, b2) \<and>
    lock_Update pair_enc \<lparr>leHolder = ''a'', leRest = ''y''\<rparr> fs1 a1 = (None, fs2, a2) \<and>
    map_option leHolder (lkLease a2) = Some ''a'' \<and> map_option leHolder (lkLease b2) = Some ''b''"
  using file_lock_two_holders [of pair_enc pair_dec "NewFile ''a'' ''lock''" "NewFile ''b'' ''lock''" "[''lock'' \<mapsto> ''10xy'']"
      "''10xy''" "\<lparr>leHolder = ''x'', leRest = ''y''\<rparr>", OF pair_codec]
  by (simp add: NewFile_def pair_dec_def)

end
