(* ===== verification/Router_Life.thy ===== *)
theory Router_Life
  imports Router_Start
begin

text \<open>
  The life of a router (router.go, leader.go): \<open>Start\<close>, the callbacks that the elector of client-go makes, and the
  end of the context, as steps. The elector calls \<open>OnStartedLeading\<close> at most once and in a goroutine of its own,
  \<open>OnNewLeader\<close> in goroutines, and \<open>OnStoppedLeading\<close> once, when its \<open>Run\<close> returns. Each callback holds the
  router's start lock, so it is one step.
\<close>

section \<open>Start\<close>

text \<open>\<open>hostname\<close> is \<open>os.Hostname()\<close>; \<open>run\<close> starts the elector. With an election nothing else happens before its callbacks.\<close>

definition Start_router ::
  "err + string \<Rightarrow> (ElectionConfig \<Rightarrow> err option) \<Rightarrow> ('w \<Rightarrow> err option \<times> 'w) \<Rightarrow> ElectionConfig option
     \<Rightarrow> 'w router_state \<Rightarrow> healthz_state \<Rightarrow> 'w \<Rightarrow> err option \<times> 'w router_state \<times> healthz_state \<times> 'w" where
  "Start_router hostname run hsStart ec r hz w =
     (case hostname of
        Inl err \<Rightarrow> (Some err, r, hz, w)
      | Inr self \<Rightarrow>
          let hz = snd (startHealthz hz);
              r = r\<lparr>rtHandlersOnError := rtOnError r\<rparr>
          in election_Run run (\<lambda>(r, hz, w). startHandlers hsStart r hz w) ec (r, hz, w))"

section \<open>The steps\<close>

datatype life_phase =
    NotStarted
  | Failed    \<comment> \<open>\<open>Start\<close> has returned an error\<close>
  | Alone     \<comment> \<open>started, without an election\<close>
  | Electing  \<comment> \<open>the elector runs\<close>
  | Ended     \<comment> \<open>the elector has returned after the end of the context\<close>
  | Crashed   \<comment> \<open>\<open>log.Fatalf\<close>, or a channel closed twice\<close>

text \<open>\<open>lfLed\<close>: the lease has been acquired; \<open>lfStarting\<close>: \<open>OnStartedLeading\<close> has been spawned and has not run.\<close>

record 'w router_life =
  lfRouter :: "'w router_state"
  lfHealthz :: healthz_state
  lfWorld :: 'w
  lfPhase :: life_phase
  lfLed :: bool
  lfStarting :: bool
  lfDone :: bool

inductive life_step ::
  "('w \<Rightarrow> err option \<times> 'w) \<Rightarrow> ('w \<Rightarrow> err option \<times> 'w) \<Rightarrow> string \<Rightarrow> ElectionConfig option
     \<Rightarrow> 'w router_life \<Rightarrow> 'w router_life \<Rightarrow> bool" for hsStart hsPreload self ec where
  life_start: "lfPhase s = NotStarted \<Longrightarrow>
     Start_router (Inr self) run hsStart ec (lfRouter s) (lfHealthz s) (lfWorld s) = (e, r, hz, w) \<Longrightarrow>
     life_step hsStart hsPreload self ec s (s\<lparr>lfRouter := r, lfHealthz := hz, lfWorld := w,
       lfPhase := (if e \<noteq> None then Failed else if ec = None then Alone else Electing)\<rparr>)"
| life_done: "life_step hsStart hsPreload self ec s (s\<lparr>lfDone := True\<rparr>)"
| life_acquire: "lfPhase s = Electing \<Longrightarrow> \<not> lfLed s \<Longrightarrow>
     life_step hsStart hsPreload self ec s (s\<lparr>lfLed := True, lfStarting := True\<rparr>)"
| life_lead: "lfStarting s \<Longrightarrow> lfPhase s \<noteq> Crashed \<Longrightarrow>
     startHandlers hsStart (lfRouter s) (lfHealthz s) (lfWorld s) = (e, r, hz, w) \<Longrightarrow>
     life_step hsStart hsPreload self ec s (s\<lparr>lfRouter := r, lfHealthz := hz, lfWorld := w, lfStarting := False,
       lfPhase := (if e \<noteq> None then Crashed else lfPhase s)\<rparr>)"
| life_switch: "lfPhase s \<in> {Electing, Ended} \<Longrightarrow>
     onNewLeader hsPreload self leader (lfRouter s) (lfHealthz s) (lfWorld s) = Some (hz, w) \<Longrightarrow>
     life_step hsStart hsPreload self ec s (s\<lparr>lfHealthz := hz, lfWorld := w\<rparr>)"
| life_switch_fatal: "lfPhase s \<in> {Electing, Ended} \<Longrightarrow>
     onNewLeader hsPreload self leader (lfRouter s) (lfHealthz s) (lfWorld s) = None \<Longrightarrow>
     life_step hsStart hsPreload self ec s (s\<lparr>lfPhase := Crashed\<rparr>)"
| life_stop: "lfPhase s = Electing \<Longrightarrow> OnStoppedLeading (lfDone s) = SignalDone \<Longrightarrow> Router_done (lfRouter s) = Some r \<Longrightarrow>
     life_step hsStart hsPreload self ec s (s\<lparr>lfRouter := r, lfPhase := Ended\<rparr>)"
| life_stop_panic: "lfPhase s = Electing \<Longrightarrow> OnStoppedLeading (lfDone s) = SignalDone \<Longrightarrow> Router_done (lfRouter s) = None \<Longrightarrow>
     life_step hsStart hsPreload self ec s (s\<lparr>lfPhase := Crashed\<rparr>)"
| life_lost: "lfPhase s = Electing \<Longrightarrow> OnStoppedLeading (lfDone s) = Fatal \<Longrightarrow>
     life_step hsStart hsPreload self ec s (s\<lparr>lfPhase := Crashed\<rparr>)"

definition life_init :: "'w router_state \<Rightarrow> healthz_state \<Rightarrow> 'w \<Rightarrow> 'w router_life" where
  "life_init r hz w = \<lparr>lfRouter = r, lfHealthz = hz, lfWorld = w, lfPhase = NotStarted, lfLed = False,
     lfStarting = False, lfDone = False\<rparr>"

section \<open>The stopped channel\<close>

definition life_inv :: "ElectionConfig option \<Rightarrow> 'w router_life \<Rightarrow> bool" where
  "life_inv ec s \<longleftrightarrow>
     (lfPhase s \<noteq> Crashed \<longrightarrow> rtStopped (lfRouter s) = (if lfPhase s = Ended then ClosedChan else OpenChan)) \<and>
     (lfPhase s = Ended \<longrightarrow> lfDone s) \<and> (ec = None \<longrightarrow> lfPhase s \<in> {NotStarted, Failed, Alone} \<and> \<not> lfStarting s) \<and>
     (lfPhase s = Electing \<longrightarrow> ec \<noteq> None) \<and> (lfStarting s \<longrightarrow> lfPhase s \<in> {Electing, Ended, Crashed})"

lemma startHandlers_stopped:
  "startHandlers hsStart r hz w = (e, r', hz', w') \<Longrightarrow> rtStopped r \<noteq> NilChan \<Longrightarrow> r' = r"
  by (auto simp: startHandlers_def Let_def split: option.splits prod.splits if_splits)

lemma Start_router_stopped:
  "Start_router host run hsStart ec r hz w = (e, r', hz', w') \<Longrightarrow> rtStopped r \<noteq> NilChan \<Longrightarrow> rtStopped r' = rtStopped r"
  by (auto simp: Start_router_def Let_def election_Run_def dest!: startHandlers_stopped
      split: sum.splits option.splits if_splits)

lemma life_inv_step: "life_step hsStart hsPreload self ec s s' \<Longrightarrow> life_inv ec s \<Longrightarrow> life_inv ec s'"
proof (induction rule: life_step.induct)
  case (life_start s run e r hz w)
  then have "rtStopped (lfRouter s) = OpenChan" by (simp add: life_inv_def)
  with Start_router_stopped [OF life_start(2)] life_start show ?case by (auto simp: life_inv_def)
next
  case (life_lead s e r hz w)
  then have "rtStopped (lfRouter s) \<noteq> NilChan" by (auto simp: life_inv_def split: if_splits)
  with startHandlers_stopped [OF life_lead(3)] life_lead show ?case by (auto simp: life_inv_def)
qed (auto simp: life_inv_def Router_done_def OnStoppedLeading_def split: if_splits)

lemma life_reachable:
  assumes "(life_step hsStart hsPreload self ec)\<^sup>*\<^sup>* (life_init r hz w) s" and "rtStopped r = OpenChan"
  shows "life_inv ec s"
  using assms(1)
proof (induction rule: rtranclp_induct)
  case base
  show ?case using assms(2) by (simp add: life_inv_def life_init_def)
next
  case (step s s')
  then show ?case using life_inv_step by blast
qed

text \<open>C26: when the channel of \<open>Stopped\<close> is closed: in every state that a new router can get to, whatever order the
  elector's callbacks, the election and the end of the context come in, the channel is closed exactly if the elector
  has returned after the end of the context, it is never closed twice, and without an election it is never closed, also
  when the context has ended long ago.\<close>

theorem stopped_only_by_elector:
  assumes "(life_step hsStart hsPreload self ec)\<^sup>*\<^sup>* (life_init r hz w) s" and "rtStopped r = OpenChan"
    and "lfPhase s \<noteq> Crashed"
  shows "(Router_Stopped (lfRouter s) \<longleftrightarrow> lfPhase s = Ended) \<and> (lfPhase s = Ended \<longrightarrow> lfDone s) \<and>
    (lfPhase s = Electing \<longrightarrow> Router_done (lfRouter s) \<noteq> None) \<and>
    (ec = None \<longrightarrow> \<not> Router_Stopped (lfRouter s))"
  using life_reachable [OF assms(1,2)] assms(3)
  by (auto simp: life_inv_def Router_Stopped_def Router_done_def split: if_splits)

theorem stopped_only_by_elector_witness:
  "\<exists>s. (life_step (\<lambda>w. (None, w)) (\<lambda>w. (None, w)) ''host'' None)\<^sup>*\<^sup>* (life_init Router_New healthz_init (0::nat)) s \<and>
     lfPhase s = Alone \<and> lfDone s \<and> \<not> Router_Stopped (lfRouter s)"
proof -
  let ?R = "life_step (\<lambda>w. (None, w)) (\<lambda>w. (None, w)) ''host'' None" and ?s = "life_init Router_New healthz_init (0::nat)"
  obtain e r hz w where st: "Start_router (Inr ''host'') (\<lambda>_. None) (\<lambda>w. (None, w)) None (lfRouter ?s) (lfHealthz ?s) (lfWorld ?s) = (e, r, hz, w)"
    by (metis prod_cases4)
  then have e: "e = None" by (auto simp: Start_router_def Let_def election_Run_def startHandlers_def split: if_splits)
  let ?s1 = "?s\<lparr>lfRouter := r, lfHealthz := hz, lfWorld := w, lfPhase := Alone\<rparr>" and
    ?s2 = "?s\<lparr>lfRouter := r, lfHealthz := hz, lfWorld := w, lfPhase := Alone, lfDone := True\<rparr>"
  have "?R ?s ?s1" using life_start [of ?s "''host''" "\<lambda>_. None" "\<lambda>w. (None, w)" None e r hz w] st e
    by (simp add: life_init_def)
  moreover have "?R ?s1 ?s2" using life_done [of "\<lambda>w. (None, w)" "\<lambda>w. (None, w)" "''host''" None ?s1] by simp
  ultimately have run: "?R\<^sup>*\<^sup>* ?s ?s2" by (blast intro: converse_rtranclp_into_rtranclp)
  moreover have "\<not> Router_Stopped (lfRouter ?s2)"
    using stopped_only_by_elector [OF run] by (simp add: Router_New_def)
  ultimately show ?thesis by (intro exI [of _ ?s2]) simp
qed

end
