(* ===== verification/Conditions.thy ===== *)
theory Conditions
  imports Kube_Object Error_Lists
begin

text \<open>
  pkg/conditions/setter.go: the middleware that turns terminal and not-found errors of a handler into the
  condition \<open>Controller\<close> of the object. The state has what the handlers of one pass share: the object's conditions
  (\<open>None\<close> for an object that has none to set) and the two attributes of the response. \<open>findCond\<close> and \<open>setCond\<close>
  are the library's \<open>FindStatusCondition\<close> and \<open>SetStatusCondition\<close>.
\<close>

section \<open>The middleware\<close>

record condition =
  cType :: string
  cStatus :: string
  cObservedGeneration :: int
  cReason :: string
  cMessage :: string
  cLastTransitionTime :: "int option"

record 'w cstate =
  csConditions :: "condition list option"
  csGeneration :: int
  csExisting :: "condition option"
  csErrored :: bool
  csWorld :: 'w

record cond_lib =
  findCond :: "condition list \<Rightarrow> string \<Rightarrow> condition option"
  setCond :: "condition \<Rightarrow> condition list \<Rightarrow> condition list"

type_synonym 'w chandler = "'w cstate \<Rightarrow> err option \<times> 'w cstate"

text \<open>\<open>errors.As\<close> for a \<open>*ErrTerminal\<close>: the first in the chain.\<close>

fun first_terminal :: "err list \<Rightarrow> err option" where
  "first_terminal [] = None"
| "first_terminal (ErrTerminal e # es) = Some (ErrTerminal e)"
| "first_terminal (e # es) = first_terminal es"

definition as_terminal :: "err option \<Rightarrow> err option" where
  "as_terminal e = (case e of None \<Rightarrow> None | Some e \<Rightarrow> first_terminal (err_chain e))"

text \<open>
  \<open>reflect.TypeOf(e).Name()\<close>: pointers have no name, and \<open>*ErrTerminal\<close> and what \<open>fmt.Errorf\<close> makes are pointers; the argument \<open>other\<close>
  names the types of other packages.
\<close>

definition type_name :: "(err \<Rightarrow> string) \<Rightarrow> err \<Rightarrow> string" where
  "type_name other e =
     (case e of
        ErrTerminal e' \<Rightarrow> []
      | ErrorPrefix p e' \<Rightarrow> ''errorPrefix''
      | Wrap s e' \<Rightarrow> []
      | MErrors es \<Rightarrow> ''Errors''
      | _ \<Rightarrow> other e)"

definition NewErrTerminal :: "err \<Rightarrow> err" where
  "NewErrTerminal cause = ErrTerminal cause"

definition log_error :: "err option \<Rightarrow> err option" where
  "log_error err = (if as_terminal err \<noteq> None then as_terminal err else if IsNotFound err then err else None)"

text \<open>\<open>SetStatusCondition\<close> of what was there before the pass, if anything was, and then of the new condition.\<close>

definition set_over :: "cond_lib \<Rightarrow> condition option \<Rightarrow> condition \<Rightarrow> condition list \<Rightarrow> condition list" where
  "set_over L existing c cs = setCond L c (case existing of None \<Rightarrow> cs | Some e \<Rightarrow> setCond L e cs)"

definition ErrorMiddleware :: "cond_lib \<Rightarrow> (err \<Rightarrow> string) \<Rightarrow> 'w chandler \<Rightarrow> 'w chandler" where
  "ErrorMiddleware L other h st =
     (if csConditions st = None then h st
      else
        (case h st of
           (err, st) \<Rightarrow>
             let logErr = log_error err;
                 cs = the (csConditions st);
                 existing = (if csExisting st \<noteq> None then csExisting st else findCond L cs ''Controller'');
                 st = st\<lparr>csExisting := existing\<rparr> in
             if csErrored st then (if logErr \<noteq> None then None else err, st)
             else
               (case logErr of
                  Some e \<Rightarrow>
                    (None, st\<lparr>csConditions := Some (set_over L existing
                       \<lparr>cType = ''Controller'', cStatus = ''False'', cObservedGeneration = csGeneration st,
                        cReason = type_name other e, cMessage = err_text e, cLastTransitionTime = None\<rparr> cs),
                       csErrored := True\<rparr>)
                | None \<Rightarrow>
                    if err = None then
                      (None, st\<lparr>csConditions := Some (set_over L existing
                         \<lparr>cType = ''Controller'', cStatus = ''True'', cObservedGeneration = csGeneration st,
                          cReason = [], cMessage = [], cLastTransitionTime = None\<rparr> cs)\<rparr>)
                    else (err, st))))"

section \<open>A pass of handlers\<close>

text \<open>The handlers of an object, each behind the middleware, one after the other.\<close>

fun run_pass :: "cond_lib \<Rightarrow> (err \<Rightarrow> string) \<Rightarrow> 'w chandler list \<Rightarrow> 'w cstate \<Rightarrow> err option list \<times> 'w cstate" where
  "run_pass L other [] st = ([], st)"
| "run_pass L other (h # hs) st =
     (case ErrorMiddleware L other h st of
        (e, st) \<Rightarrow> (case run_pass L other hs st of (es, st) \<Rightarrow> (e # es, st)))"

text \<open>Laws of the library: what is set is found, but for its time, and nothing else changes.\<close>

definition same_condition :: "condition \<Rightarrow> condition \<Rightarrow> bool" where
  "same_condition c c' \<longleftrightarrow> c\<lparr>cLastTransitionTime := None\<rparr> = c'\<lparr>cLastTransitionTime := None\<rparr>"

definition cond_laws :: "cond_lib \<Rightarrow> bool" where
  "cond_laws L \<longleftrightarrow>
     (\<forall>c cs. \<exists>c'. findCond L (setCond L c cs) (cType c) = Some c' \<and> same_condition c c') \<and>
     (\<forall>c cs t. t \<noteq> cType c \<longrightarrow> findCond L (setCond L c cs) t = findCond L cs t)"

definition controller :: "cond_lib \<Rightarrow> 'w cstate \<Rightarrow> condition option" where
  "controller L st = (case csConditions st of None \<Rightarrow> None | Some cs \<Rightarrow> findCond L cs ''Controller'')"

text \<open>A handler that leaves the condition of the middleware and its attributes to the middleware.\<close>

definition leaves_alone :: "cond_lib \<Rightarrow> 'w chandler \<Rightarrow> bool" where
  "leaves_alone L h \<longleftrightarrow> (\<forall>st e st'. h st = (e, st') \<longrightarrow>
     controller L st' = controller L st \<and> (csConditions st' = None \<longleftrightarrow> csConditions st = None) \<and>
     csExisting st' = csExisting st \<and> csErrored st' = csErrored st)"

definition shows_error :: "cond_lib \<Rightarrow> err \<Rightarrow> 'w cstate \<Rightarrow> bool" where
  "shows_error L e st \<longleftrightarrow> csErrored st \<and> csConditions st \<noteq> None \<and>
     (\<exists>c. controller L st = Some c \<and> cStatus c = ''False'' \<and> cMessage c = err_text e)"

lemma same_conditionD: "same_condition c c' \<Longrightarrow> cStatus c' = cStatus c \<and> cMessage c' = cMessage c"
  by (cases c; cases c') (simp add: same_condition_def)

lemma middleware_shows_error:
  assumes "cond_laws L" and "leaves_alone L h" and "csConditions st \<noteq> None" and "\<not> csErrored st"
    and "h st = (err, st1)" and "log_error err = Some e" and "ErrorMiddleware L other h st = (r, st')"
  shows "r = None \<and> shows_error L e st'"
proof -
  obtain cs where cs: "csConditions st1 = Some cs" and na: "\<not> csErrored st1"
    using assms(2,3,4,5) unfolding leaves_alone_def by fastforce
  define ex where "ex = (if csExisting st1 \<noteq> None then csExisting st1 else findCond L cs ''Controller'')"
  define c where "c = \<lparr>cType = ''Controller'', cStatus = ''False'', cObservedGeneration = csGeneration st1,
    cReason = type_name other e, cMessage = err_text e, cLastTransitionTime = None\<rparr>"
  have st': "r = None" "st' = st1\<lparr>csExisting := ex, csConditions := Some (set_over L ex c cs), csErrored := True\<rparr>"
    using assms(3,5,6,7) cs na by (auto simp: ErrorMiddleware_def Let_def ex_def c_def)
  obtain c' where "findCond L (set_over L ex c cs) (cType c) = Some c'" and "same_condition c c'"
    using assms(1) unfolding cond_laws_def set_over_def by blast
  with same_conditionD [of c c'] show ?thesis
    by (simp add: st' shows_error_def controller_def c_def)
qed

lemma middleware_keeps_error:
  assumes "leaves_alone L h" and "shows_error L e st" and "ErrorMiddleware L other h st = (r, st')"
  shows "shows_error L e st'"
proof -
  obtain err st1 where h: "h st = (err, st1)" by fastforce
  with assms(1,2) have "shows_error L e st1" unfolding leaves_alone_def shows_error_def by metis
  moreover have "csConditions st' = csConditions st1 \<and> csErrored st' = csErrored st1"
    using assms(2,3) h calculation
    by (auto simp: ErrorMiddleware_def shows_error_def Let_def split: if_splits)
  ultimately show ?thesis by (simp add: shows_error_def controller_def)
qed

lemma run_pass_append:
  "run_pass L other (xs @ ys) st =
     (case run_pass L other xs st of (es, st) \<Rightarrow> (case run_pass L other ys st of (es', st) \<Rightarrow> (es @ es', st)))"
  by (induction xs arbitrary: st) (auto split: prod.split)

lemma run_pass_keeps_error:
  assumes "\<forall>h \<in> set hs. leaves_alone L h" and "shows_error L e st" and "run_pass L other hs st = (es, st')"
  shows "shows_error L e st'"
  using assms
proof (induction hs arbitrary: st es)
  case (Cons h hs)
  then show ?case by (auto split: prod.splits dest: middleware_keeps_error)
qed simp

text \<open>
  The first terminal or not-found error of a pass decides the condition: once a handler failed so, the object shows
  \<open>Controller=False\<close> with the text of that error at the end of the pass, whatever the later handlers return, succeed or fail.
\<close>

theorem first_error_stays:
  assumes "cond_laws L" and "\<forall>h' \<in> set (h # hs2). leaves_alone L h'"
    and "run_pass L other hs1 st = (es1, st1)" and "csConditions st1 \<noteq> None" and "\<not> csErrored st1"
    and "h st1 = (err, st2)" and "log_error err = Some e"
    and "run_pass L other (hs1 @ h # hs2) st = (es, st')"
  shows "csErrored st' \<and> (\<exists>c. controller L st' = Some c \<and> cStatus c = ''False'' \<and> cMessage c = err_text e)"
proof -
  obtain r st3 where m: "ErrorMiddleware L other h st1 = (r, st3)" by fastforce
  have h: "leaves_alone L h" using assms(2) by simp
  have e3: "shows_error L e st3"
    using middleware_shows_error [OF assms(1) h assms(4,5,6,7) m] ..
  obtain es2 st4 where p: "run_pass L other hs2 st3 = (es2, st4)" by fastforce
  have hs2: "\<forall>h' \<in> set hs2. leaves_alone L h'" using assms(2) by simp
  have "st4 = st'" using assms(3,8) m p by (simp add: run_pass_append)
  with run_pass_keeps_error [OF hs2 e3 p] have "shows_error L e st'" by simp
  then show ?thesis by (simp add: shows_error_def)
qed

text \<open>A library of conditions: a list in which setting replaces the condition of that type.\<close>

definition list_conditions :: cond_lib where
  "list_conditions = \<lparr>findCond = (\<lambda>cs t. find (\<lambda>c. cType c = t) cs),
     setCond = (\<lambda>c cs. c # filter (\<lambda>c'. cType c' \<noteq> cType c) cs)\<rparr>"

lemma find_filter_other: "\<forall>x. P x \<longrightarrow> Q x \<Longrightarrow> find P (filter Q xs) = find P xs"
  by (induction xs) auto

lemma list_conditions_laws: "cond_laws list_conditions"
proof -
  have "findCond list_conditions (setCond list_conditions c cs) (cType c) = Some c" for c cs
    by (simp add: list_conditions_def)
  moreover have "findCond list_conditions (setCond list_conditions c cs) t = findCond list_conditions cs t"
    if "t \<noteq> cType c" for c cs t
    using that find_filter_other [of "\<lambda>c. cType c = t" "\<lambda>c'. cType c' \<noteq> cType c" cs]
    by (simp add: list_conditions_def)
  ultimately show ?thesis unfolding cond_laws_def by (simp add: same_condition_def)
qed

definition failing :: "err option \<Rightarrow> 'w chandler" where
  "failing e st = (e, st)"

lemma failing_leaves_alone: "leaves_alone L (failing e)"
  by (simp add: leaves_alone_def failing_def)

theorem first_error_stays_witness:
  "\<exists>es st' c. run_pass list_conditions (\<lambda>e. []) [failing None, failing (Some (ErrTerminal (Err ''bad input''))), failing None]
      \<lparr>csConditions = Some [], csGeneration = 1, csExisting = None, csErrored = False, csWorld = ()\<rparr> = (es, st') \<and>
    controller list_conditions st' = Some c \<and> cStatus c = ''False'' \<and> cMessage c = ''bad input''"
proof -
  let ?st = "\<lparr>csConditions = Some [], csGeneration = 1, csExisting = None, csErrored = False, csWorld = ()\<rparr>"
  let ?e = "ErrTerminal (Err ''bad input'')"
  obtain es st' where r: "run_pass list_conditions (\<lambda>e. []) ([failing None] @ failing (Some ?e) # [failing None]) ?st = (es, st')"
    by fastforce
  obtain es1 st1 where 1: "run_pass list_conditions (\<lambda>e. []) [failing None] ?st = (es1, st1)"
    and 2: "csConditions st1 \<noteq> None" "\<not> csErrored st1"
    by (simp add: ErrorMiddleware_def failing_def log_error_def as_terminal_def Let_def)
  have l: "log_error (Some ?e) = Some ?e" by (simp add: log_error_def as_terminal_def)
  have f: "failing (Some ?e) st1 = (Some ?e, st1)" by (simp add: failing_def)
  have "\<forall>h' \<in> set (failing (Some ?e) # [failing None]). leaves_alone list_conditions h'"
    by (simp add: failing_leaves_alone)
  from first_error_stays [OF list_conditions_laws this 1 2 f l r] r show ?thesis by auto
qed

text \<open>The reason that is written for a terminal error is empty, for every error: \<open>*ErrTerminal\<close> is a pointer.\<close>

lemma terminal_reason_empty:
  "as_terminal err = Some e \<Longrightarrow> type_name other e = []"
proof -
  have "first_terminal es = Some e \<Longrightarrow> \<exists>c. e = ErrTerminal c" for es
    by (induction es rule: first_terminal.induct) auto
  moreover assume "as_terminal err = Some e"
  ultimately obtain c where "e = ErrTerminal c" by (auto simp: as_terminal_def split: option.splits)
  then show ?thesis by (simp add: type_name_def)
qed

end
