(* ===== verification/Work_Queue.thy ===== *)
theory Work_Queue
  imports Router_Client
begin

text \<open>
  pkg/runtime/controller.go, transaction.go and errorcontroller.go: keys on their way from the informer and the
  callers of \<open>Enqueue\<close> through the work queues to the handler. The queues are library objects: a queue is the
  list of the calls made on it. \<open>metaKey\<close> is the library's \<open>MetaNamespaceKeyFunc\<close>.
\<close>

section \<open>Queues and their splitter\<close>

datatype queue_call =
    QAdd string
  | QAddAfter string int
  | QAddRateLimited string
  | QForget string
  | QDone string

text \<open>\<open>WorkerQueueSplitter\<close>: its queues, and a queue for each key.\<close>

record splitter =
  spQueues :: nat
  spSplit :: "string \<Rightarrow> nat"

definition singleWorkerQueueSplitter :: splitter where
  "singleWorkerQueueSplitter = \<lparr>spQueues = 1, spSplit = (\<lambda>_. 0)\<rparr>"

record startKey =
  skKey :: string
  skAfter :: int

record controller =
  startKeys :: "startKey list"
  workqueues :: "queue_call list list option"
  qsplitter :: splitter

definition newObject :: "new_result \<Rightarrow> err + string" where
  "newObject answer =
     (case answer of
        NewOk goType \<Rightarrow> Inr goType
      | NotRegistered \<Rightarrow> Inr unstructuredType
      | NewErr err \<Rightarrow> Inl err)"

text \<open>The controller \<open>New\<close> returns; a nil splitter becomes the default one (\<open>applyDefaultOptions\<close>). The
  fields \<open>Start\<close> uses are in the record \<open>life\<close> below.\<close>

definition new_controller :: "splitter option \<Rightarrow> controller" where
  "new_controller sp =
     \<lparr>startKeys = [], workqueues = None,
      qsplitter = (case sp of None \<Rightarrow> singleWorkerQueueSplitter | Some s \<Rightarrow> s)\<rparr>"

record 'r Options =
  RateLimiter :: "'r option"
  QueueSplitter :: "splitter option"

text \<open>\<open>deflt\<close> is the limiter of client-go that is made by default (fast then slow, and exponential).\<close>

definition applyDefaultOptions :: "'r \<Rightarrow> 'r Options option \<Rightarrow> 'r Options" where
  "applyDefaultOptions deflt opts =
     (let newOpts = (case opts of None \<Rightarrow> \<lparr>RateLimiter = None, QueueSplitter = None\<rparr> | Some o' \<Rightarrow> o');
          newOpts = (if RateLimiter newOpts = None then newOpts\<lparr>RateLimiter := Some deflt\<rparr> else newOpts)
      in if QueueSplitter newOpts = None then newOpts\<lparr>QueueSplitter := Some singleWorkerQueueSplitter\<rparr> else newOpts)"

lemma applyDefaultOptions_splitter:
  "qsplitter (new_controller (Option.bind opts QueueSplitter)) = the (QueueSplitter (applyDefaultOptions deflt opts))"
  by (cases opts) (auto simp: applyDefaultOptions_def new_controller_def Let_def split: option.splits)

text \<open>Answers of the scheme and of \<open>GetInformerForKind\<close>.\<close>

definition controller_New :: "new_result \<Rightarrow> err option \<Rightarrow> splitter option \<Rightarrow> err + controller" where
  "controller_New answer informerErr sp =
     (case newObject answer of
        Inl err \<Rightarrow> Inl err
      | Inr obj \<Rightarrow>
          (case informerErr of
             Some err \<Rightarrow> Inl err
           | None \<Rightarrow> Inr (new_controller sp)))"

definition push :: "splitter \<Rightarrow> string \<Rightarrow> queue_call \<Rightarrow> queue_call list list \<Rightarrow> queue_call list list" where
  "push sp key call qs = qs[spSplit sp key := qs ! spSplit sp key @ [call]]"

definition EnqueueKeyAfter :: "string \<Rightarrow> int \<Rightarrow> controller \<Rightarrow> controller" where
  "EnqueueKeyAfter key after c =
     (case workqueues c of
        None \<Rightarrow> c\<lparr>startKeys := startKeys c @ [\<lparr>skKey = key, skAfter = after\<rparr>]\<rparr>
      | Some qs \<Rightarrow> c\<lparr>workqueues := Some (push (qsplitter c) key (QAddAfter key after) qs)\<rparr>)"

definition EnqueueKey :: "string \<Rightarrow> controller \<Rightarrow> controller" where
  "EnqueueKey key c = EnqueueKeyAfter key 0 c"

definition EnqueueAfter :: "string \<Rightarrow> string \<Rightarrow> int \<Rightarrow> controller \<Rightarrow> controller" where
  "EnqueueAfter namespace name duration c =
     (let key = keyFunc namespace name in
      case workqueues c of
        None \<Rightarrow> c\<lparr>startKeys := startKeys c @ [\<lparr>skKey = key, skAfter = duration\<rparr>]\<rparr>
      | Some qs \<Rightarrow> c\<lparr>workqueues := Some (push (qsplitter c) key (QAddAfter key duration) qs)\<rparr>)"

definition Enqueue :: "string \<Rightarrow> string \<Rightarrow> controller \<Rightarrow> controller" where
  "Enqueue namespace name c = EnqueueAfter namespace name 0 c"

definition enqueue :: "(kobj \<Rightarrow> err + string) \<Rightarrow> kobj \<Rightarrow> controller \<Rightarrow> controller" where
  "enqueue metaKey obj c =
     (case metaKey obj of
        Inl err \<Rightarrow> c
      | Inr key \<Rightarrow>
          (case workqueues c of
             None \<Rightarrow> c\<lparr>startKeys := startKeys c @ [\<lparr>skKey = key, skAfter = 0\<rparr>]\<rparr>
           | Some qs \<Rightarrow> c\<lparr>workqueues := Some (push (qsplitter c) key (QAdd key) qs)\<rparr>))"

text \<open>What the informer hands to \<open>handleObject\<close>: an object, a tombstone with or without one, something else.\<close>

datatype informer_event = EvObject kobj | EvTombstone "kobj option" | EvOther

definition handleObject :: "(kobj \<Rightarrow> err + string) \<Rightarrow> informer_event \<Rightarrow> controller \<Rightarrow> controller" where
  "handleObject metaKey ev c =
     (case ev of
        EvObject obj \<Rightarrow> enqueue metaKey obj c
      | EvTombstone None \<Rightarrow> c
      | EvTombstone (Some obj) \<Rightarrow> enqueue metaKey obj c
      | EvOther \<Rightarrow> c)"

text \<open>The locked part of \<open>run\<close>: the queues are made and the keys that came before are put into them.\<close>

definition start_call :: "startKey \<Rightarrow> queue_call" where
  "start_call start = (if skAfter start = 0 then QAdd (skKey start) else QAddAfter (skKey start) (skAfter start))"

definition run_start :: "controller \<Rightarrow> controller" where
  "run_start c =
     (let qs = replicate (spQueues (qsplitter c)) [] in
      c\<lparr>workqueues := Some (fold (\<lambda>start qs. push (qsplitter c) (skKey start) (start_call start) qs)
                             (startKeys c) qs),
        startKeys := []\<rparr>)"

definition workers_per_queue :: "nat \<Rightarrow> controller \<Rightarrow> nat" where
  "workers_per_queue workers c =
     (let n = workers div spQueues (qsplitter c) in if n = 0 then 1 else n)"

section \<open>Processing\<close>

text \<open>\<open>onChange\<close> is the handler's \<open>OnChange\<close> on its state.\<close>

definition syncHandler ::
  "('w \<Rightarrow> ObjectKey \<Rightarrow> err + kobj) \<Rightarrow> (string \<Rightarrow> kobj option \<Rightarrow> 'w \<Rightarrow> err option \<times> 'w) \<Rightarrow> string \<Rightarrow> 'w
     \<Rightarrow> err option \<times> 'w" where
  "syncHandler cacheGet onChange key w =
     (if isSpecialKey key then onChange key None w
      else
        (case KeyParse key of
           (ns, name) \<Rightarrow>
             (case cacheGet w (mk_key ns name) of
                Inl err \<Rightarrow> if IsNotFound (Some err) then onChange key None w else (Some err, w)
              | Inr obj \<Rightarrow> onChange key (Some obj) w)))"

text \<open>An item of a queue is a string, or something that was put there by mistake (\<open>None\<close>). Result: the calls on the queue.\<close>

definition processSingleItem ::
  "('w \<Rightarrow> ObjectKey \<Rightarrow> err + kobj) \<Rightarrow> (string \<Rightarrow> kobj option \<Rightarrow> 'w \<Rightarrow> err option \<times> 'w) \<Rightarrow> string option \<Rightarrow> 'w
     \<Rightarrow> err option \<times> queue_call list \<times> 'w" where
  "processSingleItem cacheGet onChange obj w =
     (case obj of
        None \<Rightarrow> (None, [QForget [], QDone []], w)
      | Some key \<Rightarrow>
          (case syncHandler cacheGet onChange key w of
             (Some err, w) \<Rightarrow>
               (Some (Err (''error syncing '' @ key @ '': '' @ err_text err @ '', requeuing'')),
                [QAddRateLimited key, QDone key], w)
           | (None, w) \<Rightarrow> (None, [QForget key, QDone key], w)))"

section \<open>Nothing enqueued is lost\<close>

text \<open>The contract of a splitter: there is a queue, and every key has one.\<close>

locale queue_splitter =
  fixes sp :: splitter
  assumes has_queues: "0 < spQueues sp"
    and in_range: "spSplit sp key < spQueues sp"
begin

lemma push_length [simp]: "length (push sp key call qs) = length qs"
  by (simp add: push_def)

lemma push_nth:
  "length qs = spQueues sp \<Longrightarrow> i < spQueues sp \<Longrightarrow>
     push sp key call qs ! i = (if i = spSplit sp key then qs ! i @ [call] else qs ! i)"
  using in_range by (auto simp: push_def nth_list_update)

text \<open>Pushing a list of keyed calls appends to each queue the calls whose key belongs to it, in order.\<close>

lemma push_all_nth:
  "length qs = spQueues sp \<Longrightarrow> i < spQueues sp \<Longrightarrow>
     fold (\<lambda>(key, call) qs. push sp key call qs) kcs qs ! i =
       qs ! i @ map snd (filter (\<lambda>(key, call). spSplit sp key = i) kcs)"
proof (induction kcs arbitrary: qs)
  case Nil
  then show ?case by simp
next
  case (Cons kc kcs)
  obtain key call where kc: "kc = (key, call)" by fastforce
  with Cons.IH [of "push sp key call qs"] Cons.prems show ?case by (auto simp: push_nth)
qed

lemma push_all_length: "length (fold (\<lambda>(key, call) qs. push sp key call qs) kcs qs) = length qs"
  by (induction kcs arbitrary: qs) auto

end

interpretation single_splitter: queue_splitter singleWorkerQueueSplitter
  by unfold_locales (simp_all add: singleWorkerQueueSplitter_def)

definition splitter_ok :: "splitter \<Rightarrow> bool" where
  "splitter_ok sp \<longleftrightarrow> queue_splitter sp"

lemma push_all_queue:
  assumes "splitter_ok sp" and "length qs = spQueues sp" and "i < spQueues sp"
  shows "fold (\<lambda>(key, call) qs. push sp key call qs) kcs qs ! i =
    qs ! i @ map snd (filter (\<lambda>(key, call). spSplit sp key = i) kcs)"
  using queue_splitter.push_all_nth [OF assms(1) [unfolded splitter_ok_def] assms(2,3)] .

lemma push_all_queues:
  "splitter_ok sp \<Longrightarrow> length (fold (\<lambda>(key, call) qs. push sp key call qs) kcs qs) = length qs"
  by (simp add: splitter_ok_def queue_splitter.push_all_length)

text \<open>A caller's request, as \<open>EnqueueKeyAfter\<close> takes it.\<close>

definition enqueue_all :: "(string \<times> int) list \<Rightarrow> controller \<Rightarrow> controller" where
  "enqueue_all kds c = fold (\<lambda>(key, d) c. EnqueueKeyAfter key d c) kds c"

lemma enqueue_all_before:
  "workqueues c = None \<Longrightarrow> enqueue_all kds c =
     c\<lparr>startKeys := startKeys c @ map (\<lambda>(key, d). \<lparr>skKey = key, skAfter = d\<rparr>) kds\<rparr>"
  by (induction kds arbitrary: c) (auto simp: enqueue_all_def EnqueueKeyAfter_def)

lemma enqueue_all_after:
  "workqueues c = Some qs \<Longrightarrow> enqueue_all kds c =
     c\<lparr>workqueues := Some (fold (\<lambda>(key, call) qs. push (qsplitter c) key call qs)
        (map (\<lambda>(key, d). (key, QAddAfter key d)) kds) qs)\<rparr>"
  by (induction kds arbitrary: c qs) (auto simp: enqueue_all_def EnqueueKeyAfter_def)

lemma run_start_waiting:
  "run_start c = c\<lparr>workqueues := Some (fold (\<lambda>(key, call) qs. push (qsplitter c) key call qs)
      (map (\<lambda>start. (skKey start, start_call start)) (startKeys c)) (replicate (spQueues (qsplitter c)) [])),
    startKeys := []\<rparr>"
  by (simp add: run_start_def Let_def fold_map comp_def)

lemma map_snd_filter:
  "map snd (filter (\<lambda>(key, call). f key = i) (map (\<lambda>(key, d). (key, g key d)) kds)) =
     [g key d. (key, d) \<leftarrow> kds, f key = i]"
  by (induction kds) auto

text \<open>C20: every key that is enqueued reaches its queue exactly once and in order, whether it comes before the
  controller runs (then it waits) or after: with a splitter that gives each key a queue, queue \<open>i\<close> gets the
  calls for the keys that belong to it, the early ones first, and none is left waiting.\<close>

theorem enqueued_once_in_order:
  assumes "splitter_ok (qsplitter c)" and "workqueues c = None" and "startKeys c = []"
    and "i < spQueues (qsplitter c)"
  shows "\<exists>qs. workqueues (enqueue_all late (run_start (enqueue_all early c))) = Some qs \<and>
    length qs = spQueues (qsplitter c) \<and>
    qs ! i = [if d = 0 then QAdd key else QAddAfter key d. (key, d) \<leftarrow> early, spSplit (qsplitter c) key = i] @
             [QAddAfter key d. (key, d) \<leftarrow> late, spSplit (qsplitter c) key = i] \<and>
    startKeys (enqueue_all late (run_start (enqueue_all early c))) = []"
proof -
  let ?early = "map (\<lambda>(key, d). (key, if d = 0 then QAdd key else QAddAfter key d)) early"
  let ?late = "map (\<lambda>(key, d). (key, QAddAfter key d)) late"
  let ?fill = "fold (\<lambda>(key, call) qs. push (qsplitter c) key call qs)"
  let ?qs = "?fill ?early (replicate (spQueues (qsplitter c)) [])"
  have calls: "map (\<lambda>start. (skKey start, start_call start)) (map (\<lambda>(key, d). \<lparr>skKey = key, skAfter = d\<rparr>) early) = ?early"
    by (simp add: start_call_def split_def comp_def)
  have started: "run_start (enqueue_all early c) = c\<lparr>workqueues := Some ?qs, startKeys := []\<rparr>"
    unfolding run_start_waiting enqueue_all_before [OF assms(2)] by (simp add: assms(3) calls del: map_map)
  have len: "length ?qs = spQueues (qsplitter c)"
    using assms(1) by (simp add: push_all_queues)
  have queued: "workqueues (enqueue_all late (run_start (enqueue_all early c))) = Some (?fill ?late ?qs)"
    unfolding started by (subst enqueue_all_after [where qs = ?qs]) simp_all
  have empty: "startKeys (enqueue_all late (run_start (enqueue_all early c))) = []"
    unfolding started by (subst enqueue_all_after [where qs = ?qs]) simp_all
  have "?fill ?late ?qs ! i = ?qs ! i @ [QAddAfter key d. (key, d) \<leftarrow> late, spSplit (qsplitter c) key = i]"
    by (simp only: push_all_queue [OF assms(1) len assms(4)] map_snd_filter)
  moreover have "?qs ! i = [if d = 0 then QAdd key else QAddAfter key d. (key, d) \<leftarrow> early, spSplit (qsplitter c) key = i]"
    using assms(4) push_all_queue [OF assms(1) _ assms(4), of "replicate (spQueues (qsplitter c)) []" ?early]
    by (simp only: map_snd_filter length_replicate nth_replicate append_Nil simp_thms)
  ultimately show ?thesis
    using queued empty len push_all_queues [OF assms(1)] by simp
qed

theorem enqueued_once_in_order_witness:
  "\<exists>qs. workqueues (enqueue_all [(''b'', 0)] (run_start (enqueue_all [(''a'', 0), (''c'', 5)] (new_controller None)))) = Some qs \<and>
     length qs = 1 \<and> qs ! 0 = [QAdd ''a'', QAddAfter ''c'' 5, QAddAfter ''b'' 0]"
  using enqueued_once_in_order [of "new_controller None" 0 "[(''b'', 0)]" "[(''a'', 0), (''c'', 5)]"]
    single_splitter.queue_splitter_axioms
  by (auto simp: new_controller_def splitter_ok_def singleWorkerQueueSplitter_def)

section \<open>Items are retried until they succeed\<close>

lemma processSingleItem_calls:
  "processSingleItem cacheGet onChange (Some key) w =
     (let (e, w') = syncHandler cacheGet onChange key w in
      (map_option (\<lambda>e. Err (''error syncing '' @ key @ '': '' @ err_text e @ '', requeuing'')) e,
       [if e = None then QForget key else QAddRateLimited key, QDone key], w'))"
  by (auto simp: processSingleItem_def split: prod.splits option.splits)

text \<open>What the handler is called with for a plain key, or that it is not called.\<close>

definition handler_sees :: "('w \<Rightarrow> ObjectKey \<Rightarrow> err + kobj) \<Rightarrow> ObjectKey \<Rightarrow> 'w \<Rightarrow> err + kobj option" where
  "handler_sees cacheGet k w =
     (case cacheGet w k of
        Inr obj \<Rightarrow> Inr (Some obj)
      | Inl err \<Rightarrow> if IsNotFound (Some err) then Inr None else Inl err)"

text \<open>A worker that takes the key of namespace \<open>ns\<close> and name \<open>n\<close> calls the handler with the object the cache
  holds under exactly that namespace and name, with nil when the cache does not have it, and not at all when
  the read fails otherwise; the key goes back for a rate limited retry exactly when that failed, is
  forgotten otherwise, and is marked done in every case.\<close>

theorem processSingleItem_retries:
  assumes "plain_key ns n"
  shows "processSingleItem cacheGet onChange (Some (keyFunc ns n)) w =
    (case handler_sees cacheGet (mk_key ns n) w of
       Inl err \<Rightarrow>
         (Some (Err (''error syncing '' @ keyFunc ns n @ '': '' @ err_text err @ '', requeuing'')),
          [QAddRateLimited (keyFunc ns n), QDone (keyFunc ns n)], w)
     | Inr obj \<Rightarrow>
         (case onChange (keyFunc ns n) obj w of
            (Some err, w') \<Rightarrow>
              (Some (Err (''error syncing '' @ keyFunc ns n @ '': '' @ err_text err @ '', requeuing'')),
               [QAddRateLimited (keyFunc ns n), QDone (keyFunc ns n)], w')
          | (None, w') \<Rightarrow> (None, [QForget (keyFunc ns n), QDone (keyFunc ns n)], w')))"
  using isSpecialKey_plain [OF plain_keyFunc [OF assms]]
  by (simp add: processSingleItem_def syncHandler_def handler_sees_def KeyParse_keyFunc [OF assms]
      split: sum.split option.split prod.split)

theorem processSingleItem_retries_witness:
  "processSingleItem (\<lambda>w k. Inl (ApiErr NotFound ''gone'')) (\<lambda>key obj n. (Some (Err ''no''), n + 1)) (Some ''ns/a'') (0::nat) =
     (Some (Err ''error syncing ns/a: no, requeuing''), [QAddRateLimited ''ns/a'', QDone ''ns/a''], 1)"
  using processSingleItem_retries [of "''ns''" "''a''" "\<lambda>w k. Inl (ApiErr NotFound ''gone'')"
      "\<lambda>key obj n. (Some (Err ''no''), n + 1)" "0::nat"]
  by (simp add: plain_key_def no_slash_def keyFunc_def handler_sees_def)

section \<open>Starting\<close>

text \<open>The fields of the controller that \<open>Start\<close> and \<open>run\<close> use, and whether the informer still calls
  \<open>handleObject\<close> (\<open>lfAttached\<close>, a state of the library's informer). \<open>getInformer\<close> answers whether the informer
  is a \<open>SharedIndexInformer\<close>.\<close>

record life =
  lfStarted :: bool
  lfInformer :: bool
  lfRegistration :: bool
  lfAttached :: bool

definition new_life :: life where
  "new_life = \<lparr>lfStarted = False, lfInformer = True, lfRegistration = False, lfAttached = False\<rparr>"

definition need_informer :: "err + bool \<Rightarrow> life \<Rightarrow> err option \<times> life" where
  "need_informer getInformer c =
     (if lfInformer c then (None, c)
      else
        (case getInformer of
           Inl err \<Rightarrow> (Some err, c)
         | Inr ok \<Rightarrow>
             if ok then (None, c\<lparr>lfInformer := True\<rparr>)
             else (Some (Err ''expecting cache.SharedIndexInformer''), c)))"

definition need_registration :: "err option \<Rightarrow> life \<Rightarrow> err option \<times> life" where
  "need_registration addHandler c =
     (if lfRegistration c then (None, c)
      else
        (case addHandler of
           Some err \<Rightarrow> (Some err, c)
         | None \<Rightarrow> (None, c\<lparr>lfRegistration := True, lfAttached := True\<rparr>)))"

definition controller_Start :: "err + bool \<Rightarrow> err option \<Rightarrow> bool \<Rightarrow> life \<Rightarrow> err option \<times> life" where
  "controller_Start getInformer addHandler synced c =
     (if lfStarted c then (None, c)
      else
        (case need_informer getInformer c of
           (Some err, c) \<Rightarrow> (Some err, c)
         | (None, c) \<Rightarrow>
             (case need_registration addHandler c of
                (Some err, c) \<Rightarrow> (Some err, c)
              | (None, c) \<Rightarrow>
                  if \<not> synced then (Some (Err ''failed to wait for caches to sync''), c)
                  else (None, c\<lparr>lfStarted := True\<rparr>))))"

text \<open>The end of \<open>run\<close>, when its context is done: the workers are over and the informer drops the handler.\<close>

definition run_end :: "life \<Rightarrow> life" where
  "run_end c = c\<lparr>lfStarted := False, lfAttached := False\<rparr>"

lemma first_Start:
  "controller_Start getInformer None True new_life =
     (None, \<lparr>lfStarted = True, lfInformer = True, lfRegistration = True, lfAttached = True\<rparr>)"
  by (simp add: controller_Start_def new_life_def need_informer_def need_registration_def)

lemma Start_attached:
  assumes "controller_Start gi ah sy c = (e, c')" and "lfRegistration c \<longrightarrow> lfAttached c"
  shows "lfRegistration c' \<longrightarrow> lfAttached c'"
  using assms
  by (auto simp: controller_Start_def need_informer_def need_registration_def
      split: if_splits sum.splits option.splits)

definition starts_again :: "(err + bool) \<times> err option \<Rightarrow> life \<Rightarrow> life" where
  "starts_again answers c = snd (controller_Start (fst answers) (snd answers) True (run_end c))"

lemma starts_again_registered:
  "lfInformer c \<and> lfRegistration c \<Longrightarrow> starts_again answers c = c\<lparr>lfStarted := True, lfAttached := False\<rparr>"
  by (simp add: starts_again_def controller_Start_def run_end_def need_informer_def need_registration_def)

text \<open>A controller that is started again after its context ended reports success and counts as started, but
  from then on no event of the informer reaches its queues, however often it is started: \<open>run\<close>
  takes the handler off the informer and keeps \<open>registration\<close>, so that \<open>Start\<close> never puts
  the handler back.\<close>

theorem restart_hears_nothing:
  assumes "controller_Start gi ah True new_life = (None, c)" and "restarts \<noteq> []"
  shows "lfAttached c \<and> (let c' = fold starts_again restarts c in lfStarted c' \<and> \<not> lfAttached c')"
proof -
  have c: "lfInformer c \<and> lfRegistration c \<and> lfAttached c"
    using assms(1) by (auto simp: controller_Start_def new_life_def need_informer_def need_registration_def
        split: option.splits)
  have "lfInformer d \<and> lfRegistration d \<Longrightarrow> rs \<noteq> [] \<Longrightarrow>
      fold starts_again rs d = d\<lparr>lfStarted := True, lfAttached := False\<rparr>" for d rs
  proof (induction rs arbitrary: d)
    case Nil
    then show ?case by simp
  next
    case (Cons r rs)
    then show ?case by (cases rs) (simp_all add: starts_again_registered)
  qed
  with c assms(2) show ?thesis by (simp add: Let_def)
qed

theorem restart_hears_nothing_witness:
  "\<not> lfAttached (fold starts_again [(Inr True, None)] \<lparr>lfStarted = True, lfInformer = True, lfRegistration = True, lfAttached = True\<rparr>)"
  using restart_hears_nothing [OF first_Start, of "[(Inr True, None)]"] by (simp add: Let_def)

end
