(* ===== verification/Settings.thy ===== *)
theory Settings
  imports Router_Start Apply_Sets Work_Queue
begin

text \<open>
  How the parts are put together and the small helpers around them: src/router.go (options), pkg/runtime/clients.go,
  pkg/leader/leader.go (configurations, the choice of the lock), pkg/restconfig, pkg/version, pkg/fields, pkg/urlbuilder,
  pkg/randomtoken and the log lines of pkg/apply. What the libraries construct is an argument; times are in nanoseconds.
\<close>

section \<open>Election configurations\<close>

definition second :: int where "second = 1000000000"

definition defaultLeaderTTL :: int where "defaultLeaderTTL = 60 * second"

definition devLeaderTTL :: int where "devLeaderTTL = 3600 * second"

text \<open>\<open>devMode\<close> is the environment's \<open>NAH_DEV_MODE\<close>. The REST configuration of a lease is not in the record.\<close>

definition defaultElectionTTL :: "string \<Rightarrow> int" where
  "defaultElectionTTL devMode = (if devMode \<noteq> [] then devLeaderTTL else defaultLeaderTTL)"

definition NewDefaultElectionConfig :: "string \<Rightarrow> string \<Rightarrow> string \<Rightarrow> ElectionConfig" where
  "NewDefaultElectionConfig devMode namespace name =
     \<lparr>ecTTL = defaultElectionTTL devMode, ecName = name, ecNamespace = namespace, ecResourceLockType = ''leases''\<rparr>"

definition NewFileElectionConfigWithTTL :: "string \<Rightarrow> int \<Rightarrow> ElectionConfig" where
  "NewFileElectionConfigWithTTL fileName ttl =
     \<lparr>ecTTL = ttl, ecName = fileName, ecNamespace = [], ecResourceLockType = ''file''\<rparr>"

definition NewFileElectionConfig :: "string \<Rightarrow> string \<Rightarrow> ElectionConfig" where
  "NewFileElectionConfig devMode fileName =
     \<lparr>ecTTL = defaultElectionTTL devMode, ecName = fileName, ecNamespace = [], ecResourceLockType = ''file''\<rparr>"

definition NewElectionConfig :: "int \<Rightarrow> string \<Rightarrow> string \<Rightarrow> string \<Rightarrow> ElectionConfig" where
  "NewElectionConfig ttl namespace name lockType =
     \<lparr>ecTTL = ttl, ecName = name, ecNamespace = namespace, ecResourceLockType = lockType\<rparr>"

text \<open>
  \<open>run\<close>: the lock, then the elector with its three times. Division of durations truncates towards zero. The elector is
  the library's; it may refuse the configuration.
\<close>

datatype election_lock = FileLock string string | ResourceLock string string string string int

record elector_config =
  elLock :: election_lock
  elLeaseDuration :: int
  elRenewDeadline :: int
  elRetryPeriod :: int
  elReleaseOnCancel :: bool

definition half :: "int \<Rightarrow> int" where
  "half t = sgn t * (\<bar>t\<bar> div 2)"

definition election_run ::
  "(election_lock \<Rightarrow> err option) \<Rightarrow> (elector_config \<Rightarrow> err option) \<Rightarrow> string \<Rightarrow> ElectionConfig \<Rightarrow> err option \<times> elector_config option" where
  "election_run newLock newElector ident ec =
     (let rl = (if ecResourceLockType ec = ''file'' then FileLock ident (ecName ec)
                else ResourceLock (ecResourceLockType ec) (ecNamespace ec) (ecName ec) ident (half (ecTTL ec)));
          err = (if ecResourceLockType ec = ''file'' then None else newLock rl) in
      case err of
        Some err \<Rightarrow> (Some (Err (''error creating leader lock for '' @ ecName ec @ '': '' @ err_text err)), None)
      | None \<Rightarrow>
          let c = \<lparr>elLock = rl, elLeaseDuration = ecTTL ec, elRenewDeadline = half (ecTTL ec),
                   elRetryPeriod = 2 * second, elReleaseOnCancel = True\<rparr> in
          (case newElector c of Some err \<Rightarrow> (Some err, None) | None \<Rightarrow> (None, Some c)))"

section \<open>Options\<close>

text \<open>
  \<open>'s\<close>: schemes, \<open>'c\<close>: REST configurations, \<open>'b\<close>: backends. The selectors and namespaces of the caches are handed through in
  \<open>opCache\<close>, the workers and queues in \<open>opKinds\<close>.
\<close>

record ('b, 'c, 's, 'x, 'k) options =
  opBackend :: "'b option"
  opRESTConfig :: "'c option"
  opCache :: 'x
  opScheme :: "'s option"
  opElectionConfig :: "ElectionConfig option"
  opHealthzPort :: int
  opKinds :: 'k

definition defaultHealthzPort :: int where "defaultHealthzPort = 8888"

definition options_complete ::
  "('s \<Rightarrow> err + 'c) \<Rightarrow> ('c \<Rightarrow> 'x \<Rightarrow> 'k \<Rightarrow> 's \<Rightarrow> err + 'b) \<Rightarrow> 'x \<Rightarrow> 'k \<Rightarrow> ('b, 'c, 's, 'x, 'k) options option
     \<Rightarrow> err + ('b, 'c, 's, 'x, 'k) options" where
  "options_complete newConfig newRuntime noCache noKinds o' =
     (let result = (case o' of
            Some o' \<Rightarrow> o'
          | None \<Rightarrow> \<lparr>opBackend = None, opRESTConfig = None, opCache = noCache, opScheme = None, opElectionConfig = None,
                     opHealthzPort = 0, opKinds = noKinds\<rparr>) in
      case opScheme result of
        None \<Rightarrow> Inl (Err ''scheme is required to be set'')
      | Some scheme \<Rightarrow>
          let result = (if opHealthzPort result = 0 then result\<lparr>opHealthzPort := defaultHealthzPort\<rparr> else result) in
          if opBackend result \<noteq> None then Inr result
          else
            (case (case opRESTConfig result of Some c \<Rightarrow> Inr c | None \<Rightarrow> newConfig scheme) of
               Inl err \<Rightarrow> Inl err
             | Inr c \<Rightarrow>
                 let result = result\<lparr>opRESTConfig := Some c\<rparr> in
                 (case newRuntime c (opCache result) (opKinds result) scheme of
                    Inl err \<Rightarrow> Inl err
                  | Inr b \<Rightarrow> Inr (result\<lparr>opBackend := Some b\<rparr>))))"

definition DefaultOptions ::
  "('s \<Rightarrow> err + 'c) \<Rightarrow> ('c \<Rightarrow> 'x \<Rightarrow> 'k \<Rightarrow> 's \<Rightarrow> err + 'b) \<Rightarrow> 'x \<Rightarrow> 'k \<Rightarrow> string \<Rightarrow> string \<Rightarrow> 's
     \<Rightarrow> err + ('b, 'c, 's, 'x, 'k) options" where
  "DefaultOptions newConfig newRuntime noCache noKinds devMode routerName scheme =
     (case newConfig scheme of
        Inl err \<Rightarrow> Inl err
      | Inr cfg \<Rightarrow>
          (case newRuntime cfg noCache noKinds scheme of
             Inl err \<Rightarrow> Inl err
           | Inr b \<Rightarrow>
               Inr \<lparr>opBackend = Some b, opRESTConfig = Some cfg, opCache = noCache, opScheme = Some scheme,
                    opElectionConfig = Some (NewDefaultElectionConfig devMode [] routerName),
                    opHealthzPort = defaultHealthzPort, opKinds = noKinds\<rparr>))"

text \<open>\<open>NewRouter\<close>: the completed options, the router and the health state; \<open>opts = None\<close> is a nil pointer.\<close>

definition NewRouter ::
  "('s \<Rightarrow> err + 'c) \<Rightarrow> ('c \<Rightarrow> 'x \<Rightarrow> 'k \<Rightarrow> 's \<Rightarrow> err + 'b) \<Rightarrow> 'x \<Rightarrow> 'k \<Rightarrow> ('b, 'c, 's, 'x, 'k) options option \<Rightarrow> healthz_state
     \<Rightarrow> err + ('b option \<times> ElectionConfig option \<times> 'w router_state) \<times> healthz_state" where
  "NewRouter newConfig newRuntime noCache noKinds opts hz =
     (case options_complete newConfig newRuntime noCache noKinds opts of
        Inl err \<Rightarrow> Inl err
      | Inr o' \<Rightarrow>
          (case New_router (opHealthzPort o') hz of
             (r, hz) \<Rightarrow> Inr ((opBackend o', opElectionConfig o', r), hz)))"

definition DefaultRouter where
  "DefaultRouter newConfig newRuntime noCache noKinds devMode routerName scheme hz =
     (case DefaultOptions newConfig newRuntime noCache noKinds devMode routerName scheme of
        Inl err \<Rightarrow> Inl err
      | Inr o' \<Rightarrow> NewRouter newConfig newRuntime noCache noKinds (Some o') hz)"

text \<open>
  Completed options keep everything the caller set, have a scheme, a backend and a port other than 0; with a scheme and a
  backend they can always be completed.
\<close>

theorem options_complete_keeps:
  "case options_complete newConfig newRuntime noCache noKinds (Some o') of
     Inl e \<Rightarrow> opScheme o' = None \<or> opBackend o' = None
   | Inr r \<Rightarrow> opBackend r \<noteq> None \<and> opScheme r = opScheme o' \<and> opScheme o' \<noteq> None \<and> opHealthzPort r \<noteq> 0 \<and>
       opElectionConfig r = opElectionConfig o' \<and> opCache r = opCache o' \<and> opKinds r = opKinds o' \<and>
       (opHealthzPort o' \<noteq> 0 \<longrightarrow> opHealthzPort r = opHealthzPort o') \<and> (opBackend o' \<noteq> None \<longrightarrow> opBackend r = opBackend o') \<and>
       (opRESTConfig o' \<noteq> None \<longrightarrow> opRESTConfig r = opRESTConfig o')"
  by (auto simp: options_complete_def Let_def defaultHealthzPort_def split: option.splits sum.splits if_splits)

text \<open>The default lease is a minute (an hour in development), not the 15 seconds its comment gives.\<close>

lemma default_TTL: "DefaultOptions newConfig newRuntime noCache noKinds [] n s = Inr o' \<Longrightarrow>
   map_option ecTTL (opElectionConfig o') = Some (60 * second)"
  by (auto simp: DefaultOptions_def NewDefaultElectionConfig_def defaultElectionTTL_def defaultLeaderTTL_def split: sum.splits)

text \<open>A lease of five seconds or more gives the elector times in the order it asks for.\<close>

lemma election_times:
  assumes "election_run newLock newElector ident ec = (e, Some c)" and "5 * second \<le> ecTTL ec"
  shows "elRetryPeriod c < elRenewDeadline c \<and> elRenewDeadline c < elLeaseDuration c"
  using assms by (auto simp: election_run_def Let_def half_def second_def split: option.splits if_splits)

section \<open>The runtime\<close>

text \<open>
  \<open>getClients\<close>: the constructors of the libraries, in the order of the code; the first that fails ends it. The cache is
  restricted to a namespace when one is set; both clients and the cache share the mapper and the HTTP client.
\<close>

record ('cfg, 'sel) runtime_config =
  cfRest :: 'cfg
  cfNamespace :: string
  cfSelectors :: 'sel
  cfKindWorkers :: "(gvk, nat) gomap"
  cfSplitters :: "(gvk, splitter) gomap"

record ('cfg, 'sel, 'm, 'h, 'u, 'c, 'i) constructors =
  ctMapper :: "'cfg \<Rightarrow> err + 'm"
  ctHTTP :: "'cfg \<Rightarrow> err + 'h"
  ctTraced :: "'h \<Rightarrow> 'h"
  ctUncached :: "'cfg \<Rightarrow> 'h \<Rightarrow> 'm \<Rightarrow> err + 'u"
  ctCache :: "'cfg \<Rightarrow> 'h \<Rightarrow> 'm \<Rightarrow> string list option \<Rightarrow> 'sel \<Rightarrow> int \<Rightarrow> err + 'i"
  ctCached :: "'cfg \<Rightarrow> 'h \<Rightarrow> 'm \<Rightarrow> 'i \<Rightarrow> err + 'c"

definition cache_namespaces :: "string \<Rightarrow> string list option" where
  "cache_namespaces namespace = (if namespace \<noteq> [] then Some [namespace] else None)"

definition getClients ::
  "('cfg, 'sel, 'm, 'h, 'u, 'c, 'i) constructors \<Rightarrow> ('cfg, 'sel) runtime_config \<Rightarrow> err + 'u \<times> 'c \<times> 'i" where
  "getClients K cfg =
     (case ctMapper K (cfRest cfg) of
        Inl err \<Rightarrow> Inl err
      | Inr m \<Rightarrow>
     (case ctHTTP K (cfRest cfg) of
        Inl err \<Rightarrow> Inl err
      | Inr h \<Rightarrow>
     (let h = ctTraced K h in
      case ctUncached K (cfRest cfg) h m of
        Inl err \<Rightarrow> Inl err
      | Inr u \<Rightarrow>
     (case ctCache K (cfRest cfg) h m (cache_namespaces (cfNamespace cfg)) (cfSelectors cfg) (600 * second) of
        Inl err \<Rightarrow> Inl err
      | Inr i \<Rightarrow>
     (case ctCached K (cfRest cfg) h m i of
        Inl err \<Rightarrow> Inl err
      | Inr c \<Rightarrow> Inr (u, c, i))))))"

text \<open>The runtime: its clients and cache, and what its controller factory is given.\<close>

record ('u, 'c, 'i) runtime =
  rnUncached :: 'u
  rnCached :: 'c
  rnCache :: 'i
  rnKindWorkers :: "(gvk, nat) gomap"
  rnSplitters :: "(gvk, splitter) gomap"

definition NewRuntimeWithConfig ::
  "('cfg, 'sel, 'm, 'h, 'u, 'c, 'i) constructors \<Rightarrow> ('cfg, 'sel) runtime_config \<Rightarrow> err + ('u, 'c, 'i) runtime" where
  "NewRuntimeWithConfig K cfg =
     (case getClients K cfg of
        Inl err \<Rightarrow> Inl err
      | Inr (u, c, i) \<Rightarrow>
          Inr \<lparr>rnUncached = u, rnCached = c, rnCache = i, rnKindWorkers = cfKindWorkers cfg, rnSplitters = cfSplitters cfg\<rparr>)"

definition NewRuntimeForNamespace ::
  "('cfg, 'sel, 'm, 'h, 'u, 'c, 'i) constructors \<Rightarrow> 'sel \<Rightarrow> 'cfg \<Rightarrow> string \<Rightarrow> err + ('u, 'c, 'i) runtime" where
  "NewRuntimeForNamespace K noSelectors cfg namespace =
     NewRuntimeWithConfig K \<lparr>cfRest = cfg, cfNamespace = namespace, cfSelectors = noSelectors, cfKindWorkers = [], cfSplitters = []\<rparr>"

definition NewRuntime ::
  "('cfg, 'sel, 'm, 'h, 'u, 'c, 'i) constructors \<Rightarrow> 'sel \<Rightarrow> 'cfg \<Rightarrow> err + ('u, 'c, 'i) runtime" where
  "NewRuntime K noSelectors cfg =
     NewRuntimeWithConfig K \<lparr>cfRest = cfg, cfNamespace = [], cfSelectors = noSelectors, cfKindWorkers = [], cfSplitters = []\<rparr>"

text \<open>The cached client reads from the cache of the runtime, over the same connection and mapper as the uncached one.\<close>

lemma getClients_shares:
  "getClients K cfg = Inr (u, c, i) \<Longrightarrow>
   \<exists>m h. ctUncached K (cfRest cfg) h m = Inr u \<and> ctCached K (cfRest cfg) h m i = Inr c \<and>
     ctCache K (cfRest cfg) h m (cache_namespaces (cfNamespace cfg)) (cfSelectors cfg) (600 * second) = Inr i"
  by (auto simp: getClients_def Let_def split: sum.splits)

section \<open>Waiting for the server\<close>

text \<open>
  \<open>WaitFor\<close>: \<open>wfDone\<close> is the check of the context, \<open>wfReady\<close> the request, \<open>wfSleep\<close> the two seconds between. When the
  context ends the result joins its error with that of the last request.
\<close>

record 'w wait_env =
  wfClient :: "err option"
  wfDone :: "'w \<Rightarrow> err option \<times> 'w"
  wfReady :: "'w \<Rightarrow> err option \<times> 'w"
  wfSleep :: "'w \<Rightarrow> 'w"

datatype wait_result = ServerReady | ClientError err | ContextClosed err "err option"

partial_function (option) wait_loop :: "'w wait_env \<Rightarrow> err option \<Rightarrow> 'w \<Rightarrow> (wait_result \<times> 'w) option" where
  "wait_loop E err w =
     (case wfDone E w of (d, w) \<Rightarrow>
        if d \<noteq> None then Some (ContextClosed (the d) err, w)
        else
          (case wfReady E w of (err, w) \<Rightarrow>
             if err = None then Some (ServerReady, w) else wait_loop E err (wfSleep E w)))"

definition WaitFor :: "'w wait_env \<Rightarrow> 'w \<Rightarrow> (wait_result \<times> 'w) option" where
  "WaitFor E w = (case wfClient E of Some err \<Rightarrow> Some (ClientError err, w) | None \<Rightarrow> wait_loop E None w)"

text \<open>
  \<open>WaitFor\<close> returns, because its context has a deadline: with \<open>\<mu>\<close> the seconds left, which asking does not lengthen
  and sleeping shortens while there are any, and a context that is done when none are left.
\<close>

theorem WaitFor_returns:
  assumes "\<And>v. \<mu> (snd (wfDone E v)) \<le> (\<mu> v :: nat)" and "\<And>v. \<mu> (snd (wfReady E v)) \<le> \<mu> v"
    and "\<And>v. 0 < \<mu> v \<Longrightarrow> \<mu> (wfSleep E v) < \<mu> v" and "\<And>v. \<mu> v = 0 \<Longrightarrow> \<mu> (wfSleep E v) = 0"
    and "\<And>v. \<mu> v = 0 \<Longrightarrow> fst (wfDone E v) \<noteq> None"
  shows "\<exists>r w'. WaitFor E w = Some (r, w') \<and> (r = ServerReady \<longrightarrow> (\<exists>v. wfReady E v = (None, w')))"
proof -
  have "\<exists>r w'. wait_loop E err w = Some (r, w') \<and> (r = ServerReady \<longrightarrow> (\<exists>v. wfReady E v = (None, w')))" for err
  proof (induction "\<mu> w" arbitrary: w err rule: less_induct)
    case less
    obtain d w1 where d: "wfDone E w = (d, w1)" by fastforce
    obtain e w2 where e: "wfReady E w1 = (e, w2)" by fastforce
    show ?case
    proof (cases "d = None \<and> e \<noteq> None")
      case True
      with assms(5) [of w] d have "0 < \<mu> w" by (cases "\<mu> w") auto
      moreover have "\<mu> w2 \<le> \<mu> w" using assms(1) [of w] assms(2) [of w1] d e by simp
      ultimately have "\<mu> (wfSleep E w2) < \<mu> w"
        using assms(3) [of w2] assms(4) [of w2] by (cases "\<mu> w2 = 0") auto
      from less [OF this, of e] True d e show ?thesis by (subst wait_loop.simps) (auto simp del: not_None_eq)
    next
      case False
      with d e show ?thesis by (subst wait_loop.simps) auto
    qed
  qed
  then show ?thesis by (auto simp: WaitFor_def split: option.split)
qed

definition example_wait :: "nat wait_env" where
  "example_wait = \<lparr>wfClient = None, wfDone = (\<lambda>n. (if n = 0 then Some DeadlineExceeded else None, n)),
     wfReady = (\<lambda>n. (Some (Err ''connection refused''), n)), wfSleep = (\<lambda>n. n - 2)\<rparr>"

theorem WaitFor_returns_witness: "\<exists>r w'. WaitFor example_wait 120 = Some (r, w')"
proof -
  have "\<exists>r w'. WaitFor example_wait 120 = Some (r, w') \<and> (r = ServerReady \<longrightarrow> (\<exists>v. wfReady example_wait v = (None, w')))"
    by (rule WaitFor_returns [where \<mu> = "\<lambda>n. n"]) (simp_all add: example_wait_def)
  then show ?thesis by blast
qed

text \<open>Building a scheme: every function is called, and any error is a panic (\<open>None\<close>).\<close>

fun add_to_scheme :: "('s \<Rightarrow> err option \<times> 's) list \<Rightarrow> 's \<Rightarrow> err list \<times> 's" where
  "add_to_scheme [] scheme = ([], scheme)"
| "add_to_scheme (f # fs) scheme =
     (case f scheme of (e, scheme) \<Rightarrow>
       (case add_to_scheme fs scheme of (errs, scheme) \<Rightarrow> (case e of None \<Rightarrow> errs | Some e \<Rightarrow> e # errs, scheme)))"

definition MustBuildScheme :: "('s \<Rightarrow> 's) \<Rightarrow> ('s \<Rightarrow> err option \<times> 's) list \<Rightarrow> 's \<Rightarrow> 's option" where
  "MustBuildScheme addToGroupVersion fs scheme =
     (case add_to_scheme fs (addToGroupVersion scheme) of (errs, scheme) \<Rightarrow> if errs \<noteq> [] then None else Some scheme)"

text \<open>pkg/ratelimit: a limiter that lets everything through; its \<open>Stop\<close> and \<open>Accept\<close> do nothing.\<close>

record rate_limiter =
  rlTryAccept :: bool
  rlQPS :: int
  rlWait :: "err option"

definition ratelimit_none :: rate_limiter where
  "ratelimit_none = \<lparr>rlTryAccept = True, rlQPS = 1, rlWait = None\<rparr>"

text \<open>A REST configuration of client-go; \<open>rcRateLimiter = None\<close> leaves the choice of a limiter to the client, \<open>rcScheme\<close> is
  the scheme of the negotiated serializer.\<close>

record 's rest_config =
  rcHost :: string
  rcInsecure :: bool
  rcBearerToken :: string
  rcRateLimiter :: "rate_limiter option"
  rcScheme :: "'s option"
  rcUserAgent :: string

definition SetScheme :: "string \<Rightarrow> 's rest_config \<Rightarrow> 's \<Rightarrow> 's rest_config" where
  "SetScheme agent cfg scheme = cfg\<lparr>rcScheme := Some scheme, rcUserAgent := agent\<rparr>"

text \<open>TLS is not checked for \<open>https://localhost\<close> only. \<open>parse\<close> gives scheme and host of a URL, \<open>agent\<close> is the library's
  user agent.\<close>

definition FromURLTokenAndScheme ::
  "(string \<Rightarrow> err + string \<times> string) \<Rightarrow> string \<Rightarrow> string \<Rightarrow> string \<Rightarrow> 's \<Rightarrow> err + 's rest_config" where
  "FromURLTokenAndScheme parse agent serverURL token scheme =
     (case parse serverURL of
        Inl err \<Rightarrow> Inl err
      | Inr (s, host) \<Rightarrow>
          let insecure = (s = ''https'' \<and> host = ''localhost'');
              cfg = \<lparr>rcHost = serverURL, rcInsecure = insecure, rcBearerToken = token,
                     rcRateLimiter = Some ratelimit_none, rcScheme = None, rcUserAgent = []\<rparr>
          in Inr (SetScheme agent cfg scheme))"

text \<open>\<open>getConfig\<close> is the library's search for a configuration for a context; \<open>context\<close> is the environment's.\<close>

definition restconfig_New ::
  "(string \<Rightarrow> err + 's rest_config) \<Rightarrow> string \<Rightarrow> string \<Rightarrow> 's \<Rightarrow> err + 's rest_config" where
  "restconfig_New getConfig agent context scheme =
     (case getConfig context of
        Inl err \<Rightarrow> Inl err
      | Inr cfg \<Rightarrow> Inr (SetScheme agent (cfg\<lparr>rcRateLimiter := Some ratelimit_none\<rparr>) scheme))"

definition restconfig_Default ::
  "(string \<Rightarrow> err + 's rest_config) \<Rightarrow> string \<Rightarrow> string \<Rightarrow> 's \<Rightarrow> err + 's rest_config" where
  "restconfig_Default getConfig agent context clientScheme = restconfig_New getConfig agent context clientScheme"

text \<open>What the library's loader is told: the file and the context.\<close>

record client_config =
  ccExplicitPath :: string
  ccCurrentContext :: string

definition ClientConfigFromFile :: "string \<Rightarrow> string \<Rightarrow> client_config" where
  "ClientConfigFromFile file context = \<lparr>ccExplicitPath = file, ccCurrentContext = context\<rparr>"

definition FromFile :: "(client_config \<Rightarrow> err + 's rest_config) \<Rightarrow> string \<Rightarrow> string \<Rightarrow> err + 's rest_config" where
  "FromFile load file context = load (ClientConfigFromFile file context)"

text \<open>A configuration from a URL or from the environment never makes its client wait, uses the given scheme, and
  gives up the check of the server's certificate for no other host than \<open>localhost\<close>.\<close>

lemma restconfig_unthrottled:
  "restconfig_New getConfig agent context scheme = Inr cfg \<Longrightarrow>
     map_option rlTryAccept (rcRateLimiter cfg) = Some True \<and> rcScheme cfg = Some scheme"
  "FromURLTokenAndScheme parse agent url token scheme = Inr cfg' \<Longrightarrow>
     map_option rlTryAccept (rcRateLimiter cfg') = Some True \<and> rcScheme cfg' = Some scheme \<and>
     (rcInsecure cfg' \<longleftrightarrow> parse url = Inr (''https'', ''localhost''))"
  by (auto simp: restconfig_New_def FromURLTokenAndScheme_def SetScheme_def ratelimit_none_def Let_def split: sum.splits)

section \<open>Versions\<close>

record version =
  vTag :: string
  vCommit :: string
  vDirty :: bool

definition version_String :: "version \<Rightarrow> string" where
  "version_String v =
     (if length (vCommit v) < 12 then vTag v
      else if vDirty v then vTag v @ ''-'' @ take 8 (vCommit v) @ ''-dirty''
      else vTag v @ ''+'' @ take 8 (vCommit v))"

fun git_commit :: "(string \<times> string) list \<Rightarrow> string \<times> bool \<Rightarrow> string \<times> bool" where
  "git_commit [] r = r"
| "git_commit ((k, v) # settings) (commit, dirty) =
     (if k = ''vcs.modified'' then git_commit settings (commit, v = ''true'')
      else if k = ''vcs.revision'' then git_commit settings (v, dirty)
      else git_commit settings (commit, dirty))"

definition GitCommit :: "(string \<times> string) list option \<Rightarrow> string \<times> bool" where
  "GitCommit bi = (case bi of None \<Rightarrow> ([], False) | Some settings \<Rightarrow> git_commit settings ([], False))"

definition NewVersion :: "(string \<times> string) list option \<Rightarrow> string \<Rightarrow> version" where
  "NewVersion bi tag = (case GitCommit bi of (c, d) \<Rightarrow> \<lparr>vTag = tag, vCommit = c, vDirty = d\<rparr>)"

section \<open>Field selectors\<close>

definition ValidSelectors ::
  "(string \<Rightarrow> string \<Rightarrow> err + string \<times> string) \<Rightarrow> string list \<Rightarrow> string \<Rightarrow> string \<Rightarrow> err + string \<times> string" where
  "ValidSelectors fallback labels label value =
     (if List.member labels label then Inr (label, value) else fallback label value)"

text \<open>\<open>gvk\<close> and \<open>names\<close> are the kind and, for a type with fields, the field names of an object; \<open>addConv\<close> is the scheme's.\<close>

definition AddFieldConversion ::
  "('o \<Rightarrow> err + gvk) \<Rightarrow> ('o \<Rightarrow> string list option) \<Rightarrow> (gvk \<Rightarrow> string list \<Rightarrow> 's \<Rightarrow> err option \<times> 's) \<Rightarrow> 'o \<Rightarrow> 's \<Rightarrow> err option \<times> 's" where
  "AddFieldConversion gvkFor' fieldNames addConv obj scheme =
     (case gvkFor' obj of
        Inl err \<Rightarrow> (None, scheme)
      | Inr g \<Rightarrow> (case fieldNames obj of None \<Rightarrow> (None, scheme) | Some names \<Rightarrow> addConv g names scheme))"

fun AddKnownTypesWithFieldConversion ::
  "('o \<Rightarrow> 's \<Rightarrow> 's) \<Rightarrow> ('o \<Rightarrow> 's \<Rightarrow> err option \<times> 's) \<Rightarrow> 'o list \<Rightarrow> 's \<Rightarrow> err option \<times> 's" where
  "AddKnownTypesWithFieldConversion addKnown addField [] scheme = (None, scheme)"
| "AddKnownTypesWithFieldConversion addKnown addField (obj # objs) scheme =
     (case addField obj (addKnown obj scheme) of
        (Some err, scheme) \<Rightarrow> (Some err, scheme)
      | (None, scheme) \<Rightarrow> AddKnownTypesWithFieldConversion addKnown addField objs scheme)"

section \<open>Paths\<close>

text \<open>Go's \<open>path.Clean\<close>: the elements between slashes, without empty ones and dots, with \<open>..\<close> taking back one.\<close>

fun clean_elems :: "bool \<Rightarrow> string list \<Rightarrow> string list \<Rightarrow> string list" where
  "clean_elems rooted [] out = rev out"
| "clean_elems rooted (e # es) out =
     (if e = [] \<or> e = ''.'' then clean_elems rooted es out
      else if e = ''..'' then
        (if out \<noteq> [] \<and> hd out \<noteq> ''..'' then clean_elems rooted es (tl out)
         else if rooted then clean_elems rooted es out
         else clean_elems rooted es (e # out))
      else clean_elems rooted es (e # out))"

definition path_Clean :: "string \<Rightarrow> string" where
  "path_Clean p =
     (let rooted = (p \<noteq> [] \<and> hd p = CHR ''/'');
          out = (if rooted then ''/'' else []) @ strings_Join (clean_elems rooted (strings_Split p ''/'') []) ''/''
      in if out = [] then ''.'' else out)"

definition path_Join :: "string list \<Rightarrow> string" where
  "path_Join es = (let es = filter (\<lambda>e. e \<noteq> []) es in if es = [] then [] else path_Clean (strings_Join es ''/''))"

record path_builder =
  pbPrefix :: string
  pbAPIGroup :: string
  pbAPIVersion :: string
  pbNamespace :: string
  pbName :: string
  pbResource :: string
  pbSubresource :: string
  pbSubPath :: string

definition Build :: "(string \<Rightarrow> string) \<Rightarrow> path_builder \<Rightarrow> string" where
  "Build toLower u =
     (let p = pbPrefix u;
          p = (if pbAPIGroup u \<noteq> [] \<or> pbAPIVersion u \<noteq> [] then path_Join [p, pbAPIGroup u, pbAPIVersion u] else p);
          p = (if pbNamespace u \<noteq> [] then path_Join [p, ''namespaces'', pbNamespace u] else p);
          p = (if pbResource u \<noteq> [] then path_Join [p, toLower (pbResource u)] else p)
      in if pbName u \<noteq> [] \<or> pbSubresource u \<noteq> [] \<or> pbSubPath u \<noteq> []
         then path_Join [p, pbName u, pbSubresource u, pbSubPath u] else p)"

section \<open>Tokens\<close>

definition token_characters :: string where
  "token_characters = ''bcdfghjklmnpqrstvwxz2456789''"

text \<open>\<open>draw i\<close> is the \<open>i\<close>-th \<open>rand.Int\<close> below 27, or its error.\<close>

fun token_loop :: "(nat \<Rightarrow> err + nat) \<Rightarrow> nat list \<Rightarrow> string \<Rightarrow> err + string" where
  "token_loop draw [] token = Inr token"
| "token_loop draw (i # is) token =
     (case draw i of Inl err \<Rightarrow> Inl err | Inr r \<Rightarrow> token_loop draw is (token @ [token_characters ! r]))"

definition Generate :: "(nat \<Rightarrow> err + nat) \<Rightarrow> err + string" where
  "Generate draw = token_loop draw [0..<54] []"

lemma token_loop_ok:
  "\<lbrakk>token_loop draw is t = Inr s; \<forall>i r. draw i = Inr r \<longrightarrow> r < 27; set t \<subseteq> set token_characters\<rbrakk>
   \<Longrightarrow> length s = length t + length is \<and> set s \<subseteq> set token_characters"
proof (induction "is" arbitrary: t)
  case (Cons i "is")
  then obtain r where r: "draw i = Inr r" "token_loop draw is (t @ [token_characters ! r]) = Inr s"
    by (auto split: sum.splits)
  with Cons.prems(2) have "r < 27" by blast
  moreover have "length token_characters = 27" by (simp add: token_characters_def)
  ultimately have "r < length token_characters" by simp
  then have "token_characters ! r \<in> set token_characters" by (rule nth_mem)
  with Cons.IH [OF r(2) Cons.prems(2)] Cons.prems(3) show ?case by simp
qed simp

lemma Generate_ok:
  "\<lbrakk>Generate draw = Inr s; \<forall>i r. draw i = Inr r \<longrightarrow> r < 27\<rbrakk> \<Longrightarrow> length s = 54 \<and> set s \<subseteq> set token_characters"
  using token_loop_ok [of draw "[0..<54]" "[]" s] by (simp add: Generate_def)

section \<open>Log lines of the applier\<close>

definition logKey :: "kobj \<Rightarrow> string" where
  "logKey obj = (if Namespace obj = [] then Name obj else Namespace obj @ ''/'' @ Name obj)"

definition ownerLogKey :: "(gvk \<Rightarrow> string) \<Rightarrow> applier \<Rightarrow> string" where
  "ownerLogKey gvkText a =
     (let result = (case owner a of
            None \<Rightarrow> []
          | Some o' \<Rightarrow> ''['' @ logKey o' @ ''] ['' @ gvkText (ownerGVK a) @ '']'')
      in if ownerSubContext a \<noteq> [] then
           (if 0 < length result then result @ '' '' else result) @ ''subctx ['' @ ownerSubContext a @ '']''
         else result)"

text \<open>The line that is logged, if a log function was set.\<close>

definition apply_log :: "bool \<Rightarrow> (gvk \<Rightarrow> string) \<Rightarrow> applier \<Rightarrow> string \<Rightarrow> gvk \<Rightarrow> kobj \<Rightarrow> string option" where
  "apply_log hasLog gvkText a operation g obj =
     (if \<not> hasLog then None
      else if ensure a then Some (''apply: '' @ operation @ '' ['' @ logKey obj @ ''] ['' @ gvkText g @ '']'')
      else Some (''apply: '' @ operation @ '' ['' @ logKey obj @ ''] ['' @ gvkText g @ ''] by owner '' @ ownerLogKey gvkText a))"

section \<open>Ready-made handlers\<close>

definition GCOrphans where
  "GCOrphans K obj w = PurgeOrphan K obj w"

definition DoNothing :: "'w \<Rightarrow> err option \<times> 'w" where
  "DoNothing w = (None, w)"

end
