(* ===== verification/Cached_Client.thy ===== *)
theory Cached_Client
  imports Router_Client Go_Numbers
begin

text \<open>
  pkg/runtime/cached.go and copy.go: a client that reads from the
  informers' cache and corrects it with the objects it has written in the last ten seconds. \<open>C\<close> is the
  cached client, \<open>U\<close> the uncached one; both are fields of \<open>backend\<close> over one world.
\<close>

section \<open>Resource versions\<close>

definition newer :: "string \<Rightarrow> string \<Rightarrow> bool" where
  "newer oldRV newRV =
     (if length oldRV = length newRV then oldRV < newRV
      else (case strconv_Atoi oldRV of
              None \<Rightarrow> True
            | Some oldI \<Rightarrow> (case strconv_Atoi newRV of None \<Rightarrow> False | Some newI \<Rightarrow> oldI < newI)))"

text \<open>For resource versions that are decimal numbers the comparison of texts is the comparison of numbers:
  \<open>newer\<close> holds exactly if the second number is larger, in the range of \<open>int64\<close>, whether it
  compares the texts (equal lengths) or the parsed numbers.\<close>

theorem newer_numeric:
  assumes "m < 2 ^ 63" and "n < 2 ^ 63"
  shows "newer (decimal m) (decimal n) \<longleftrightarrow> m < n"
  using decimal_less [of m n] assms by (simp add: newer_def Atoi_decimal)

theorem newer_numeric_witness:
  "newer (decimal 99) (decimal 1000) \<and> \<not> newer (decimal 1000) (decimal 999)"
  using newer_numeric [of 99 1000] newer_numeric [of 1000 999] by simp

section \<open>The client\<close>

record objectKey =
  okGVK :: gvk
  okNamespace :: string
  okName :: string

record objectValue =
  ovObject :: kobj
  Inserted :: int

record 'w cacheClient =
  ccWorld :: 'w
  recent :: "(objectKey, objectValue) gomap"

definition newCacheClient :: "'w \<Rightarrow> 'w cacheClient" where
  "newCacheClient w = \<lparr>ccWorld = w, recent = []\<rparr>"

text \<open>An object or list handed to the client, perhaps in a \<open>Holder\<close>, perhaps an uncached one.\<close>

record held = robj +
  uncached :: bool

definition IsUncached :: "held \<Rightarrow> bool" where
  "IsUncached u \<longleftrightarrow> IsWrapped u \<and> uncached u"

definition cacheDuration :: int where
  "cacheDuration = 10"

definition objectKey_of :: "gvk \<Rightarrow> kobj \<Rightarrow> objectKey" where
  "objectKey_of g obj = \<lparr>okGVK = g, okNamespace = Namespace obj, okName = Name obj\<rparr>"

text \<open>One turn of the loop of \<open>startPurge\<close> (times in seconds).\<close>

definition purge :: "int \<Rightarrow> 'w cacheClient \<Rightarrow> 'w cacheClient" where
  "purge now c = c\<lparr>recent := filter (\<lambda>(k, v). \<not> Inserted v + cacheDuration < now) (recent c)\<rparr>"

definition deleteStore :: "('a) lib_scheme \<Rightarrow> kobj \<Rightarrow> 'w cacheClient \<Rightarrow> 'w cacheClient" where
  "deleteStore L obj c =
     (case gvkFor L obj of
        Inl err \<Rightarrow> c
      | Inr g \<Rightarrow> c\<lparr>recent := AList.delete (objectKey_of g obj) (recent c)\<rparr>)"

definition cc_store :: "('a) lib_scheme \<Rightarrow> kobj \<Rightarrow> int \<Rightarrow> 'w cacheClient \<Rightarrow> 'w cacheClient" where
  "cc_store L obj now c =
     (case gvkFor L obj of
        Inl err \<Rightarrow> c
      | Inr g \<Rightarrow> c\<lparr>recent := AList.update (objectKey_of g obj) \<lparr>ovObject = obj, Inserted = now\<rparr> (recent c)\<rparr>)"

text \<open>\<open>CopyInto\<close>: what \<open>dst\<close> becomes; an unstructured source goes through its JSON text, which is read into \<open>dst\<close> as it is.\<close>

definition CopyInto :: "('a) lib_scheme \<Rightarrow> kobj \<Rightarrow> kobj \<Rightarrow> err + kobj" where
  "CopyInto L dst src =
     (if GoType src = unstructuredType
      then (case marshalObj L src of Inl err \<Rightarrow> Inl err | Inr data \<Rightarrow> unmarshalInto L dst data)
      else if GoType src \<noteq> GoType dst
      then Inl (Err (''type '' @ GoType src @ '' not assignable to '' @ GoType dst))
      else Inr src)"

text \<open>A read of the library client at kind \<open>g\<close> of the object handed in; an object that is not found stays as it was.\<close>

definition cc_Get ::
  "('w, 'a) backend_scheme \<Rightarrow> ('w, 'a) backend_scheme \<Rightarrow> gvk \<Rightarrow> ObjectKey \<Rightarrow> held \<Rightarrow> 'w cacheClient
     \<Rightarrow> (err + kobj) \<times> 'w cacheClient" where
  "cc_Get C U g key u c =
     (let obj = obj_of u in
      if IsUncached u
      then (case clGet U (ccWorld c) g (GoType obj) key of (r, w) \<Rightarrow> (r, c\<lparr>ccWorld := w\<rparr>))
      else
     (case clGet C (ccWorld c) g (GoType obj) key of
        (r, w) \<Rightarrow>
          let c = c\<lparr>ccWorld := w\<rparr>;
              getErr = (case r of Inl e \<Rightarrow> Some e | Inr _ \<Rightarrow> None);
              obj = (case r of Inl e \<Rightarrow> obj | Inr o' \<Rightarrow> o')
          in if getErr \<noteq> None \<and> \<not> IsNotFound getErr then (Inl (the getErr), c)
             else (case gvkFor C obj of
                     Inl err \<Rightarrow> (Inl (MErrors (non_nil [getErr, Some err])), c)
                   | Inr g' \<Rightarrow>
                       let cachedObj = map_of (recent c) (objectKey_of g' obj) in
                       if IsNotFound getErr
                       then (case cachedObj of
                               Some v \<Rightarrow> (CopyInto C obj (ovObject v), c)
                             | None \<Rightarrow> (Inl (the getErr), c))
                       else (case cachedObj of
                               Some v \<Rightarrow>
                                 if newer (ResourceVersion obj) (ResourceVersion (ovObject v))
                                 then (CopyInto C obj (ovObject v), c) else (Inr obj, c)
                             | None \<Rightarrow> (Inr obj, c)))))"

definition cc_List ::
  "('w, 'a) backend_scheme \<Rightarrow> ('w, 'a) backend_scheme \<Rightarrow> gvk \<Rightarrow> string \<Rightarrow> label_selector option
     \<Rightarrow> field_selector option \<Rightarrow> held \<Rightarrow> 'w cacheClient \<Rightarrow> (err + kobj list) \<times> 'w cacheClient" where
  "cc_List C U g ns sel fs u c =
     (case bList (if IsUncached u then U else C) (ccWorld c) g ns sel fs of (r, w) \<Rightarrow> (r, c\<lparr>ccWorld := w\<rparr>))"

text \<open>
  \<open>Create\<close>, \<open>Update\<close> and \<open>Patch\<close> have one shape: the call, then \<open>store\<close> of the object as the call left it;
  an uncached holder goes to the other client and is not stored.
\<close>

definition cc_write ::
  "('a) lib_scheme \<Rightarrow> ('w \<Rightarrow> kobj \<Rightarrow> err option \<times> kobj \<times> 'w) \<Rightarrow> ('w \<Rightarrow> kobj \<Rightarrow> err option \<times> kobj \<times> 'w)
     \<Rightarrow> held \<Rightarrow> int \<Rightarrow> 'w cacheClient \<Rightarrow> (err option \<times> kobj) \<times> 'w cacheClient" where
  "cc_write L onCached onUncached u now c =
     (if IsUncached u
      then (case onUncached (ccWorld c) (obj_of u) of (err, o', w) \<Rightarrow> ((err, o'), c\<lparr>ccWorld := w\<rparr>))
      else (case onCached (ccWorld c) (obj_of u) of
              (Some err, o', w) \<Rightarrow> ((Some err, o'), c\<lparr>ccWorld := w\<rparr>)
            | (None, o', w) \<Rightarrow> ((None, o'), cc_store L o' now (c\<lparr>ccWorld := w\<rparr>))))"

definition cc_Create ::
  "('w, 'a) backend_scheme \<Rightarrow> ('w, 'a) backend_scheme \<Rightarrow> held \<Rightarrow> int \<Rightarrow> 'w cacheClient
     \<Rightarrow> (err option \<times> kobj) \<times> 'w cacheClient" where
  "cc_Create C U u now c = cc_write C (clCreate C) (clCreate U) u now c"

definition cc_Update ::
  "('w, 'a) backend_scheme \<Rightarrow> ('w, 'a) backend_scheme \<Rightarrow> held \<Rightarrow> int \<Rightarrow> 'w cacheClient
     \<Rightarrow> (err option \<times> kobj) \<times> 'w cacheClient" where
  "cc_Update C U u now c = cc_write C (bUpdate C) (bUpdate U) u now c"

definition cc_Patch ::
  "('w, 'a) backend_scheme \<Rightarrow> ('w, 'a) backend_scheme \<Rightarrow> patchType \<Rightarrow> string \<Rightarrow> held \<Rightarrow> int \<Rightarrow> 'w cacheClient
     \<Rightarrow> (err option \<times> kobj) \<times> 'w cacheClient" where
  "cc_Patch C U pt patch u now c =
     cc_write C (\<lambda>w o'. clPatch C w o' pt patch) (\<lambda>w o'. clPatch U w o' pt patch) u now c"

text \<open>
  The writers of subresources always go to the cached client. \<open>Update\<close> and \<open>Patch\<close> give \<open>store\<close> the object as it
  was handed in: for a \<open>Holder\<close> the scheme knows no kind and nothing is stored.
\<close>

definition sub_write ::
  "('a) lib_scheme \<Rightarrow> ('w \<Rightarrow> kobj \<Rightarrow> err option \<times> kobj \<times> 'w) \<Rightarrow> held \<Rightarrow> int \<Rightarrow> 'w cacheClient
     \<Rightarrow> (err option \<times> kobj) \<times> 'w cacheClient" where
  "sub_write L call u now c =
     (case call (ccWorld c) (obj_of u) of
        (Some err, o', w) \<Rightarrow> ((Some err, o'), c\<lparr>ccWorld := w\<rparr>)
      | (None, o', w) \<Rightarrow>
          ((None, o'), if IsWrapped u then c\<lparr>ccWorld := w\<rparr> else cc_store L o' now (c\<lparr>ccWorld := w\<rparr>)))"

definition cc_StatusUpdate ::
  "('w, 'a) backend_scheme \<Rightarrow> held \<Rightarrow> int \<Rightarrow> 'w cacheClient \<Rightarrow> (err option \<times> kobj) \<times> 'w cacheClient" where
  "cc_StatusUpdate C u now c = sub_write C (bStatusUpdate C) u now c"

definition sub_Patch ::
  "('a) lib_scheme \<Rightarrow> ('w \<Rightarrow> kobj \<Rightarrow> patchType \<Rightarrow> string \<Rightarrow> err option \<times> kobj \<times> 'w) \<Rightarrow> patchType \<Rightarrow> string
     \<Rightarrow> held \<Rightarrow> int \<Rightarrow> 'w cacheClient \<Rightarrow> (err option \<times> kobj) \<times> 'w cacheClient" where
  "sub_Patch L call pt patch u now c = sub_write L (\<lambda>w o'. call w o' pt patch) u now c"

text \<open>What is written through a \<open>Holder\<close> is not remembered, even when its status is updated.\<close>

lemma holder_write_not_remembered: "IsWrapped u \<Longrightarrow> recent (snd (sub_write L call u now c)) = recent c"
  by (simp add: sub_write_def split: prod.split option.split)

text \<open>\<open>Get\<close> and \<open>Create\<close> remember nothing; \<open>sub\<close> is the object of the subresource.\<close>

definition sub_Get :: "('w \<Rightarrow> kobj \<Rightarrow> kobj \<Rightarrow> (err + kobj) \<times> 'w) \<Rightarrow> held \<Rightarrow> kobj \<Rightarrow> 'w cacheClient \<Rightarrow> (err + kobj) \<times> 'w cacheClient" where
  "sub_Get call u sub c = (case call (ccWorld c) (obj_of u) sub of (r, w) \<Rightarrow> (r, c\<lparr>ccWorld := w\<rparr>))"

definition sub_Create ::
  "('w \<Rightarrow> kobj \<Rightarrow> kobj \<Rightarrow> (err option \<times> kobj) \<times> 'w) \<Rightarrow> held \<Rightarrow> kobj \<Rightarrow> 'w cacheClient \<Rightarrow> (err option \<times> kobj) \<times> 'w cacheClient" where
  "sub_Create call u sub c = (case call (ccWorld c) (obj_of u) sub of (r, w) \<Rightarrow> (r, c\<lparr>ccWorld := w\<rparr>))"

text \<open>\<open>None\<close>: the writer has no \<open>Apply\<close>.\<close>

definition sub_Apply :: "('w \<Rightarrow> kobj \<Rightarrow> err option \<times> 'w) option \<Rightarrow> kobj \<Rightarrow> 'w cacheClient \<Rightarrow> err option \<times> 'w cacheClient" where
  "sub_Apply applier obj c =
     (case applier of
        Some call \<Rightarrow> (case call (ccWorld c) obj of (err, w) \<Rightarrow> (err, c\<lparr>ccWorld := w\<rparr>))
      | None \<Rightarrow> (Some (Err ''underlying SubResourceWriter does not support Apply operation''), c))"

definition cc_Delete ::
  "('w, 'a) backend_scheme \<Rightarrow> ('w, 'a) backend_scheme \<Rightarrow> gvk \<Rightarrow> held \<Rightarrow> 'w cacheClient
     \<Rightarrow> err option \<times> 'w cacheClient" where
  "cc_Delete C U g u c =
     (if IsUncached u
      then (case clDelete U (ccWorld c) g (key_of (obj_of u)) of (err, w) \<Rightarrow> (err, c\<lparr>ccWorld := w\<rparr>))
      else (case clDelete C (ccWorld c) g (key_of (obj_of u)) of
              (Some err, w) \<Rightarrow> (Some err, c\<lparr>ccWorld := w\<rparr>)
            | (None, w) \<Rightarrow> (None, deleteStore C (obj_of u) (c\<lparr>ccWorld := w\<rparr>))))"

definition cc_DeleteAllOf ::
  "('w, 'a) backend_scheme \<Rightarrow> ('w, 'a) backend_scheme \<Rightarrow> held \<Rightarrow> string \<Rightarrow> label_selector option
     \<Rightarrow> field_selector option \<Rightarrow> 'w cacheClient \<Rightarrow> err option \<times> 'w cacheClient" where
  "cc_DeleteAllOf C U u ns sel fs c =
     (case bDeleteAllOf (if IsUncached u then U else C) (ccWorld c) (obj_of u) ns sel fs of
        (err, w) \<Rightarrow> (err, c\<lparr>ccWorld := w\<rparr>))"

section \<open>Properties\<close>

definition plain_held :: "kobj \<Rightarrow> held" where
  "plain_held o' = \<lparr>obj_of = o', IsWrapped = False, IsList = False, uncached = False\<rparr>"

text \<open>Every remembered object is under its own kind and key.\<close>

definition recent_ok :: "('a) lib_scheme \<Rightarrow> 'w cacheClient \<Rightarrow> bool" where
  "recent_ok L c \<longleftrightarrow> gomap_ok (recent c) \<and>
     (\<forall>k v. (k, v) \<in> set (recent c) \<longrightarrow>
        (\<exists>g. gvkFor L (ovObject v) = Inr g \<and> k = objectKey_of g (ovObject v)))"

lemma recent_ok_world [simp]: "recent_ok L (c\<lparr>ccWorld := w\<rparr>) = recent_ok L c"
  by (simp add: recent_ok_def)

lemma cc_store_ok: "recent_ok L c \<Longrightarrow> recent_ok L (cc_store L obj now c)"
  by (auto simp: cc_store_def recent_ok_def split: sum.splits dest!: set_update_mem)

lemma deleteStore_ok: "recent_ok L c \<Longrightarrow> recent_ok L (deleteStore L obj c)"
  by (auto simp: deleteStore_def recent_ok_def AList.delete_eq distinct_map_filter split: sum.splits)

lemma map_of_filter_ok:
  "gomap_ok m \<Longrightarrow> map_of (filter P m) k = (case map_of m k of None \<Rightarrow> None | Some v \<Rightarrow> if P (k, v) then Some v else None)"
  by (induction m) (auto simp: map_of_eq_None_iff image_iff split: option.splits)

lemma purge_ok: "recent_ok L c \<Longrightarrow> recent_ok L (purge now c)"
  by (auto simp: recent_ok_def purge_def distinct_map_filter)

lemma cc_write_ok: "recent_ok L c \<Longrightarrow> recent_ok L (snd (cc_write L f h u now c))"
  by (auto simp: cc_write_def cc_store_ok split: prod.splits option.splits)

text \<open>A single read: as long as a write is
  remembered, a successful cached read of that object gives the remembered one, or one that
  is not older by its resource version; and when the cache does not have it yet the remembered one is
  returned, if the object handed in carries the key. Over time: \<open>read_your_writes\<close> in \<open>Cached_Runs\<close>.\<close>

theorem cc_Get_not_stale:
  assumes "cc_Get C U g key u c = (Inr x, c')" and "\<not> IsUncached u"
    and "clGet C (ccWorld c) g (GoType (obj_of u)) key = (r, w)"
    and "key_of (case r of Inl e \<Rightarrow> obj_of u | Inr o' \<Rightarrow> o') = key"
    and "gvkFor C (case r of Inl e \<Rightarrow> obj_of u | Inr o' \<Rightarrow> o') = Inr g'"
    and "map_of (recent c) \<lparr>okGVK = g', okNamespace = KeyNamespace key, okName = KeyName key\<rparr> = Some v"
    and "GoType (ovObject v) \<noteq> unstructuredType"
  shows "x = ovObject v \<or> (r = Inr x \<and> \<not> newer (ResourceVersion x) (ResourceVersion (ovObject v)))"
proof -
  let ?o = "case r of Inl e \<Rightarrow> obj_of u | Inr o' \<Rightarrow> o'"
  have k: "objectKey_of g' ?o = \<lparr>okGVK = g', okNamespace = KeyNamespace key, okName = KeyName key\<rparr>"
    using assms(4) by (auto simp: objectKey_of_def key_of_def)
  have copied: "CopyInto C o2 (ovObject v) = Inr y \<Longrightarrow> y = ovObject v" for o2 y
    using assms(7) by (auto simp: CopyInto_def split: if_splits)
  show ?thesis
  proof (cases r)
    case (Inl e)
    with assms(1-3,5,6) k show ?thesis
      by (auto simp: cc_Get_def Let_def split: if_splits dest: copied)
  next
    case (Inr o')
    with assms(1-3,5,6) k show ?thesis
      by (auto simp: cc_Get_def Let_def split: if_splits dest: copied)
  qed
qed

definition obj_gvk :: gvk where
  "obj_gvk = \<lparr>Group = [], Version = ''v1'', Kind = ''Object''\<rparr>"

definition cm_obj :: "string \<Rightarrow> kobj" where
  "cm_obj rv = empty_obj\<lparr>Name := ''cm'', ResourceVersion := rv\<rparr>"

lemma example_gvkFor [simp]: "GoType o' = ''Object'' \<Longrightarrow> gvkFor example_lib o' = Inr obj_gvk"
  by (simp add: example_lib_def obj_gvk_def)

theorem cc_Get_not_stale_witness:
  "let c = cc_store (memory_backend False) (cm_obj ''7'') 0 (newCacheClient [cm_obj ''5''])
   in \<exists>x. fst (cc_Get (memory_backend False) (memory_backend False) obj_gvk (mk_key [] ''cm'')
        (plain_held empty_obj) c) = Inr x \<and> ResourceVersion x \<noteq> ''5''"
proof -
  let ?B = "memory_backend False" and ?v = "\<lparr>ovObject = cm_obj ''7'', Inserted = 0\<rparr>"
  let ?c = "\<lparr>ccWorld = [cm_obj ''5''],
     recent = [(\<lparr>okGVK = obj_gvk, okNamespace = [], okName = ''cm''\<rparr>, ?v)]\<rparr>"
  have c: "cc_store ?B (cm_obj ''7'') 0 (newCacheClient [cm_obj ''5'']) = ?c"
    by (simp add: cc_store_def newCacheClient_def cm_obj_def objectKey_of_def)
  have get: "cc_Get ?B ?B obj_gvk (mk_key [] ''cm'') (plain_held empty_obj) ?c = (Inr (cm_obj ''7''), ?c)"
    by (simp add: cc_Get_def plain_held_def IsUncached_def Let_def key_of_def cm_obj_def
        objectKey_of_def CopyInto_def newer_def)
  have "cm_obj ''7'' = ovObject ?v \<or> (Inr (cm_obj ''5'') = (Inr (cm_obj ''7'') :: err + kobj) \<and>
       \<not> newer (ResourceVersion (cm_obj ''7'')) (ResourceVersion (ovObject ?v)))"
    by (rule cc_Get_not_stale [OF get, where r = "Inr (cm_obj ''5'')" and g' = obj_gvk and w = "[cm_obj ''5'']"])
      (simp_all add: plain_held_def IsUncached_def key_of_def cm_obj_def)
  with get show ?thesis unfolding c by (simp add: Let_def cm_obj_def)
qed

text \<open>C32: the remembered write is not found by the usual read: after a successful create, while the cache does
  not have the object yet, a \<open>Get\<close> into a fresh value (which carries no name) reports "not found",
  because the lookup uses the key of the value handed in and not the key asked for.\<close>

theorem cc_Get_misses_own_create:
  assumes "cc_Create C U (plain_held obj) now c = ((None, o'), c1)"
    and "clGet C (ccWorld c1) g (GoType fresh) (key_of o') = (Inl e, w)" and "IsNotFound (Some e)"
    and "gvkFor C fresh = Inr g" and "gvkFor C o' = Inr g"
    and "Name fresh = []" and "recent c = []" and "Name o' \<noteq> []"
  shows "map_of (recent c1) (objectKey_of g o') = Some \<lparr>ovObject = o', Inserted = now\<rparr> \<and>
    fst (cc_Get C U g (key_of o') (plain_held fresh) c1) = Inl e"
proof -
  have "recent c1 = [(objectKey_of g o', \<lparr>ovObject = o', Inserted = now\<rparr>)]"
    using assms(1,5,7)
    by (auto simp: cc_Create_def cc_write_def plain_held_def IsUncached_def cc_store_def
        split: prod.splits option.splits)
  moreover have "objectKey_of g fresh \<noteq> objectKey_of g o'"
    using assms(6,8) by (auto simp: objectKey_of_def)
  ultimately show ?thesis
    using assms(2-4) by (simp add: cc_Get_def plain_held_def IsUncached_def Let_def)
qed

text \<open>A backend whose cache lags: it finds nothing.\<close>

definition lagging :: "kobj list backend" where
  "lagging = (memory_backend False)\<lparr>clGet := \<lambda>w g t k. (Inl (ApiErr NotFound ''not found''), w)\<rparr>"

theorem cc_Get_misses_own_create_witness:
  "let c1 = snd (cc_Create lagging lagging (plain_held (cm_obj ''7'')) 0 (newCacheClient []))
   in fst (cc_Get lagging lagging obj_gvk (mk_key [] ''cm'') (plain_held empty_obj) c1) =
        Inl (ApiErr NotFound ''not found'')"
proof -
  let ?c1 = "\<lparr>ccWorld = [cm_obj ''7''],
     recent = [(objectKey_of obj_gvk (cm_obj ''7''), \<lparr>ovObject = cm_obj ''7'', Inserted = 0\<rparr>)]\<rparr>"
  have create: "cc_Create lagging lagging (plain_held (cm_obj ''7'')) 0 (newCacheClient []) = ((None, cm_obj ''7''), ?c1)"
    by (simp add: cc_Create_def cc_write_def plain_held_def IsUncached_def newCacheClient_def cc_store_def
        lagging_def cm_obj_def)
  from cc_Get_misses_own_create [OF create, of obj_gvk empty_obj "ApiErr NotFound ''not found''" "ccWorld ?c1"]
  show ?thesis
    unfolding create by (simp add: lagging_def key_of_def cm_obj_def newCacheClient_def)
qed

text \<open>A remembered write is kept for ten seconds and then dropped: a purge keeps exactly the entries that
  were inserted at most ten seconds before, and every entry stays under the kind and key of its object.\<close>

theorem purge_exact:
  assumes "recent_ok L c"
  shows "map_of (recent (purge now c)) k =
      (case map_of (recent c) k of
         None \<Rightarrow> None | Some v \<Rightarrow> if now - Inserted v \<le> 10 then Some v else None) \<and>
    recent_ok L (purge now c)"
proof -
  have "gomap_ok (recent c)" using assms by (simp add: recent_ok_def)
  then show ?thesis
    using purge_ok [OF assms]
    by (auto simp: purge_def map_of_filter_ok cacheDuration_def split: option.splits)
qed

theorem purge_exact_witness:
  "recent (purge 11 (cc_store example_lib (cm_obj ''7'') 0 (newCacheClient ()))) = []"
proof -
  have "recent_ok example_lib (cc_store example_lib (cm_obj ''7'') 0 (newCacheClient ()))"
    by (rule cc_store_ok) (simp add: recent_ok_def newCacheClient_def)
  from purge_exact [OF this, of 11 "objectKey_of obj_gvk (cm_obj ''7'')"] show ?thesis
    by (simp add: purge_def cacheDuration_def cc_store_def cm_obj_def newCacheClient_def)
qed

section \<open>Every state of the client\<close>

text \<open>One operation of the client, or one turn of the purge.\<close>

inductive cache_step ::
  "('w, 'a) backend_scheme \<Rightarrow> ('w, 'a) backend_scheme \<Rightarrow> 'w cacheClient \<Rightarrow> 'w cacheClient \<Rightarrow> bool"
  for C U where
  step_Get: "cache_step C U c (snd (cc_Get C U g key u c))"
| step_List: "cache_step C U c (snd (cc_List C U g ns sel fs u c))"
| step_Create: "cache_step C U c (snd (cc_Create C U u now c))"
| step_Update: "cache_step C U c (snd (cc_Update C U u now c))"
| step_Patch: "cache_step C U c (snd (cc_Patch C U pt patch u now c))"
| step_Delete: "cache_step C U c (snd (cc_Delete C U g u c))"
| step_DeleteAllOf: "cache_step C U c (snd (cc_DeleteAllOf C U u ns sel fs c))"
| step_sub_write: "cache_step C U c (snd (sub_write C call u now c))"
| step_sub_Get: "cache_step C U c (snd (sub_Get get u sub c))"
| step_sub_Create: "cache_step C U c (snd (sub_Create create u sub c))"
| step_sub_Apply: "cache_step C U c (snd (sub_Apply applier obj c))"
| step_purge: "cache_step C U c (purge now c)"

lemma cc_Get_recent: "recent (snd (cc_Get C U g key u c)) = recent c"
  by (simp add: cc_Get_def Let_def split: prod.split sum.split option.split)

lemma recent_ok_recent: "recent c' = recent c \<Longrightarrow> recent_ok L c' = recent_ok L c"
  by (simp add: recent_ok_def)

lemma cache_step_ok:
  assumes "cache_step C U c c'" and "recent_ok C c"
  shows "recent_ok C c'"
  using assms
proof cases
  case step_Get
  with assms(2) show ?thesis using recent_ok_recent cc_Get_recent by blast
qed (auto simp: cc_List_def cc_Create_def cc_Update_def cc_Patch_def cc_write_ok cc_Delete_def cc_DeleteAllOf_def
    sub_write_def sub_Get_def sub_Create_def sub_Apply_def cc_store_ok deleteStore_ok purge_ok split: prod.split option.split)

text \<open>In every state the client can get into, whatever its two clients answer, each remembered object stands under its own
  kind, namespace and name.\<close>

theorem recent_always_ok:
  assumes "(cache_step C U)\<^sup>*\<^sup>* (newCacheClient w) c"
  shows "recent_ok C c"
  using assms
proof (induction rule: rtranclp_induct)
  case base
  show ?case by (simp add: newCacheClient_def recent_ok_def)
next
  case (step c c')
  then show ?case by (blast intro: cache_step_ok)
qed

theorem recent_always_ok_witness:
  "recent_ok (memory_backend False) (snd (cc_Create (memory_backend False) (memory_backend False) (plain_held (cm_obj ''7'')) 0
     (newCacheClient [])))"
  by (rule recent_always_ok [where U = "memory_backend False" and w = "[]"]) (rule r_into_rtranclp, rule step_Create)

end
