(* ===== verification/Cached_Runs.thy ===== *)
theory Cached_Runs
  imports Cached_Client
begin

text \<open>
  pkg/runtime/cached.go over time: the calls of the clients, the accesses to the remembered writes (each under
  \<open>recentLock\<close>) and the purge of \<open>startPurge\<close> as single steps that may interleave in any order, with a clock. An operation of the
  client is a call followed by at most one access, so every interleaving of operations is such a run
  (\<open>cache_step_run\<close>), and what a client has written it reads for ten seconds (\<open>read_your_writes\<close>).
\<close>

section \<open>Runs\<close>

datatype cacheEvent = Remember objectKey kobj | Forget objectKey

text \<open>
  The state is the time and the client. A call may do anything to the world; the purge reads the clock before it has the lock,
  \<open>store\<close> when it has it. The events list the accesses that change what is remembered, except the purges.
\<close>

inductive cache_run ::
  "('a) lib_scheme \<Rightarrow> int \<times> 'w cacheClient \<Rightarrow> cacheEvent list \<Rightarrow> int \<times> 'w cacheClient \<Rightarrow> bool"
  for L s where
  run_none: "cache_run L s [] s"
| run_clock: "cache_run L s es (now, c) \<Longrightarrow> now \<le> later \<Longrightarrow> cache_run L s es (later, c)"
| run_call: "cache_run L s es (now, c) \<Longrightarrow> cache_run L s es (now, c\<lparr>ccWorld := w\<rparr>)"
| run_store: "cache_run L s es (now, c) \<Longrightarrow> gvkFor L obj = Inr g \<Longrightarrow>
    cache_run L s (es @ [Remember (objectKey_of g obj) obj]) (now, cc_store L obj now c)"
| run_delete: "cache_run L s es (now, c) \<Longrightarrow> gvkFor L obj = Inr g \<Longrightarrow>
    cache_run L s (es @ [Forget (objectKey_of g obj)]) (now, deleteStore L obj c)"
| run_purge: "cache_run L s es (now, c) \<Longrightarrow> t \<le> now \<Longrightarrow> cache_run L s es (now, purge t c)"

text \<open>The objects remembered under a key in the course of a run, the last one last.\<close>

fun written :: "objectKey \<Rightarrow> cacheEvent list \<Rightarrow> kobj list" where
  "written k [] = []"
| "written k (Remember k' o' # es) = (if k' = k then o' # written k es else written k es)"
| "written k (Forget k' # es) = written k es"

lemma written_append [simp]: "written k (es @ es') = written k es @ written k es'"
  by (induction k es rule: written.induct) auto

section \<open>Operations are runs\<close>

text \<open>What \<open>store\<close> and \<open>deleteStore\<close> add to the events: nothing for an object whose kind is not known.\<close>

definition store_events :: "('a) lib_scheme \<Rightarrow> kobj \<Rightarrow> cacheEvent list" where
  "store_events L obj = (case gvkFor L obj of Inl _ \<Rightarrow> [] | Inr g \<Rightarrow> [Remember (objectKey_of g obj) obj])"

definition delete_events :: "('a) lib_scheme \<Rightarrow> kobj \<Rightarrow> cacheEvent list" where
  "delete_events L obj = (case gvkFor L obj of Inl _ \<Rightarrow> [] | Inr g \<Rightarrow> [Forget (objectKey_of g obj)])"

lemma cc_store_run:
  "cache_run L s es (now, c) \<Longrightarrow> cache_run L s (es @ store_events L obj) (now, cc_store L obj now c)"
  using run_store [of L s es now c obj]
  by (cases "gvkFor L obj") (simp_all add: store_events_def cc_store_def)

lemma deleteStore_run:
  "cache_run L s es (now, c) \<Longrightarrow> cache_run L s (es @ delete_events L obj) (now, deleteStore L obj c)"
  using run_delete [of L s es now c obj]
  by (cases "gvkFor L obj") (simp_all add: delete_events_def deleteStore_def)

text \<open>A write adds the object as the call left it, unless the call failed or the holder is uncached; the writer of a
  subresource adds nothing for a holder of either sort; only the cached \<open>Delete\<close> forgets.\<close>

lemma cc_write_run:
  assumes "cache_run L s es (now, c)"
  shows "cache_run L s
      (es @ (case cc_write L f h u now c of ((err, o'), _) \<Rightarrow>
               if err = None \<and> \<not> IsUncached u then store_events L o' else []))
      (now, snd (cc_write L f h u now c))"
  using run_call [OF assms] cc_store_run [OF run_call [OF assms]]
  by (simp add: cc_write_def split: prod.split option.split)

lemma sub_write_run:
  assumes "cache_run L s es (now, c)"
  shows "cache_run L s
      (es @ (case sub_write L call u now c of ((err, o'), _) \<Rightarrow>
               if err = None \<and> \<not> IsWrapped u then store_events L o' else []))
      (now, snd (sub_write L call u now c))"
  using run_call [OF assms] cc_store_run [OF run_call [OF assms]]
  by (simp add: sub_write_def split: prod.split option.split)

lemma cc_Delete_run:
  assumes "cache_run C s es (now, c)"
  shows "cache_run C s
      (es @ (if fst (cc_Delete C U g u c) = None \<and> \<not> IsUncached u then delete_events C (obj_of u) else []))
      (now, snd (cc_Delete C U g u c))"
  using run_call [OF assms] deleteStore_run [OF run_call [OF assms]]
  by (simp add: cc_Delete_def split: prod.split option.split)

lemma world_run: "cache_run L s es (now, c) \<Longrightarrow> \<exists>w. c' = c\<lparr>ccWorld := w\<rparr> \<Longrightarrow> cache_run L s es (now, c')"
  by (auto intro: run_call)

text \<open>The other operations change the world only.\<close>

lemma cc_Get_world: "\<exists>w. snd (cc_Get C U g key u c) = c\<lparr>ccWorld := w\<rparr>"
  by (auto simp: cc_Get_def Let_def split: prod.split sum.split option.split)

lemma cc_List_world: "\<exists>w. snd (cc_List C U g ns sel fs u c) = c\<lparr>ccWorld := w\<rparr>"
  by (auto simp: cc_List_def split: prod.split)

lemma cc_DeleteAllOf_world: "\<exists>w. snd (cc_DeleteAllOf C U u ns sel fs c) = c\<lparr>ccWorld := w\<rparr>"
  by (auto simp: cc_DeleteAllOf_def split: prod.split)

lemma sub_Get_world: "\<exists>w. snd (sub_Get call u sub c) = c\<lparr>ccWorld := w\<rparr>"
  by (auto simp: sub_Get_def split: prod.split)

lemma sub_Create_world: "\<exists>w. snd (sub_Create call u sub c) = c\<lparr>ccWorld := w\<rparr>"
  by (auto simp: sub_Create_def split: prod.split)

lemma sub_Apply_world: "\<exists>w. snd (sub_Apply applier obj c) = c\<lparr>ccWorld := w\<rparr>"
proof (cases applier)
  case None
  then show ?thesis by (auto simp: sub_Apply_def intro!: exI [of _ "ccWorld c"])
qed (auto simp: sub_Apply_def split: prod.split)

text \<open>So every operation, at the time it is done, continues a run.\<close>

theorem cache_step_run:
  assumes "cache_step C U c c'"
  shows "\<exists>now es. cache_run C (now, c) es (now, c')"
  using assms
proof cases
  case (step_Create u now)
  then show ?thesis unfolding cc_Create_def using cc_write_run [OF run_none] by blast
next
  case (step_Update u now)
  then show ?thesis unfolding cc_Update_def using cc_write_run [OF run_none] by blast
next
  case (step_Patch pt patch u now)
  then show ?thesis unfolding cc_Patch_def using cc_write_run [OF run_none] by blast
next
  case (step_Delete g u)
  then show ?thesis using cc_Delete_run [OF run_none] by blast
next
  case (step_sub_write call u now)
  then show ?thesis using sub_write_run [OF run_none] by blast
next
  case (step_purge now)
  then show ?thesis using run_purge [OF run_none order_refl] by blast
next
  case step_Get
  then show ?thesis using world_run [OF run_none cc_Get_world] by blast
next
  case step_List
  then show ?thesis using world_run [OF run_none cc_List_world] by blast
next
  case step_DeleteAllOf
  then show ?thesis using world_run [OF run_none cc_DeleteAllOf_world] by blast
next
  case step_sub_Get
  then show ?thesis using world_run [OF run_none sub_Get_world] by blast
next
  case step_sub_Create
  then show ?thesis using world_run [OF run_none sub_Create_world] by blast
next
  case step_sub_Apply
  then show ?thesis using world_run [OF run_none sub_Apply_world] by blast
qed

section \<open>What is remembered\<close>

lemma set_update_ok [simp]: "gomap_ok m \<Longrightarrow> gomap_ok (AList.update k v m)"
  by (rule distinct_update)

text \<open>Ten seconds long a remembered object is only replaced by a later one of the same key, unless it is forgotten.\<close>

lemma run_remembers:
  assumes "cache_run L (t0, c0) es s'" and "gomap_ok (recent c0)"
    and "map_of (recent c0) k = Some \<lparr>ovObject = o1, Inserted = t0\<rparr>"
    and "Forget k \<notin> set es" and "fst s' \<le> t0 + 10"
  shows "t0 \<le> fst s' \<and> gomap_ok (recent (snd s')) \<and>
    (\<exists>t. t0 \<le> t \<and> map_of (recent (snd s')) k = Some \<lparr>ovObject = last (o1 # written k es), Inserted = t\<rparr>)"
  using assms
proof (induction es s' rule: cache_run.induct)
  case (run_store es now c obj g)
  then show ?case
    by (auto simp: cc_store_def update_conv' split: if_splits)
next
  case (run_delete es now c obj g)
  then show ?case
    by (auto simp: deleteStore_def AList.delete_eq distinct_map_filter map_of_filter_ok)
next
  case (run_purge es now c t)
  then show ?case
    by (auto simp: purge_def distinct_map_filter map_of_filter_ok cacheDuration_def)
qed auto

lemma run_gomap_ok:
  assumes "cache_run L (t0, newCacheClient w) es s'"
  shows "gomap_ok (recent (snd s'))"
  using assms
proof (induction es s' rule: cache_run.induct)
  case (run_store es now c obj g)
  then show ?case by (simp add: cc_store_def)
next
  case (run_delete es now c obj g)
  then show ?case by (simp add: deleteStore_def AList.delete_eq distinct_map_filter)
next
  case (run_purge es now c t)
  then show ?case by (simp add: purge_def distinct_map_filter)
qed (auto simp: newCacheClient_def)

section \<open>The purge\<close>

text \<open>What the \<open>select\<close> of \<open>startPurge\<close> delivers, turn by turn: the end of the context, or ten seconds more, at the
  time read then. The goroutine has no other end; an empty list is the loop so far.\<close>

datatype purgeTurn = CtxDone | TimeAfter int

fun startPurge :: "purgeTurn list \<Rightarrow> 'w cacheClient \<Rightarrow> 'w cacheClient" where
  "startPurge [] c = c"
| "startPurge (CtxDone # turns) c = c"
| "startPurge (TimeAfter now # turns) c = startPurge turns (purge now c)"

text \<open>The loop keeps what none of its turns found older than ten seconds; after the end of the context it keeps everything.\<close>

lemma startPurge_keeps:
  "recent (startPurge (map TimeAfter ts @ CtxDone # rest) c) =
     filter (\<lambda>(k, v). \<forall>t \<in> set ts. t \<le> Inserted v + cacheDuration) (recent c)"
  by (induction ts arbitrary: c) (auto simp: purge_def intro!: filter_cong)

lemma startPurge_run:
  "cache_run L s es (now, c) \<Longrightarrow> \<forall>t. TimeAfter t \<in> set turns \<longrightarrow> t \<le> now \<Longrightarrow> cache_run L s es (now, startPurge turns c)"
  by (induction turns c rule: startPurge.induct) (auto intro: run_purge)

section \<open>Reading one's own writes\<close>

text \<open>The object a \<open>Get\<close> looks at when the cache has answered: what was found, or the value handed in.\<close>

definition seen :: "err + kobj \<Rightarrow> held \<Rightarrow> kobj" where
  "seen r u = (case r of Inl e \<Rightarrow> obj_of u | Inr o' \<Rightarrow> o')"

text \<open>The cached \<open>Get\<close> while an object is remembered under the key looked at: it succeeds, with the remembered one, or with the
  found one if that is not older.\<close>

lemma cc_Get_finds:
  assumes "clGet C (ccWorld c) g (GoType (obj_of u)) key = (r, w)" and "\<not> IsUncached u"
    and "case r of Inl e \<Rightarrow> IsNotFound (Some e) | Inr _ \<Rightarrow> True"
    and "gvkFor C (seen r u) = Inr g'" and "map_of (recent c) (objectKey_of g' (seen r u)) = Some v"
    and "GoType (ovObject v) = GoType (seen r u)" and "GoType (seen r u) \<noteq> unstructuredType"
  shows "\<exists>x. fst (cc_Get C U g key u c) = Inr x \<and>
    (x = ovObject v \<or> r = Inr x \<and> \<not> newer (ResourceVersion x) (ResourceVersion (ovObject v)))"
proof (cases r)
  case (Inl e)
  with assms show ?thesis by (simp add: cc_Get_def Let_def seen_def CopyInto_def)
next
  case (Inr o')
  with assms show ?thesis by (simp add: cc_Get_def Let_def seen_def CopyInto_def)
qed

lemma cc_write_recent:
  assumes "cc_write L call callU u now c = ((None, o'), c1)" and "\<not> IsUncached u" and "gvkFor L o' = Inr g"
  shows "recent c1 = AList.update (objectKey_of g o') \<lparr>ovObject = o', Inserted = now\<rparr> (recent c)"
  using assms by (auto simp: cc_write_def cc_store_def split: prod.splits option.splits)



section \<open>What is not forgotten\<close>

text \<open>\<open>DeleteAllOf\<close>, and the \<open>Delete\<close> of an uncached holder, leave what is remembered as it is: while an object
  that has been deleted in this way is remembered, a \<open>Get\<close> into a value that carries its key gives the deleted
  object, without an error, although the cache knows that it is gone.\<close>

theorem DeleteAllOf_resurrects:
  assumes "cc_DeleteAllOf C U u ns sel fs c = (None, c1)"
    and "clGet C (ccWorld c1) g (GoType (obj_of v)) key = (Inl e, w)" and "IsNotFound (Some e)" and "\<not> IsUncached v"
    and "gvkFor C (obj_of v) = Inr g'" and "map_of (recent c) (objectKey_of g' (obj_of v)) = Some old"
    and "GoType (ovObject old) = GoType (obj_of v)" and "GoType (obj_of v) \<noteq> unstructuredType"
  shows "fst (cc_Get C U g key v c1) = Inr (ovObject old)"
proof -
  obtain w' where "snd (cc_DeleteAllOf C U u ns sel fs c) = c\<lparr>ccWorld := w'\<rparr>" using cc_DeleteAllOf_world by metis
  with assms(1) have "recent c1 = recent c" by simp
  with cc_Get_finds [OF assms(2,4), of g' old U] assms(3,5-8) show ?thesis by (simp add: seen_def)
qed

end
