(* ===== verification/Untriggered.thy ===== *)
theory Untriggered
  imports Cached_Client
begin

text \<open>
  pkg/untriggered/untriggered.go: wrappers that a handler puts around what it hands to its client, to read without being
  triggered by what it reads, or past the cache. The clients take one layer off; their models take a
  \<open>held\<close> (Cached_Client) or a \<open>robj\<close> (Router_Client), which \<open>held_of\<close> makes of a value with at most one layer.
\<close>

section \<open>Wrapping and unwrapping\<close>

text \<open>A \<open>Holder\<close> embeds a \<open>client.Object\<close>, which may be a \<open>Holder\<close> again; a \<open>HolderList\<close> a \<open>client.ObjectList\<close>.\<close>

datatype handed =
    PlainObject kobj
  | PlainList kobj
  | Holder handed bool
  | HolderList handed bool

fun is_client_Object :: "handed \<Rightarrow> bool" where
  "is_client_Object (PlainObject o') = True"
| "is_client_Object (Holder x u) = True"
| "is_client_Object _ = False"

text \<open>What the fields' types say.\<close>

fun well_typed :: "handed \<Rightarrow> bool" where
  "well_typed (Holder x u) = (is_client_Object x \<and> well_typed x)"
| "well_typed (HolderList x u) = (\<not> is_client_Object x \<and> well_typed x)"
| "well_typed _ = True"

definition untriggered_Get :: "handed \<Rightarrow> handed" where
  "untriggered_Get obj = Holder obj False"

definition UncachedGet :: "handed \<Rightarrow> handed" where
  "UncachedGet obj = Holder obj True"

definition untriggered_List :: "handed \<Rightarrow> handed" where
  "untriggered_List obj = HolderList obj False"

definition UncachedList :: "handed \<Rightarrow> handed" where
  "UncachedList obj = HolderList obj True"

definition untriggered_IsWrapped :: "handed \<Rightarrow> bool" where
  "untriggered_IsWrapped obj = (case obj of Holder h u \<Rightarrow> True | HolderList h u \<Rightarrow> True | _ \<Rightarrow> False)"

definition untriggered_IsUncached :: "handed \<Rightarrow> bool" where
  "untriggered_IsUncached obj = (case obj of Holder h u \<Rightarrow> u | HolderList h u \<Rightarrow> u | _ \<Rightarrow> False)"

definition Unwrap :: "handed \<Rightarrow> handed" where
  "Unwrap obj = (case obj of Holder h u \<Rightarrow> h | HolderList h u \<Rightarrow> h | _ \<Rightarrow> obj)"

definition UnwrapList :: "handed \<Rightarrow> handed" where
  "UnwrapList obj = (case obj of HolderList h u \<Rightarrow> h | _ \<Rightarrow> obj)"

text \<open>\<open>DeepCopyObject\<close>: the type assertion on the copy of what is inside panics (\<open>None\<close>) on the wrong interface.\<close>

fun DeepCopyObject :: "handed \<Rightarrow> handed option" where
  "DeepCopyObject (Holder h u) =
     (case DeepCopyObject h of None \<Rightarrow> None | Some c \<Rightarrow> if is_client_Object c then Some (Holder c u) else None)"
| "DeepCopyObject (HolderList h u) =
     (case DeepCopyObject h of None \<Rightarrow> None | Some c \<Rightarrow> if is_client_Object c then None else Some (HolderList c u))"
| "DeepCopyObject obj = Some obj"

text \<open>A copy is made without a panic, of every value, and keeps each wrapper with its flag.\<close>

theorem DeepCopyObject_total:
  assumes "well_typed x"
  shows "DeepCopyObject x = Some x"
  using assms by (induction x) auto

theorem DeepCopyObject_total_witness:
  "DeepCopyObject (UncachedGet (PlainObject empty_obj)) = Some (UncachedGet (PlainObject empty_obj))"
  by (rule DeepCopyObject_total) (simp add: UncachedGet_def)

section \<open>What the clients see\<close>

fun held_of :: "handed \<Rightarrow> held option" where
  "held_of (PlainObject o') = Some \<lparr>obj_of = o', IsWrapped = False, IsList = False, uncached = False\<rparr>"
| "held_of (PlainList o') = Some \<lparr>obj_of = o', IsWrapped = False, IsList = True, uncached = False\<rparr>"
| "held_of (Holder (PlainObject o') u) = Some \<lparr>obj_of = o', IsWrapped = True, IsList = False, uncached = u\<rparr>"
| "held_of (HolderList (PlainList o') u) = Some \<lparr>obj_of = o', IsWrapped = True, IsList = True, uncached = u\<rparr>"
| "held_of _ = None"

text \<open>The record the clients' models work on answers as the functions of the package do.\<close>

theorem held_of_agrees:
  assumes "held_of x = Some h"
  shows "IsWrapped h = untriggered_IsWrapped x" and "Cached_Client.IsUncached h = untriggered_IsUncached x"
    and "held_of (Unwrap x) = Some (h\<lparr>IsWrapped := False, uncached := False\<rparr>)"
  using assms
  by (cases x rule: held_of.cases;
      auto simp: untriggered_IsWrapped_def untriggered_IsUncached_def Unwrap_def Cached_Client.IsUncached_def)+

theorem held_of_agrees_witness:
  "IsWrapped (the (held_of (untriggered_Get (PlainObject empty_obj)))) \<and>
   \<not> Cached_Client.IsUncached (the (held_of (untriggered_Get (PlainObject empty_obj))))"
  using held_of_agrees(1,2) [of "untriggered_Get (PlainObject empty_obj)"]
  by (simp add: untriggered_Get_def untriggered_IsWrapped_def untriggered_IsUncached_def)

text \<open>Two layers are one too many: a wrapper around a wrapper unwraps to a wrapper, whatever the flags.\<close>

lemma Unwrap_one_layer: "untriggered_IsWrapped x \<Longrightarrow> untriggered_IsWrapped (Unwrap (untriggered_Get x))"
  by (simp add: Unwrap_def untriggered_Get_def)

text \<open>A handler that reads through \<open>untriggered.Get\<close> or \<open>UncachedGet\<close> is not subscribed to what it reads: its triggers,
  the kinds that are watched and those the request has asked about are the same as before, whether the read succeeds
  or not; only the world may have changed.\<close>

theorem untriggered_read_leaves_triggers:
  assumes "held_of x = Some h" and "untriggered_IsWrapped x"
    and "reader_Get B t (robj.truncate h) g key rs = (r, rs')"
  shows "rs' = rs\<lparr>rworld := rworld rs'\<rparr>"
proof -
  have "IsWrapped (robj.truncate h)"
    using held_of_agrees(1) [OF assms(1)] assms(2) by (simp add: robj.truncate_def)
  then show ?thesis
    using assms(3) by (auto simp: reader_Get_def watched_def triggerRegistry_Watch_wrapped split: prod.splits)
qed

theorem untriggered_read_leaves_triggers_witness:
  "rtriggers (snd (reader_Get (memory_backend False) \<lparr>regGVK = cm_gvk, regKey = ''ns/app''\<rparr>
     (robj.truncate (the (held_of (untriggered_Get (PlainObject empty_obj))))) cm_gvk (mk_key [] ''cm'') (empty_rstate []))) =
   \<lparr>matchers = [], toTrigger = []\<rparr>"
proof -
  let ?x = "untriggered_Get (PlainObject empty_obj)"
  let ?h = "\<lparr>obj_of = empty_obj, IsWrapped = True, IsList = False, uncached = False\<rparr> :: held"
  have h: "held_of ?x = Some ?h" by (simp add: untriggered_Get_def)
  obtain r rs' where g: "reader_Get (memory_backend False) \<lparr>regGVK = cm_gvk, regKey = ''ns/app''\<rparr> (robj.truncate ?h) cm_gvk
      (mk_key [] ''cm'') (empty_rstate []) = (r, rs')" by fastforce
  have "rs' = (empty_rstate [])\<lparr>rworld := rworld rs'\<rparr>"
    by (rule untriggered_read_leaves_triggers [OF h _ g]) (simp add: untriggered_Get_def untriggered_IsWrapped_def)
  then have "rtriggers rs' = rtriggers (empty_rstate [] :: kobj list rstate)"
    by (metis rstate.ext_inject rstate.surjective rstate.update_convs(1))
  with g h show ?thesis by (simp add: empty_rstate_def)
qed

end
