(* ===== verification/Queue_Rest.thy ===== *)
theory Queue_Rest
  imports Queue_Delivery
begin

text \<open>
  What the steps of \<open>Queue_Delivery\<close> come to: a controller that has nothing left to do has delivered everything it was asked for,
  and as long as no pass fails it gets there. At the end a list-based queue that obeys the contract, and a run on it.
\<close>

section \<open>One pass per key\<close>

lemma distinct_map_split:
  "(\<And>xs u ys v. zs = xs @ u # ys \<Longrightarrow> v \<in> set ys \<Longrightarrow> f v \<noteq> f u) \<Longrightarrow> distinct (map f zs)"
proof (induction zs)
  case Nil
  then show ?case by simp
next
  case (Cons z zs)
  have "distinct (map f zs)"
  proof (rule Cons.IH)
    fix xs u ys v assume "zs = xs @ u # ys" "v \<in> set ys"
    then show "f v \<noteq> f u" using Cons.prems [of "z # xs" u ys v] by simp
  qed
  moreover have "f v \<noteq> f z" if "v \<in> set zs" for v
    using Cons.prems [of "[]" z zs v] that by simp
  ultimately show ?case by fastforce
qed

text \<open>C6: a key is never handled twice at the same time: in every state two workers have different keys, however the
  requests for a key, its retries and the passes over it overlap.\<close>

theorem one_pass_per_key:
  assumes "delivers Q metaKey onChange sp s" and "queue_contract Q view" and "meta_key_law metaKey"
    and "case sp of None \<Rightarrow> True | Some sp' \<Rightarrow> splitter_ok sp'"
  shows "distinct (map wkKey (dWorkers s))"
proof -
  have inv: "shape s" "held_once view s" "homes view s" using delivery_invariant [OF assms] by simp_all
  from other_worker [OF this] show ?thesis by (intro distinct_map_split) blast
qed

section \<open>At rest\<close>

lemma at_rest_empty:
  assumes "at_rest Q metaKey onChange s" and "queue_contract Q view" and "shape s" and "held_once view s"
    and "workqueues (dCtl s) \<noteq> None"
  shows "\<not> in_flight view s key"
proof -
  have no: "\<not> work_step Q metaKey onChange ok s s'" for ok s' using assms(1) by (simp add: at_rest_def)
  have heard: "dNotes s = []"
  proof (cases "dNotes s")
    case (Cons ev evs)
    from work_step.notify [OF this] no show ?thesis by blast
  qed simp
  have workers: "dWorkers s = []"
  proof (cases "dWorkers s")
    case (Cons u us)
    then have u: "dWorkers s = [] @ u # us" by simp
    show ?thesis
    proof (cases "wkPhase u")
      case Taken
      let ?x = "case KeyParse (wkKey u) of (ns, n) \<Rightarrow> dStore s (mk_key ns n)"
      have "cache_answers (dStore s) (wkKey u) (case ?x of Some obj \<Rightarrow> Inr obj | None \<Rightarrow> Inl (ApiErr NotFound []))"
        by (auto simp: cache_answers_def split: prod.split option.split)
      from work_step.read [OF u Taken this] no show ?thesis by blast
    next
      case (HasRead n r)
      obtain e calls w where "processSingleItem (\<lambda>_ _. r) onChange (Some (wkKey u)) (dWorld s) = (e, calls, w)"
        by (metis prod_cases3)
      from work_step.finish [OF u HasRead this] no show ?thesis by blast
    qed
  qed simp
  have boxes: "inbox (dCtl s) ! i = []" if "i < length (inbox (dCtl s))" for i
  proof -
    obtain qs where qs: "workqueues (dCtl s) = Some qs" using assms(5) by blast
    show ?thesis
    proof (cases "qs ! i")
      case (Cons call calls)
      have "i < length qs" using that by (simp add: inbox_def qs)
      from work_step.perform [OF qs this Cons] no show ?thesis by blast
    qed (simp add: inbox_def qs)
  qed
  have "key \<notin> keys_in (view (dQueues s ! i))" if i: "i < length (dQueues s)" for i
  proof -
    have "\<not> 0 < holders s i key"
      using i boxes assms(3) workers by (simp add: holders_def shape_def)
    then have "key \<notin> qvProcessing (view (dQueues s ! i))"
      using assms(4) i by (auto simp: held_once_def)
    moreover have "wqGet Q (dQueues s ! i) = None"
    proof (rule ccontr)
      assume "wqGet Q (dQueues s ! i) \<noteq> None"
      then obtain k q where "wqGet Q (dQueues s ! i) = Some (k, q)" by auto
      from work_step.get [OF i this] no show False by blast
    qed
    moreover have "wqExpire Q key (dQueues s ! i) = None"
    proof (rule ccontr)
      assume "wqExpire Q key (dQueues s ! i) \<noteq> None"
      then obtain q where "wqExpire Q key (dQueues s ! i) = Some q" by auto
      from work_step.expire [OF i this] no show False by blast
    qed
    ultimately show ?thesis
      using contract_get [OF assms(2), of "dQueues s ! i"] contract_expire [OF assms(2), of key "dQueues s ! i"]
      by (auto simp: keys_in_def)
  qed
  moreover have "\<not> to_add (dCtl s) key" using assms(5) boxes by (auto simp: to_add_def has_call_def)
  ultimately show ?thesis using heard workers by (auto simp: in_flight_def in_set_conv_nth)
qed

lemma at_rest_handled:
  assumes "delivers Q metaKey onChange sp s" and "queue_contract Q view" and "meta_key_law metaKey"
    and "case sp of None \<Rightarrow> True | Some sp' \<Rightarrow> splitter_ok sp'"
    and "workqueues (dCtl s) \<noteq> None" and "at_rest Q metaKey onChange s" and "0 < dAsked s key"
  shows "\<exists>obj. dHandled s key = Some (dAsked s key, obj)"
proof -
  have "shape s" "held_once view s" "covered view s key" using delivery_invariant [OF assms(1-4)] by simp_all
  then show ?thesis
    using at_rest_empty [OF assms(6,2) _ _ assms(5), of key] assms(7) by (auto simp: covered_def)
qed


text \<open>Any step, and what a run of them keeps: requests are only added, and a trigger or replay key is handed on without an object.\<close>

definition delivery_step ::
  "'q work_queue \<Rightarrow> (kobj \<Rightarrow> err + string) \<Rightarrow> (string \<Rightarrow> kobj option \<Rightarrow> 'w \<Rightarrow> err option \<times> 'w)
     \<Rightarrow> ('q, 'w) delivery \<Rightarrow> ('q, 'w) delivery \<Rightarrow> bool" where
  "delivery_step Q metaKey onChange s s' \<longleftrightarrow> outside_step Q s s' \<or> (\<exists>ok. work_step Q metaKey onChange ok s s')"

lemma delivers_steps:
  "(delivery_step Q metaKey onChange)\<^sup>*\<^sup>* s s' \<Longrightarrow> delivers Q metaKey onChange sp s \<Longrightarrow> delivers Q metaKey onChange sp s'"
  by (induction rule: rtranclp_induct) (auto simp: delivery_step_def intro: delivers.intros)

lemma asked_steps: "(delivery_step Q metaKey onChange)\<^sup>*\<^sup>* s s' \<Longrightarrow> dAsked s key \<le> dAsked s' key"
proof (induction rule: rtranclp_induct)
  case base
  show ?case ..
next
  case (step t u)
  have "dAsked t key \<le> dAsked u key"
    using step(2) unfolding delivery_step_def
    by (auto simp: asked_work ask_def elim!: outside_step.cases)
  with step(3) show ?case by (rule order_trans)
qed

lemma special_handled:
  assumes "delivers Q metaKey onChange sp s" and "isSpecialKey key" and "dHandled s key = Some (m, obj)"
  shows "obj = None"
  using assms(1,3)
proof (induction rule: delivers.induct)
  case (outside s s')
  then show ?case by (auto elim!: outside_step.cases)
next
  case (work s ok s')
  then show ?case using assms(2)
    by (auto simp: handed_on_def elim!: work_step.cases split: if_splits)
qed (simp add: new_delivery_def)

section \<open>Coming to rest\<close>

definition call_weight :: "queue_call \<Rightarrow> nat" where
  "call_weight call = (if added_key call = None then 1 else 14)"

definition view_weight :: "queue_view \<Rightarrow> nat" where
  "view_weight v = 6 * card (qvDirty v) + 7 * card (qvWaiting v)"

fun phase_weight :: "phase \<Rightarrow> nat" where
  "phase_weight Taken = 5"
| "phase_weight (HasRead n r) = 4"

text \<open>A bound on the steps that are left, if no pass fails.\<close>

definition work_left :: "('q \<Rightarrow> queue_view) \<Rightarrow> ('q, 'w) delivery \<Rightarrow> nat" where
  "work_left view s = 15 * length (dNotes s) + (\<Sum>calls\<leftarrow>inbox (dCtl s). \<Sum>call\<leftarrow>calls. call_weight call) +
     (\<Sum>q\<leftarrow>dQueues s. view_weight (view q)) + (\<Sum>u\<leftarrow>dWorkers s. phase_weight (wkPhase u))"

lemma sum_list_update_nat:
  fixes f :: "'a \<Rightarrow> nat"
  shows "i < length xs \<Longrightarrow> sum_list (map f (xs[i := y])) + f (xs ! i) = sum_list (map f xs) + f y"
proof (induction xs arbitrary: i)
  case (Cons x xs)
  then show ?case by (cases i) auto
qed simp

lemma finite_work:
  assumes "delivers Q metaKey onChange sp s" and "queue_contract Q view"
  shows "\<forall>q \<in> set (dQueues s). finite (keys_in (view q))"
  using assms(1)
proof (induction rule: delivers.induct)
  case (outside s s')
  from outside(2,3) show ?case by cases (auto simp: new_keys [OF assms(2)])
next
  case (work s ok s')
  from work(2,3) show ?case
  proof cases
    case (perform qs i call calls)
    then show ?thesis using work(3) call_keys(1) [OF assms(2)]
      by (cases "i < length (dQueues s)") (auto simp: list_update_beyond dest!: set_update_subset_insert [THEN subsetD])
  next
    case (expire i key q)
    then show ?thesis using work(3) expire_keys(1) [OF assms(2) expire(4)] by (auto dest!: set_update_subset_insert [THEN subsetD])
  next
    case (get i key q)
    have "finite (keys_in (view (dQueues s ! i)))" using work(3) get(3) by simp
    then have "finite (keys_in (view q))" unfolding get_keys(2) [OF assms(2) get(4)] by simp
    then show ?thesis using work(3) get(2) by (auto dest!: set_update_subset_insert [THEN subsetD])
  qed auto
qed (simp add: new_delivery_def)

lemma inbox_weight_add:
  fixes f :: "queue_call \<Rightarrow> nat"
  assumes "i < length qs"
  shows "(\<Sum>calls\<leftarrow>qs[i := qs ! i @ added]. \<Sum>call\<leftarrow>calls. f call) = (\<Sum>calls\<leftarrow>qs. \<Sum>call\<leftarrow>calls. f call) + (\<Sum>call\<leftarrow>added. f call)"
  using sum_list_update_nat [OF assms, of "\<lambda>calls. \<Sum>call\<leftarrow>calls. f call" "qs ! i @ added"] by simp

lemma put_key_weight:
  "(\<Sum>calls\<leftarrow>inbox (put_key key (QAdd key) d c). \<Sum>call\<leftarrow>calls. call_weight call) \<le>
     (\<Sum>calls\<leftarrow>inbox c. \<Sum>call\<leftarrow>calls. call_weight call) + 14"
proof (cases "workqueues c")
  case None
  then show ?thesis by (simp add: put_key_def inbox_def)
next
  case (Some qs)
  then show ?thesis
    by (cases "spSplit (qsplitter c) key < length qs")
      (simp_all add: put_key_def inbox_def push_def inbox_weight_add call_weight_def list_update_beyond)
qed

lemma view_weight_call:
  assumes "queue_contract Q view" and "finite (keys_in (view q))"
  shows "view_weight (view (wqCall Q call q)) < view_weight (view q) + call_weight call"
proof (cases "added_key call")
  case None
  then show ?thesis using contract_call [OF assms(1), of call q]
    by (cases call) (auto simp: call_law_def view_weight_def call_weight_def)
next
  case (Some key)
  let ?v = "view (wqCall Q call q)"
  have fin: "finite (qvDirty (view q))" "finite (qvWaiting (view q))" using assms(2) by (simp_all add: keys_in_def)
  have "qvDirty ?v \<in> {qvDirty (view q), insert key (qvDirty (view q))} \<and>
      qvWaiting ?v \<in> {qvWaiting (view q), insert key (qvWaiting (view q))}"
    using contract_call [OF assms(1), of call q] Some by (cases call) (auto simp: call_law_def Let_def)
  then have "card (qvDirty ?v) \<le> Suc (card (qvDirty (view q)))" "card (qvWaiting ?v) \<le> Suc (card (qvWaiting (view q)))"
    using fin by (auto simp: card_insert_if)
  then show ?thesis using Some by (simp add: view_weight_def call_weight_def)
qed

lemma view_weight_expire:
  assumes "queue_contract Q view" and "finite (keys_in (view q))" and "wqExpire Q k q = Some q'"
  shows "view_weight (view q') < view_weight (view q)"
proof -
  have fin: "finite (qvDirty (view q))" "finite (qvWaiting (view q))" using assms(2) by (simp_all add: keys_in_def)
  have "card (qvDirty (view q')) \<le> Suc (card (qvDirty (view q)))"
    using fin(1) by (simp add: expire_keys(4) [OF assms(1,3)] card_insert_if)
  moreover have "Suc (card (qvWaiting (view q'))) = card (qvWaiting (view q))"
    using fin(2) expire_keys(3) [OF assms(1,3)] unfolding expire_keys(5) [OF assms(1,3)] by (rule card_Suc_Diff1)
  ultimately show ?thesis by (simp add: view_weight_def)
qed

lemma view_weight_get:
  assumes "queue_contract Q view" and "finite (keys_in (view q))" and "wqGet Q q = Some (k, q')"
  shows "view_weight (view q') + 6 = view_weight (view q)"
proof -
  have "finite (qvDirty (view q))" using assms(2) by (simp add: keys_in_def)
  then have "Suc (card (qvDirty (view q'))) = card (qvDirty (view q))"
    using get_keys(5) [OF assms(1,3)] unfolding get_keys(6) [OF assms(1,3)] by (rule card_Suc_Diff1)
  then show ?thesis by (simp add: view_weight_def get_keys(7) [OF assms(1,3)])
qed

lemma work_left_decreases:
  assumes "work_step Q metaKey onChange ok s s'" and "queue_contract Q view" and "meta_key_law metaKey"
    and "shape s" and "\<forall>q \<in> set (dQueues s). finite (keys_in (view q))" and ok
  shows "work_left view s' < work_left view s"
  using assms(1)
proof cases
  case (notify ev evs)
  have "(\<Sum>calls\<leftarrow>inbox (handleObject metaKey ev (dCtl s)). \<Sum>call\<leftarrow>calls. call_weight call) \<le>
      (\<Sum>calls\<leftarrow>inbox (dCtl s). \<Sum>call\<leftarrow>calls. call_weight call) + 14"
    using put_key_weight by (simp add: handleObject_put [OF assms(3)] split: option.split)
  then show ?thesis using notify by (simp add: work_left_def)
next
  case (perform qs i call calls)
  have i: "i < length (dQueues s)" using perform assms(4) by (simp add: shape_def inbox_def)
  have "view_weight (view (wqCall Q call (dQueues s ! i))) < view_weight (view (dQueues s ! i)) + call_weight call"
    using view_weight_call [OF assms(2)] assms(5) i by simp
  moreover note sum_list_update_nat [OF i, of "\<lambda>q. view_weight (view q)" "wqCall Q call (dQueues s ! i)"]
    sum_list_update_nat [OF perform(4), of "\<lambda>calls. \<Sum>call\<leftarrow>calls. call_weight call" calls]
  ultimately show ?thesis using perform by (simp add: work_left_def inbox_def)
next
  case (expire i key q)
  have "view_weight (view q) < view_weight (view (dQueues s ! i))"
    using view_weight_expire [OF assms(2) _ expire(4)] assms(5) expire(3) by simp
  with sum_list_update_nat [OF expire(3), of "\<lambda>q. view_weight (view q)" q] show ?thesis
    using expire(2) by (simp add: work_left_def)
next
  case (get i key q)
  have "view_weight (view q) + 6 = view_weight (view (dQueues s ! i))"
    using view_weight_get [OF assms(2) _ get(4)] assms(5) get(3) by simp
  with sum_list_update_nat [OF get(3), of "\<lambda>q. view_weight (view q)" q] show ?thesis
    using get(2) by (simp add: work_left_def)
next
  case (read xs u ys r)
  then show ?thesis by (simp add: work_left_def)
next
  case (finish xs u ys n r e calls w)
  have u: "wkQueue u < length (inbox (dCtl s))" using assms(4) finish by (auto simp: shape_def)
  have "inbox (dCtl s') = (inbox (dCtl s))[wkQueue u := inbox (dCtl s) ! wkQueue u @ calls]"
    using finish(2) by (auto simp: calls_on_def inbox_def split: option.split)
  moreover have "(\<Sum>call\<leftarrow>calls. call_weight call) = 2"
    using pass_calls [OF finish(5)] finish(1) assms(6) by (simp add: call_weight_def)
  ultimately show ?thesis
    using finish(2-4) inbox_weight_add [OF u, of call_weight calls] by (simp add: work_left_def)
qed

text \<open>C5: as long as no pass fails and nobody asks for more, a controller comes to rest: it does at most \<open>work_left\<close> steps more,
  whichever they are, a number that is known from the notifications, calls, keys and workers there are.\<close>

theorem comes_to_rest:
  assumes "delivers Q metaKey onChange sp s" and "queue_contract Q view" and "meta_key_law metaKey"
    and "case sp of None \<Rightarrow> True | Some sp' \<Rightarrow> splitter_ok sp'"
    and "(work_step Q metaKey onChange True ^^ n) s s'"
  shows "n + work_left view s' \<le> work_left view s"
  using assms(5)
proof (induction n arbitrary: s')
  case 0
  then show ?case by simp
next
  case (Suc n)
  then obtain t where t: "(work_step Q metaKey onChange True ^^ n) s t" "work_step Q metaKey onChange True t s'" by auto
  have later: "delivers Q metaKey onChange sp t"
    using t(1)
  proof (induction n arbitrary: t)
    case 0
    then show ?case using assms(1) by simp
  next
    case (Suc n)
    then show ?case by (auto intro: delivers.work)
  qed
  then have "work_left view s' < work_left view t"
    using work_left_decreases [OF t(2) assms(2,3)] delivery_invariant [OF later assms(2-4)] finite_work [OF later assms(2)] by simp
  with Suc.IH [OF t(1)] show ?case by simp
qed

section \<open>A queue that obeys the contract\<close>

record lqueue =
  lqDirty :: "string list"
  lqProcessing :: "string list"
  lqWaiting :: "string list"

definition lq_view :: "lqueue \<Rightarrow> queue_view" where
  "lq_view q = \<lparr>qvDirty = set (lqDirty q), qvProcessing = set (lqProcessing q), qvWaiting = set (lqWaiting q)\<rparr>"

definition lq_add :: "string \<Rightarrow> lqueue \<Rightarrow> lqueue" where
  "lq_add k q = (if k \<in> set (lqDirty q) then q else q\<lparr>lqDirty := lqDirty q @ [k]\<rparr>)"

definition lq_wait :: "string \<Rightarrow> lqueue \<Rightarrow> lqueue" where
  "lq_wait k q = q\<lparr>lqWaiting := List.insert k (lqWaiting q)\<rparr>"

fun lq_call :: "queue_call \<Rightarrow> lqueue \<Rightarrow> lqueue" where
  "lq_call (QAdd k) q = lq_add k q"
| "lq_call (QAddAfter k d) q = (if d \<le> 0 then lq_add k q else lq_wait k q)"
| "lq_call (QAddRateLimited k) q = lq_wait k q"
| "lq_call (QForget k) q = q"
| "lq_call (QDone k) q = q\<lparr>lqProcessing := removeAll k (lqProcessing q)\<rparr>"

definition list_queue :: "lqueue work_queue" where
  "list_queue = \<lparr>wqNew = \<lparr>lqDirty = [], lqProcessing = [], lqWaiting = []\<rparr>, wqCall = lq_call,
     wqGet = (\<lambda>q. case find (\<lambda>k. k \<notin> set (lqProcessing q)) (lqDirty q) of
        None \<Rightarrow> None
      | Some k \<Rightarrow> Some (k, q\<lparr>lqDirty := removeAll k (lqDirty q), lqProcessing := k # lqProcessing q\<rparr>)),
     wqExpire = (\<lambda>k q. if k \<in> set (lqWaiting q)
        then Some ((lq_add k q)\<lparr>lqWaiting := removeAll k (lqWaiting q)\<rparr>) else None)\<rparr>"

lemma list_queue_contract: "queue_contract list_queue lq_view"
  unfolding queue_contract_def
proof (intro conjI allI)
  show "call_law call (lq_view q) (lq_view (wqCall list_queue call q))" for call q
    by (cases call) (auto simp: list_queue_def call_law_def Let_def lq_view_def lq_add_def lq_wait_def)
qed (auto simp: list_queue_def lq_view_def lq_add_def find_None_iff find_Some_iff split: option.split)

section \<open>A run\<close>

text \<open>A controller on such a queue, with a handler that counts its calls; \<open>ex_state\<close> has one queue, and no key waits for a start.\<close>

definition ex_metaKey :: "kobj \<Rightarrow> err + string" where
  "ex_metaKey obj = Inr (okey (key_of obj))"

definition ex_onChange :: "string \<Rightarrow> kobj option \<Rightarrow> nat \<Rightarrow> err option \<times> nat" where
  "ex_onChange key obj n = (None, n + 1)"

definition ex_state ::
  "(ObjectKey \<Rightarrow> kobj option) \<Rightarrow> (string \<Rightarrow> nat) \<Rightarrow> informer_event list \<Rightarrow> controller \<Rightarrow> lqueue list \<Rightarrow> worker list \<Rightarrow> nat
     \<Rightarrow> (string \<Rightarrow> (nat \<times> kobj option) option) \<Rightarrow> (lqueue, nat) delivery" where
  "ex_state store asked evs c qs us n h = \<lparr>dStore = store, dNotes = evs, dCtl = c, dQueues = qs,
     dWorkers = us, dWorld = n, dAsked = asked, dHandled = h\<rparr>"

definition ex_ctl :: "queue_call list \<Rightarrow> controller" where
  "ex_ctl calls = (new_controller None)\<lparr>workqueues := Some [calls]\<rparr>"

definition ex_q :: "string list \<Rightarrow> string list \<Rightarrow> lqueue" where
  "ex_q d p = \<lparr>lqDirty = d, lqProcessing = p, lqWaiting = []\<rparr>"

abbreviation ex_delivers :: "(lqueue, nat) delivery \<Rightarrow> bool" where
  "ex_delivers \<equiv> delivers list_queue ex_metaKey ex_onChange None"

abbreviation ex_step :: "(lqueue, nat) delivery \<Rightarrow> (lqueue, nat) delivery \<Rightarrow> bool" where
  "ex_step \<equiv> work_step list_queue ex_metaKey ex_onChange True"

lemma ex_law: "meta_key_law ex_metaKey"
  by (simp add: meta_key_law_def ex_metaKey_def)

lemma ex_perform:
  "ex_step (ex_state st a [] (ex_ctl (call # calls)) [q] us n h) (ex_state st a [] (ex_ctl calls) [lq_call call q] us n h)"
  using work_step.perform [of "ex_state st a [] (ex_ctl (call # calls)) [q] us n h" "[call # calls]" 0 call calls
      list_queue ex_metaKey ex_onChange]
  by (simp add: ex_state_def ex_ctl_def list_queue_def)

lemma ex_get:
  "ex_step (ex_state st a [] c [ex_q [key] []] [] n h)
     (ex_state st a [] c [ex_q [] [key]] [\<lparr>wkQueue = 0, wkKey = key, wkPhase = Taken\<rparr>] n h)"
  using work_step.get [of 0 "ex_state st a [] c [ex_q [key] []] [] n h" list_queue key "ex_q [] [key]" ex_metaKey ex_onChange]
  by (simp add: ex_state_def list_queue_def ex_q_def)

lemma ex_read:
  "cache_answers st key r \<Longrightarrow>
     ex_step (ex_state st a [] c qs [\<lparr>wkQueue = 0, wkKey = key, wkPhase = Taken\<rparr>] n h)
       (ex_state st a [] c qs [\<lparr>wkQueue = 0, wkKey = key, wkPhase = HasRead (a key) r\<rparr>] n h)"
  using work_step.read [of "ex_state st a [] c qs [\<lparr>wkQueue = 0, wkKey = key, wkPhase = Taken\<rparr>] n h" "[]"
      "\<lparr>wkQueue = 0, wkKey = key, wkPhase = Taken\<rparr>" "[]" r list_queue ex_metaKey ex_onChange]
  by (simp add: ex_state_def)

lemma ex_finish:
  "processSingleItem (\<lambda>_ _. r) ex_onChange (Some key) n = (None, [QForget key, QDone key], n + 1) \<Longrightarrow>
     ex_step (ex_state st a [] (ex_ctl []) qs [\<lparr>wkQueue = 0, wkKey = key, wkPhase = HasRead m r\<rparr>] n h)
       (ex_state st a [] (ex_ctl [QForget key, QDone key]) qs [] (n + 1) (h(key \<mapsto> (m, handed_on key r))))"
  using work_step.finish [of "ex_state st a [] (ex_ctl []) qs [\<lparr>wkQueue = 0, wkKey = key, wkPhase = HasRead m r\<rparr>] n h" "[]"
      "\<lparr>wkQueue = 0, wkKey = key, wkPhase = HasRead m r\<rparr>" "[]" m r ex_onChange None "[QForget key, QDone key]" "n + 1"
      list_queue ex_metaKey]
  by (simp add: ex_state_def calls_on_def ex_ctl_def)

lemmas ex_steps = relpowp_Suc_I2 [where P = ex_step]

lemma ex_run_taken:
  assumes "lq_call call (ex_q [] []) = ex_q [key] []"
  shows "(ex_step ^^ Suc (Suc 0)) (ex_state st a [] (ex_ctl [call]) [ex_q [] []] [] n h)
    (ex_state st a [] (ex_ctl []) [ex_q [] [key]] [\<lparr>wkQueue = 0, wkKey = key, wkPhase = Taken\<rparr>] n h)"
  by (rule ex_steps [OF ex_perform [of st a call "[]"] ex_steps [OF _ relpowp_0_I]]) (simp add: assms ex_get)

lemma ex_run_pass:
  assumes "cache_answers st key r"
    and "processSingleItem (\<lambda>_ _. r) ex_onChange (Some key) n = (None, [QForget key, QDone key], n + 1)"
  shows "(ex_step ^^ Suc (Suc (Suc (Suc 0))))
    (ex_state st a [] (ex_ctl []) [ex_q [] [key]] [\<lparr>wkQueue = 0, wkKey = key, wkPhase = Taken\<rparr>] n h)
    (ex_state st a [] (ex_ctl []) [ex_q [] []] [] (n + 1) (h(key \<mapsto> (a key, handed_on key r))))"
proof -
  let ?h = "h(key \<mapsto> (a key, handed_on key r))"
  have 3: "ex_step (ex_state st a [] (ex_ctl [QForget key, QDone key]) [ex_q [] [key]] [] (n + 1) ?h)
      (ex_state st a [] (ex_ctl [QDone key]) [ex_q [] [key]] [] (n + 1) ?h)"
    using ex_perform [of st a "QForget key" "[QDone key]" "ex_q [] [key]"] by simp
  have 4: "ex_step (ex_state st a [] (ex_ctl [QDone key]) [ex_q [] [key]] [] (n + 1) ?h)
      (ex_state st a [] (ex_ctl []) [ex_q [] []] [] (n + 1) ?h)"
    using ex_perform [of st a "QDone key" "[]" "ex_q [] [key]"] by (simp add: ex_q_def)
  show ?thesis
    by (rule ex_steps [OF ex_read [OF assms(1)] ex_steps [OF ex_finish [OF assms(2)] ex_steps [OF 3 ex_steps [OF 4 relpowp_0_I]]]])
qed

lemma ex_delivers_run: "(ex_step ^^ n) s s' \<Longrightarrow> ex_delivers s \<Longrightarrow> ex_delivers s'"
  by (induction n arbitrary: s') (auto intro: delivers.work)

lemma ex_at_rest: "at_rest list_queue ex_metaKey ex_onChange (ex_state st a [] (ex_ctl []) [ex_q [] []] [] n h)"
  by (auto simp: at_rest_def ex_state_def ex_ctl_def ex_q_def list_queue_def elim!: work_step.cases)

lemma ex_started_empty: "ex_delivers (ex_state (\<lambda>_. None) (\<lambda>_. 0) [] (ex_ctl []) [ex_q [] []] [] 0 (\<lambda>_. None))"
proof -
  have "outside_step list_queue (new_delivery None 0)
      (ex_state (\<lambda>_. None) (\<lambda>_. 0) [] (ex_ctl []) [ex_q [] []] [] 0 (\<lambda>_. None))"
    using outside_step.start [of "new_delivery None (0 :: nat)" list_queue]
    by (simp add: new_delivery_def ex_state_def ex_ctl_def ex_q_def new_controller_def run_start_def
        singleWorkerQueueSplitter_def list_queue_def)
  then show ?thesis by (rule delivers.outside [OF delivers.new])
qed

subsection \<open>A change before the start\<close>

text \<open>A config map changes before its controller runs; afterwards the controller hands it to the handler.\<close>

definition ex_obj :: kobj where
  "ex_obj = empty_obj\<lparr>Namespace := ''ns'', Name := ''a''\<rparr>"

definition ex_store :: "ObjectKey \<Rightarrow> kobj option" where
  "ex_store = (\<lambda>_. None)(mk_key ''ns'' ''a'' := Some ex_obj)"

definition ex_asked :: "string \<Rightarrow> nat" where
  "ex_asked = (\<lambda>_. 0)(''ns/a'' := 1)"

definition ex_first :: "(lqueue, nat) delivery" where
  "ex_first = ex_state ex_store ex_asked [EvObject ex_obj] (ex_ctl []) [ex_q [] []] [] 0 (\<lambda>_. None)"

definition ex_taken :: "(lqueue, nat) delivery" where
  "ex_taken = ex_state ex_store ex_asked [] (ex_ctl []) [ex_q [] [''ns/a'']] [\<lparr>wkQueue = 0, wkKey = ''ns/a'', wkPhase = Taken\<rparr>] 0 (\<lambda>_. None)"

definition ex_rest :: "(lqueue, nat) delivery" where
  "ex_rest = ex_state ex_store ex_asked [] (ex_ctl []) [ex_q [] []] [] 1 [''ns/a'' \<mapsto> (1, Some ex_obj)]"

lemma ex_started: "ex_delivers ex_first"
proof -
  let ?changed = "ex_state ex_store ex_asked [EvObject ex_obj] (new_controller None) [] [] 0 (\<lambda>_. None)"
  have "outside_step list_queue (new_delivery None 0) ?changed"
    using outside_step.change [of "mk_key ''ns'' ''a''" "EvObject ex_obj" ex_obj list_queue "new_delivery None (0 :: nat)" "Some ex_obj"]
    by (simp add: plain_okey_def plain_key_def no_slash_def ex_obj_def ex_state_def new_delivery_def ask_def keyFunc_def
        ex_store_def ex_asked_def)
  moreover have "outside_step list_queue ?changed ex_first"
    using outside_step.start [of ?changed list_queue]
    by (simp add: ex_first_def ex_state_def ex_ctl_def ex_q_def new_controller_def run_start_def singleWorkerQueueSplitter_def
        list_queue_def)
  ultimately show ?thesis by (blast intro: delivers.intros)
qed

lemma ex_parse: "KeyParse ''ns/a'' = (''ns'', ''a'')"
  using KeyParse_keyFunc [of "''ns''" "''a''"] by (simp add: plain_key_def no_slash_def keyFunc_def)

lemma ex_first_taken: "(ex_step ^^ 3) ex_first ex_taken"
proof -
  have "ex_step ex_first (ex_state ex_store ex_asked [] (ex_ctl [QAdd ''ns/a'']) [ex_q [] []] [] 0 (\<lambda>_. None))"
    using work_step.notify [of ex_first "EvObject ex_obj" "[]" list_queue ex_metaKey ex_onChange]
    by (simp add: ex_first_def ex_state_def ex_ctl_def handleObject_def enqueue_def ex_metaKey_def ex_obj_def keyFunc_def
        new_controller_def push_def singleWorkerQueueSplitter_def)
  from ex_steps [OF this ex_run_taken [of "QAdd ''ns/a''" "''ns/a''"]]
  show ?thesis by (simp add: ex_taken_def ex_q_def lq_add_def numeral_eq_Suc del: relpowp.simps)
qed

lemma ex_taken_rest: "(ex_step ^^ 4) ex_taken ex_rest"
proof -
  have "cache_answers ex_store ''ns/a'' (Inr ex_obj)" by (simp add: cache_answers_def ex_parse ex_store_def)
  from ex_run_pass [OF this, of 0 ex_asked "\<lambda>_. None"]
  show ?thesis
    by (simp add: processSingleItem_def syncHandler_def ex_parse ex_onChange_def isSpecialKey_def handed_on_def
        ex_taken_def ex_rest_def ex_asked_def numeral_eq_Suc del: relpowp.simps)
qed

lemma ex_run: "(ex_step ^^ 7) ex_first ex_rest"
proof -
  have "(ex_step ^^ (3 + 4)) ex_first ex_rest"
    unfolding relpowp_add using ex_first_taken ex_taken_rest by (rule relcomppI)
  then show ?thesis by simp
qed


theorem comes_to_rest_witness: "7 + work_left lq_view ex_rest \<le> work_left lq_view ex_first"
  by (rule comes_to_rest [OF ex_started list_queue_contract ex_law _ ex_run]) simp

theorem one_pass_per_key_witness: "distinct (map wkKey (dWorkers ex_taken)) \<and> dWorkers ex_taken \<noteq> []"
  using one_pass_per_key [OF ex_delivers_run [OF ex_first_taken ex_started] list_queue_contract ex_law]
  by (simp add: ex_taken_def ex_state_def)

end
