(* ===== verification/Worker_Pool.thy ===== *)
theory Worker_Pool
  imports Work_Queue
begin

text \<open>
  The workers of a controller, \<open>runWorkers\<close> in pkg/runtime/controller.go, as a step relation: one loop for each queue, a
  semaphore that holds as many tokens as the queue may have workers, the workers, the wait group they share, and the
  main thread, which waits for its context, shuts the queues down one after the other and waits for the workers. What a
  worker does at its end, \<open>queue.Done\<close>, the release of its token and \<open>wait.Done\<close>, are steps of their own. \<open>'k\<close> is the
  type of keys.
  A queue is library code; of its documented behaviour the relation has that an item is not given out again while a worker
  has it, and that a queue that is shutting down may still give what it holds.
\<close>

section \<open>The pool\<close>

text \<open>Where the loop of a queue stands: it waits for an item, has one, has a token for it, has seen that the queue is not
  shutting down, or has returned.\<close>

datatype 'k queue_loop = Getting | Got 'k | Acquired 'k | Checked 'k | Stopped

text \<open>The main thread waits for its context, has shut down so many queues, waits for the workers, or has returned.\<close>

datatype main_thread = Waiting | Shutting nat | Shut | Returned

record 'k queue_state =
  qLoop :: "'k queue_loop"
  qShut :: bool          \<comment> \<open>\<open>ShutDown\<close> has been called\<close>
  qRunning :: nat        \<comment> \<open>tokens in the semaphore\<close>
  qWorkers :: "'k list"  \<comment> \<open>the keys that workers have\<close>
  qDone :: nat           \<comment> \<open>workers that have called \<open>queue.Done\<close> and hold their token\<close>
  qReleased :: nat       \<comment> \<open>workers that have released it and are still in the wait group\<close>

record 'k pool =
  pQueues :: "'k queue_state list"
  pWait :: nat
  pMain :: main_thread

definition pool_start :: "nat \<Rightarrow> 'k pool" where
  "pool_start n = \<lparr>pQueues = replicate n \<lparr>qLoop = Getting, qShut = False, qRunning = 0, qWorkers = [], qDone = 0,
     qReleased = 0\<rparr>, pWait = 0, pMain = Waiting\<rparr>"

fun loop_has :: "'k queue_loop \<Rightarrow> 'k list" where
  "loop_has (Got k) = [k]"
| "loop_has (Acquired k) = [k]"
| "loop_has (Checked k) = [k]"
| "loop_has _ = []"

text \<open>The context has ended; all queues have been shut down.\<close>

definition ended :: "'k pool \<Rightarrow> bool" where
  "ended p \<longleftrightarrow> pMain p \<noteq> Waiting"

definition shutting :: "'k pool \<Rightarrow> bool" where
  "shutting p \<longleftrightarrow> pMain p = Shut \<or> pMain p = Returned"

text \<open>What one loop or worker does: its queue and the change of the wait group.\<close>

inductive queue_step :: "nat \<Rightarrow> 'k queue_state \<Rightarrow> 'k queue_state \<Rightarrow> int \<Rightarrow> bool" for cap :: nat where
  Get: "qLoop q = Getting \<Longrightarrow> k \<notin> set (qWorkers q) \<Longrightarrow> queue_step cap q (q\<lparr>qLoop := Got k\<rparr>) 0"
| GetShutdown: "qLoop q = Getting \<Longrightarrow> qShut q \<Longrightarrow> queue_step cap q (q\<lparr>qLoop := Stopped\<rparr>) 0"
| Acquire: "qLoop q = Got k \<Longrightarrow> qRunning q < cap \<Longrightarrow>
    queue_step cap q (q\<lparr>qLoop := Acquired k, qRunning := qRunning q + 1\<rparr>) 0"
| Drop: "qLoop q = Acquired k \<Longrightarrow> qShut q \<Longrightarrow> queue_step cap q (q\<lparr>qLoop := Stopped\<rparr>) 0"
| Check: "qLoop q = Acquired k \<Longrightarrow> \<not> qShut q \<Longrightarrow> queue_step cap q (q\<lparr>qLoop := Checked k\<rparr>) 0"
| Spawn: "qLoop q = Checked k \<Longrightarrow> queue_step cap q (q\<lparr>qLoop := Getting, qWorkers := k # qWorkers q\<rparr>) 1"
| Finish: "k \<in> set (qWorkers q) \<Longrightarrow>
    queue_step cap q (q\<lparr>qWorkers := remove1 k (qWorkers q), qDone := qDone q + 1\<rparr>) 0"
| Release: "0 < qDone q \<Longrightarrow>
    queue_step cap q (q\<lparr>qDone := qDone q - 1, qRunning := qRunning q - 1, qReleased := qReleased q + 1\<rparr>) 0"
| Leave: "0 < qReleased q \<Longrightarrow> queue_step cap q (q\<lparr>qReleased := qReleased q - 1\<rparr>) (- 1)"

inductive pool_step :: "nat \<Rightarrow> 'k pool \<Rightarrow> 'k pool \<Rightarrow> bool" for cap :: nat where
  Queue: "i < length (pQueues p) \<Longrightarrow> queue_step cap (pQueues p ! i) q d \<Longrightarrow>
    pool_step cap p (p\<lparr>pQueues := (pQueues p)[i := q], pWait := nat (int (pWait p) + d)\<rparr>)"
| End: "pMain p = Waiting \<Longrightarrow> pool_step cap p (p\<lparr>pMain := Shutting 0\<rparr>)"
| ShutDown: "pMain p = Shutting i \<Longrightarrow> i < length (pQueues p) \<Longrightarrow>
    pool_step cap p (p\<lparr>pQueues := (pQueues p)[i := (pQueues p ! i)\<lparr>qShut := True\<rparr>], pMain := Shutting (Suc i)\<rparr>)"
| AllShut: "pMain p = Shutting i \<Longrightarrow> i = length (pQueues p) \<Longrightarrow> pool_step cap p (p\<lparr>pMain := Shut\<rparr>)"
| Return: "pMain p = Shut \<Longrightarrow> pWait p = 0 \<Longrightarrow> pool_step cap p (p\<lparr>pMain := Returned\<rparr>)"

inductive_simps queue_step_iff: "queue_step cap q q' d"
inductive_simps pool_step_iff: "pool_step cap p p'"

section \<open>The invariant\<close>

definition token :: "'k queue_loop \<Rightarrow> nat" where
  "token l = (case l of Acquired k \<Rightarrow> 1 | Checked k \<Rightarrow> 1 | _ \<Rightarrow> 0)"

text \<open>The workers in the wait group. A loop that returned may keep the token of the item it dropped.\<close>

definition in_group :: "'k queue_state \<Rightarrow> nat" where
  "in_group q = length (qWorkers q) + qDone q + qReleased q"

definition queue_ok :: "nat \<Rightarrow> 'k queue_state \<Rightarrow> bool" where
  "queue_ok cap q \<longleftrightarrow> length (qWorkers q) + qDone q + token (qLoop q) \<le> qRunning q \<and> qRunning q \<le> cap \<and>
     (qLoop q \<noteq> Stopped \<longrightarrow> qRunning q = length (qWorkers q) + qDone q + token (qLoop q))"

definition main_ok :: "'k pool \<Rightarrow> bool" where
  "main_ok p \<longleftrightarrow> (case pMain p of
       Waiting \<Rightarrow> True
     | Shutting i \<Rightarrow> i \<le> length (pQueues p) \<and> (\<forall>j < i. qShut (pQueues p ! j))
     | _ \<Rightarrow> \<forall>j < length (pQueues p). qShut (pQueues p ! j))"

definition pool_ok :: "nat \<Rightarrow> 'k pool \<Rightarrow> bool" where
  "pool_ok cap p \<longleftrightarrow> (\<forall>q \<in> set (pQueues p). queue_ok cap q) \<and> pWait p = (\<Sum>q\<leftarrow>pQueues p. in_group q) \<and> main_ok p"

lemma queue_step_ok:
  assumes "queue_step cap q q' d" and "queue_ok cap q"
  shows "queue_ok cap q' \<and> int (in_group q') = int (in_group q) + d \<and> (qShut q \<longrightarrow> qShut q')"
  using assms
proof (induction rule: queue_step.induct)
  case (Finish k q)
  then obtain n where "length (qWorkers q) = Suc n" by (cases "qWorkers q") auto
  with Finish show ?case
    by (auto simp: queue_ok_def token_def in_group_def length_remove1 split: queue_loop.splits)
next
  case (Release q)
  then show ?case by (cases "qDone q") (auto simp: queue_ok_def token_def in_group_def split: queue_loop.splits)
next
  case (Leave q)
  then show ?case by (cases "qReleased q") (auto simp: queue_ok_def in_group_def)
qed (auto simp: queue_ok_def token_def in_group_def)

lemma pool_start_ok: "pool_ok cap (pool_start n)"
  by (simp add: pool_ok_def pool_start_def queue_ok_def token_def in_group_def main_ok_def sum_list_replicate)

lemma sum_group_update:
  "i < length qs \<Longrightarrow> int (in_group q) = int (in_group (qs ! i)) + d \<Longrightarrow>
   int (\<Sum>q\<leftarrow>qs[i := q]. in_group q) = int (\<Sum>q\<leftarrow>qs. in_group q) + d"
proof (induction qs arbitrary: i)
  case (Cons x qs)
  then show ?case by (cases i) auto
qed simp

lemma shut_update: "(qShut (qs ! i) \<longrightarrow> qShut q) \<Longrightarrow> qShut (qs ! j) \<Longrightarrow> j < length qs \<Longrightarrow> qShut (qs[i := q] ! j)"
  by (cases "i = j") simp_all

lemma pool_step_ok:
  assumes "pool_step cap p p'" and "pool_ok cap p"
  shows "pool_ok cap p'"
  using assms
proof cases
  case (Queue i q d)
  with assms(2) have "queue_ok cap (pQueues p ! i)" by (auto simp: pool_ok_def)
  with Queue queue_step_ok have q: "queue_ok cap q" "int (in_group q) = int (in_group (pQueues p ! i)) + d"
    "qShut (pQueues p ! i) \<longrightarrow> qShut q"
    by blast+
  moreover from sum_group_update [OF Queue(2) q(2)] assms(2)
  have "nat (int (pWait p) + d) = (\<Sum>q\<leftarrow>(pQueues p)[i := q]. in_group q)"
    by (simp add: pool_ok_def)
  moreover have "main_ok p'"
    using assms(2) q(3) Queue(1) by (auto simp: pool_ok_def main_ok_def split: main_thread.splits intro!: shut_update)
  ultimately show ?thesis
    using Queue(1) assms(2) by (auto simp: pool_ok_def dest!: set_update_subset_insert [THEN subsetD])
next
  case (ShutDown i)
  let ?q = "pQueues p ! i"
  have "queue_ok cap ?q" using assms(2) ShutDown(3) by (auto simp: pool_ok_def)
  then have q: "queue_ok cap (?q\<lparr>qShut := True\<rparr>)" "int (in_group (?q\<lparr>qShut := True\<rparr>)) = int (in_group ?q) + 0"
    by (simp_all add: queue_ok_def in_group_def)
  have "main_ok p'"
    using assms(2) ShutDown by (auto simp: pool_ok_def main_ok_def nth_list_update less_Suc_eq)
  with q sum_group_update [OF ShutDown(3) q(2)] ShutDown(1) assms(2) show ?thesis
    by (auto simp: pool_ok_def dest!: set_update_subset_insert [THEN subsetD])
qed (auto simp: pool_ok_def main_ok_def)

lemma pool_reach_ok: "(pool_step cap)\<^sup>*\<^sup>* p p' \<Longrightarrow> pool_ok cap p \<Longrightarrow> pool_ok cap p'"
  by (induction rule: rtranclp_induct) (auto dest: pool_step_ok)

text \<open>C15: However the loops, the workers and the shutdown interleave, a queue never has more workers at once that hold a token,
  from before they start until they have told the queue that they are done, than its share, no token is lost while its
  loop runs, and the wait group counts exactly the workers of all queues, those included that have given their token
  back and have not left it yet (so that it can be above the share).
\<close>

theorem workers_bounded:
  assumes "(pool_step (workers_per_queue workers c))\<^sup>*\<^sup>* (pool_start (spQueues (qsplitter c))) p"
  shows "(\<forall>q \<in> set (pQueues p). length (qWorkers q) + qDone q \<le> workers_per_queue workers c \<and>
      (qLoop q \<noteq> Stopped \<longrightarrow> qRunning q = length (qWorkers q) + qDone q + token (qLoop q))) \<and>
    pWait p = (\<Sum>q\<leftarrow>pQueues p. length (qWorkers q) + qDone q + qReleased q)"
  using pool_reach_ok [OF assms pool_start_ok] by (force simp: pool_ok_def queue_ok_def in_group_def)

abbreviation one_queue :: "'k queue_loop \<Rightarrow> bool \<Rightarrow> nat \<Rightarrow> 'k list \<Rightarrow> nat \<Rightarrow> nat \<Rightarrow> nat \<Rightarrow> main_thread \<Rightarrow> 'k pool" where
  "one_queue l sd r ws dn rel w m \<equiv>
     \<lparr>pQueues = [\<lparr>qLoop = l, qShut = sd, qRunning = r, qWorkers = ws, qDone = dn, qReleased = rel\<rparr>], pWait = w, pMain = m\<rparr>"

lemma one_queue_step:
  assumes "queue_step cap \<lparr>qLoop = l, qShut = sd, qRunning = r, qWorkers = ws, qDone = dn, qReleased = rel\<rparr>
      \<lparr>qLoop = l', qShut = sd', qRunning = r', qWorkers = ws', qDone = dn', qReleased = rel'\<rparr> d"
    and "w' = nat (int w + d)"
  shows "pool_step cap (one_queue l sd r ws dn rel w m) (one_queue l' sd' r' ws' dn' rel' w' m)"
  using pool_step.Queue [of 0 "one_queue l sd r ws dn rel w m" cap _ d] assms by fastforce

lemma first_worker: "(pool_step 1)\<^sup>*\<^sup>* (pool_start 1) (one_queue (Checked k) False 1 [] 0 0 0 Waiting)"
proof -
  have "pool_step 1 (one_queue Getting False 0 [] 0 0 0 Waiting) (one_queue (Got k) False 0 [] 0 0 0 Waiting)"
    by (rule one_queue_step [where d = 0]) (simp_all add: queue_step_iff)
  moreover have "pool_step 1 (one_queue (Got k) False 0 [] 0 0 0 Waiting) (one_queue (Acquired k) False 1 [] 0 0 0 Waiting)"
    by (rule one_queue_step [where d = 0]) (simp_all add: queue_step_iff)
  moreover have "pool_step 1 (one_queue (Acquired k) False 1 [] 0 0 0 Waiting) (one_queue (Checked k) False 1 [] 0 0 0 Waiting)"
    by (rule one_queue_step [where d = 0]) (simp_all add: queue_step_iff)
  ultimately show ?thesis by (simp add: pool_start_def)
qed

theorem workers_bounded_witness:
  "\<exists>p q. (pool_step 1)\<^sup>*\<^sup>* (pool_start 1) p \<and> pQueues p = [q] \<and> pWait p = 1 \<and> qWorkers q = [''a''] \<and> length (qWorkers q) + qDone q \<le> 1"
proof -
  have w: "workers_per_queue 1 (new_controller None) = 1" "spQueues (qsplitter (new_controller None)) = 1"
    by (simp_all add: workers_per_queue_def new_controller_def singleWorkerQueueSplitter_def)
  let ?p = "one_queue Getting False 1 [''a''] 0 0 1 Waiting"
  note first_worker [of "''a''"]
  also have "pool_step 1 (one_queue (Checked ''a'') False 1 [] 0 0 0 Waiting) ?p"
    by (rule one_queue_step [where d = 1]) (simp_all add: queue_step_iff)
  finally have "(pool_step 1)\<^sup>*\<^sup>* (pool_start 1) ?p" .
  with workers_bounded [of 1 "new_controller None" ?p] show ?thesis by (intro exI [of _ ?p] exI [of _ "pQueues ?p ! 0"]) (simp add: w)
qed

section \<open>The end of a pool\<close>

text \<open>What is left to do once the queues are shut down.\<close>

definition loop_rank :: "'k queue_loop \<Rightarrow> nat" where
  "loop_rank l = (case l of Checked k \<Rightarrow> 8 | Getting \<Rightarrow> 4 | Got k \<Rightarrow> 3 | Acquired k \<Rightarrow> 2 | Stopped \<Rightarrow> 0)"

definition queue_rank :: "'k queue_state \<Rightarrow> nat" where
  "queue_rank q = loop_rank (qLoop q) + 3 * length (qWorkers q) + 2 * qDone q + qReleased q"

definition pool_rank :: "'k pool \<Rightarrow> nat" where
  "pool_rank p = (\<Sum>q\<leftarrow>pQueues p. queue_rank q) + (if pMain p = Returned then 0 else 1)"

text \<open>What is left of the main thread's loop over the queues.\<close>

definition main_rank :: "'k pool \<Rightarrow> nat" where
  "main_rank p = (case pMain p of Waiting \<Rightarrow> length (pQueues p) + 2 | Shutting i \<Rightarrow> length (pQueues p) + 1 - i | _ \<Rightarrow> 0)"

lemma queue_step_rank: "queue_step cap q q' d \<Longrightarrow> qShut q \<Longrightarrow> queue_rank q' < queue_rank q"
proof (induction rule: queue_step.induct)
  case (Finish k q)
  then obtain n where "length (qWorkers q) = Suc n" by (cases "qWorkers q") auto
  with Finish show ?case by (simp add: queue_rank_def length_remove1)
qed (simp_all add: queue_rank_def loop_rank_def)

lemma sum_rank_update:
  "i < length qs \<Longrightarrow> queue_rank q < queue_rank (qs ! i) \<Longrightarrow>
   (\<Sum>q\<leftarrow>qs[i := q]. queue_rank q) < (\<Sum>q\<leftarrow>qs. queue_rank q)"
proof (induction qs arbitrary: i)
  case (Cons x qs)
  then show ?case by (cases i) auto
qed simp

lemma pool_step_rank:
  assumes "pool_step cap p p'" and "shutting p" and "pool_ok cap p"
  shows "pool_rank p' < pool_rank p \<and> shutting p'"
  using assms(1)
proof cases
  case (Queue i q d)
  have "qShut (pQueues p ! i)" using assms(2,3) Queue(2) by (auto simp: shutting_def pool_ok_def main_ok_def)
  with assms(2) Queue sum_rank_update [OF Queue(2), of q] queue_step_rank [of cap "pQueues p ! i" q d] show ?thesis
    by (simp add: pool_rank_def shutting_def)
qed (use assms(2) in \<open>simp_all add: pool_rank_def shutting_def\<close>)

text \<open>A queue that is not at its end can do something.\<close>

lemma queue_can_step:
  assumes "queue_ok cap q" and "0 < cap" and "qShut q" and "qLoop q \<noteq> Stopped \<or> in_group q \<noteq> 0"
  shows "\<exists>q' d. queue_step cap q q' d"
proof (cases "in_group q = 0")
  case False
  then have "(\<exists>k. k \<in> set (qWorkers q)) \<or> 0 < qDone q \<or> 0 < qReleased q" by (cases "qWorkers q") (auto simp: in_group_def)
  then show ?thesis by (blast intro: queue_step.Finish queue_step.Release queue_step.Leave)
next
  case True
  show ?thesis
  proof (cases "qLoop q")
    case (Got k)
    with True assms(1,2) have "qRunning q < cap" by (simp add: queue_ok_def token_def in_group_def)
    with Got show ?thesis by (blast intro: queue_step.Acquire)
  qed (use True assms(3,4) in \<open>blast intro: queue_step.intros\<close>)+
qed

lemma main_goes_on:
  assumes "pool_ok cap p" and "ended p" and "\<not> shutting p"
  shows "\<exists>p'. pool_step cap p p' \<and> main_rank p' < main_rank p"
proof -
  obtain i where i: "pMain p = Shutting i" "i \<le> length (pQueues p)"
    using assms by (cases "pMain p") (auto simp: ended_def shutting_def pool_ok_def main_ok_def)
  show ?thesis
  proof (cases "i = length (pQueues p)")
    case True
    from pool_step.AllShut [OF i(1) this] show ?thesis
      by (intro exI [of _ "p\<lparr>pMain := Shut\<rparr>"]) (use i True in \<open>simp add: main_rank_def\<close>)
  next
    case False
    with i have lt: "i < length (pQueues p)" by simp
    let ?p = "p\<lparr>pQueues := (pQueues p)[i := (pQueues p ! i)\<lparr>qShut := True\<rparr>], pMain := Shutting (Suc i)\<rparr>"
    have "pool_step cap p ?p" by (rule pool_step.ShutDown [OF i(1) lt])
    moreover have "main_rank ?p < main_rank p" using i lt by (simp add: main_rank_def)
    ultimately show ?thesis by blast
  qed
qed

lemma main_rank_mono: "pool_step cap p p' \<Longrightarrow> ended p \<Longrightarrow> ended p' \<and> main_rank p' \<le> main_rank p"
  by (induction rule: pool_step.induct) (auto simp: ended_def main_rank_def split: main_thread.splits)

text \<open>C14: After the context has ended the pool always comes to an end. First the main thread shuts the queues down: nothing can
  hold it up, its next step can always be taken, and no other step takes it back. Once all are shut down every
  step brings the pool nearer its end (there are at most \<open>pool_rank\<close> of them), and it never waits for ever, since as
  long as a loop has not returned, a worker runs or \<open>runWorkers\<close> has not returned, some step can be taken.
\<close>

theorem shutdown_terminates:
  assumes "(pool_step (workers_per_queue workers c))\<^sup>*\<^sup>* (pool_start (spQueues (qsplitter c))) p" and "ended p"
  shows "(\<forall>p'. pool_step (workers_per_queue workers c) p p' \<longrightarrow> ended p' \<and> main_rank p' \<le> main_rank p) \<and>
    (\<not> shutting p \<longrightarrow> (\<exists>p'. pool_step (workers_per_queue workers c) p p' \<and> main_rank p' < main_rank p)) \<and>
    (shutting p \<longrightarrow>
      (\<forall>p'. pool_step (workers_per_queue workers c) p p' \<longrightarrow> pool_rank p' < pool_rank p \<and> shutting p') \<and>
      ((\<exists>p'. pool_step (workers_per_queue workers c) p p') \<or>
       pMain p = Returned \<and> (\<forall>q \<in> set (pQueues p). qLoop q = Stopped \<and> qWorkers q = [] \<and> qDone q = 0 \<and> qReleased q = 0)))"
proof -
  let ?c = "workers_per_queue workers c"
  have ok: "pool_ok ?c p" using pool_reach_ok [OF assms(1) pool_start_ok] .
  have pos: "0 < ?c" by (simp add: workers_per_queue_def Let_def)
  have stuck: "\<exists>p'. pool_step ?c p p'" if "shutting p" "q \<in> set (pQueues p)" "qLoop q \<noteq> Stopped \<or> in_group q \<noteq> 0" for q
  proof -
    from that(2) obtain i where i: "i < length (pQueues p)" "pQueues p ! i = q" by (auto simp: in_set_conv_nth)
    from ok that(2) have "queue_ok ?c q" by (simp add: pool_ok_def)
    moreover have "qShut q" using ok that(1) i by (auto simp: pool_ok_def main_ok_def shutting_def)
    ultimately show ?thesis using queue_can_step [OF _ pos _ that(3)] i by (metis pool_step.Queue)
  qed
  have main: "\<exists>p'. pool_step ?c p p'"
    if "shutting p" "pMain p \<noteq> Returned" and all: "\<forall>q \<in> set (pQueues p). qLoop q = Stopped \<and> in_group q = 0"
  proof -
    from all ok have "pWait p = 0" by (simp add: pool_ok_def)
    moreover from that(1,2) have "pMain p = Shut" by (auto simp: shutting_def)
    ultimately show ?thesis by (blast intro: pool_step.Return)
  qed
  have "in_group q = 0 \<longleftrightarrow> qWorkers q = [] \<and> qDone q = 0 \<and> qReleased q = 0" for q :: "'a queue_state"
    by (auto simp: in_group_def)
  with stuck main pool_step_rank [OF _ _ ok] main_rank_mono [OF _ assms(2)] main_goes_on [OF ok assms(2)] show ?thesis by blast
qed

lemma pool_end: "(pool_step cap)\<^sup>*\<^sup>* (one_queue l sd r ws dn rel w Waiting) (one_queue l True r ws dn rel w Shut)"
proof -
  have "pool_step cap (one_queue l sd r ws dn rel w Waiting) (one_queue l sd r ws dn rel w (Shutting 0))"
    by (simp add: pool_step_iff)
  moreover have "pool_step cap (one_queue l sd r ws dn rel w (Shutting 0)) (one_queue l True r ws dn rel w (Shutting 1))"
    by (simp add: pool_step_iff)
  moreover have "pool_step cap (one_queue l True r ws dn rel w (Shutting 1)) (one_queue l True r ws dn rel w Shut)"
    by (simp add: pool_step_iff)
  ultimately show ?thesis by auto
qed

theorem shutdown_terminates_witness:
  "\<exists>p'. pool_step 1 (one_queue (Checked ''a'') True 1 [] 0 0 0 Shut) p' \<and>
     pool_rank p' < pool_rank (one_queue (Checked ''a'') True 1 [] 0 0 0 Shut)"
proof -
  have w: "workers_per_queue 1 (new_controller None) = 1" "spQueues (qsplitter (new_controller None)) = 1"
    by (simp_all add: workers_per_queue_def new_controller_def singleWorkerQueueSplitter_def)
  let ?p = "one_queue (Checked ''a'') True 1 [] 0 0 0 Shut"
  have "(pool_step 1)\<^sup>*\<^sup>* (pool_start 1) ?p" by (rule rtranclp_trans [OF first_worker pool_end])
  moreover have "ended ?p" "shutting ?p" "pMain ?p \<noteq> Returned" by (simp_all add: ended_def shutting_def)
  ultimately show ?thesis using shutdown_terminates [of 1 "new_controller None" ?p, unfolded w] by blast
qed

text \<open>C34: The wait for the workers can be over before the last worker has begun: a loop that has seen its queue open and has not
  yet entered the wait group when the context ends lets \<open>runWorkers\<close> return, and then starts its worker.
\<close>

theorem returns_before_worker:
  "\<exists>p :: nat pool. (pool_step 1)\<^sup>*\<^sup>* (pool_start 1) p \<and> pMain p = Returned \<and> (\<exists>q \<in> set (pQueues p). qWorkers q \<noteq> [])"
proof -
  let ?p = "one_queue Getting True 1 [7 :: nat] 0 0 1 Returned"
  note first_worker [of 7]
  also note pool_end
  also have "pool_step 1 (one_queue (Checked 7) True 1 [] 0 0 0 Shut) (one_queue (Checked 7) True 1 [] 0 0 0 Returned)"
    by (simp add: pool_step_iff)
  also have "pool_step 1 (one_queue (Checked 7) True 1 [] 0 0 0 Returned) ?p"
    by (rule one_queue_step [where d = 1]) (simp_all add: queue_step_iff)
  finally have "(pool_step 1)\<^sup>*\<^sup>* (pool_start 1) ?p" .
  then show ?thesis by (intro exI [of _ ?p]) simp
qed

end
