(* ===== verification/Shared_Handler.thy ===== *)
theory Shared_Handler
  imports Work_Queue Memo Error_Lists "HOL-Library.Word"
begin

text \<open>
  pkg/runtime/sharedhandler.go, sharedcontroller.go, sharedcontrollerfactory.go, transaction.go and
  errorcontroller.go: the handlers that share the controller of a kind, the pass \<open>OnChange\<close> over them, what
  registering a handler does on a controller that runs, and the table of controllers. A handler is a function on the
  state \<open>'w\<close> outside. Two parts model slices: the value view used by the pass, and the backing
  array view, in which \<open>slices.Delete\<close> changes what a pass under way still reads.
\<close>

section \<open>SharedHandler\<close>

type_synonym 'w shared_fn = "string \<Rightarrow> kobj option \<Rightarrow> 'w \<Rightarrow> kobj option \<times> err option \<times> 'w"

record 'w handlerEntry =
  heId :: "64 word"
  heName :: string
  heHandler :: "'w shared_fn"

record 'w sharedHandler =
  idCounter :: "64 word"
  sharedHandlers :: "'w handlerEntry list"

definition SharedHandler_Register :: "string \<Rightarrow> 'w shared_fn \<Rightarrow> 'w sharedHandler \<Rightarrow> 64 word \<times> 'w sharedHandler" where
  "SharedHandler_Register name handler h =
     (let i = idCounter h + 1 in
      (i, h\<lparr>idCounter := i,
            sharedHandlers := sharedHandlers h @ [\<lparr>heId = i, heName = name, heHandler = handler\<rparr>]\<rparr>))"

text \<open>What runs when the context of a registration is done.\<close>

fun delete_first :: "('e \<Rightarrow> bool) \<Rightarrow> 'e list \<Rightarrow> 'e list" where
  "delete_first P [] = []"
| "delete_first P (e # es) = (if P e then es else e # delete_first P es)"

definition SharedHandler_unregister :: "64 word \<Rightarrow> 'w sharedHandler \<Rightarrow> 'w sharedHandler" where
  "SharedHandler_unregister i h = h\<lparr>sharedHandlers := delete_first (\<lambda>e. heId e = i) (sharedHandlers h)\<rparr>"

text \<open>\<open>accessible\<close>: \<open>meta.Accessor\<close> can read the object's metadata.\<close>

definition next_obj :: "(kobj \<Rightarrow> bool) \<Rightarrow> kobj option \<Rightarrow> kobj option \<Rightarrow> kobj option" where
  "next_obj accessible newObj obj =
     (case newObj of
        None \<Rightarrow> obj
      | Some n \<Rightarrow>
          if accessible n \<and> UID n \<noteq> [] then newObj
          else if \<not> accessible n then newObj
          else obj)"

fun run_entries :: "(kobj \<Rightarrow> bool) \<Rightarrow> 'w handlerEntry list \<Rightarrow> string \<Rightarrow> kobj option \<Rightarrow> 'w \<Rightarrow> err list \<times> 'w" where
  "run_entries accessible [] key obj w = ([], w)"
| "run_entries accessible (e # es) key obj w =
     (case heHandler e key obj w of
        (newObj, err, w) \<Rightarrow>
          (case run_entries accessible es key (next_obj accessible newObj obj) w of
             (errs, w) \<Rightarrow>
               (case err of
                  None \<Rightarrow> (errs, w)
                | Some x \<Rightarrow> if errors_Is err ErrIgnore then (errs, w) else (HandlerError (heName e) x # errs, w))))"

definition SharedHandler_OnChange ::
  "(kobj \<Rightarrow> bool) \<Rightarrow> string \<Rightarrow> kobj option \<Rightarrow> 'w sharedHandler \<Rightarrow> 'w \<Rightarrow> err option \<times> 'w" where
  "SharedHandler_OnChange accessible key obj h w =
     (case run_entries accessible (sharedHandlers h) key obj w of (errs, w) \<Rightarrow> (ToErr errs, w))"

section \<open>Every handler runs\<close>

text \<open>What each handler is given, the object and the state, and what is left at the end.\<close>

fun entry_inputs ::
  "(kobj \<Rightarrow> bool) \<Rightarrow> 'w handlerEntry list \<Rightarrow> string \<Rightarrow> kobj option \<Rightarrow> 'w \<Rightarrow> (kobj option \<times> 'w) list" where
  "entry_inputs accessible [] key obj w = [(obj, w)]"
| "entry_inputs accessible (e # es) key obj w =
     (obj, w) # (case heHandler e key obj w of
        (newObj, err, w) \<Rightarrow> entry_inputs accessible es key (next_obj accessible newObj obj) w)"

definition entry_error :: "string \<Rightarrow> 'w handlerEntry \<Rightarrow> kobj option \<times> 'w \<Rightarrow> err option" where
  "entry_error key e inp =
     (case heHandler e key (fst inp) (snd inp) of
        (newObj, err, w) \<Rightarrow>
          if errors_Is err ErrIgnore then None else map_option (HandlerError (heName e)) err)"

lemma entry_inputs_length [simp]: "length (entry_inputs accessible es key obj w) = Suc (length es)"
  by (induction es arbitrary: obj w) (auto split: prod.splits)

lemma entry_inputs_not_Nil [simp]: "entry_inputs accessible es key obj w \<noteq> []"
  by (metis entry_inputs_length length_0_conv nat.distinct(1))

lemma run_entries_inputs:
  "run_entries accessible es key obj w = (errs, w') \<Longrightarrow>
     w' = snd (last (entry_inputs accessible es key obj w)) \<and>
     errs = non_nil (map (\<lambda>(e, inp). entry_error key e inp) (zip es (entry_inputs accessible es key obj w)))"
proof (induction es arbitrary: obj w errs w')
  case Nil
  then show ?case by simp
next
  case (Cons e es)
  obtain newObj err w1 where h: "heHandler e key obj w = (newObj, err, w1)" by (metis prod_cases3)
  obtain errs1 w2 where r: "run_entries accessible es key (next_obj accessible newObj obj) w1 = (errs1, w2)"
    by fastforce
  from Cons.IH [OF r] Cons.prems h r show ?case
    by (cases err) (auto simp: entry_error_def errors_Is_def split: if_splits)
qed

text \<open>C24: one pass calls every handler of the kind, in the order of registration, each on the state the one before
  left; it succeeds exactly if no handler answers an error other than \<open>ErrIgnore\<close>, a single failure
  comes back as it is under the handler's name, and several come back together in the order of the handlers.\<close>

theorem SharedHandler_OnChange_all_run:
  fixes accessible key obj h w
  defines "inputs \<equiv> entry_inputs accessible (sharedHandlers h) key obj w"
  defines "failures \<equiv> non_nil (map (\<lambda>(e, inp). entry_error key e inp) (zip (sharedHandlers h) inputs))"
  shows "SharedHandler_OnChange accessible key obj h w =
    (if failures = [] then None else if length failures = 1 then Some (hd failures) else Some (ErrorList failures),
     snd (last inputs))"
proof -
  obtain errs w' where r: "run_entries accessible (sharedHandlers h) key obj w = (errs, w')" by fastforce
  from run_entries_inputs [OF r] have "w' = snd (last inputs)" "errs = failures"
    by (simp_all add: inputs_def failures_def)
  with r show ?thesis
    by (auto simp: SharedHandler_OnChange_def ToErr_def split: list.splits)
qed

lemma next_obj_uid:
  "(\<forall>o'. accessible o') \<Longrightarrow> (\<exists>o'. obj = Some o' \<and> UID o' \<noteq> []) \<Longrightarrow>
     \<exists>o'. next_obj accessible newObj obj = Some o' \<and> UID o' \<noteq> []"
  by (auto simp: next_obj_def split: option.splits)

text \<open>Once a pass starts with an object of the cluster (one with a UID), no handler is handed nil or an
  object without a UID, whatever the handlers before it returned.\<close>

theorem SharedHandler_OnChange_keeps_object:
  assumes "\<forall>o'. accessible o'" and "UID start \<noteq> []"
    and "(obj, v) \<in> set (entry_inputs accessible (sharedHandlers h) key (Some start) w)"
  shows "\<exists>o'. obj = Some o' \<and> UID o' \<noteq> []"
proof -
  have "\<exists>o'. obj0 = Some o' \<and> UID o' \<noteq> [] \<Longrightarrow> (obj, v) \<in> set (entry_inputs accessible es key obj0 w0) \<Longrightarrow>
      \<exists>o'. obj = Some o' \<and> UID o' \<noteq> []" for es obj0 w0
  proof (induction es arbitrary: obj0 w0)
    case Nil
    then show ?case by auto
  next
    case (Cons e es)
    obtain newObj err w1 where h: "heHandler e key obj0 w0 = (newObj, err, w1)" by (metis prod_cases3)
    from Cons.prems(2) h have "(obj, v) = (obj0, w0) \<or>
        (obj, v) \<in> set (entry_inputs accessible es key (next_obj accessible newObj obj0) w1)" by simp
    then show ?case
      using Cons.prems(1) Cons.IH [OF next_obj_uid [OF assms(1) Cons.prems(1)]] by blast
  qed
  with assms(2,3) show ?thesis by blast
qed

text \<open>Two handlers for the examples: one returns an empty object and no error, one counts its calls and fails.\<close>

definition empty_handler :: "nat shared_fn" where
  "empty_handler key obj n = (Some empty_obj, None, n)"

definition failing_handler :: "nat shared_fn" where
  "failing_handler key obj n = (None, Some (Err ''no''), n + 1)"

definition two_handlers :: "nat sharedHandler" where
  "two_handlers =
     snd (SharedHandler_Register ''b'' failing_handler
       (snd (SharedHandler_Register ''a'' empty_handler \<lparr>idCounter = 0, sharedHandlers = []\<rparr>)))"

theorem SharedHandler_OnChange_keeps_object_witness:
  "\<exists>o'. Some (empty_obj\<lparr>UID := ''u''\<rparr>) = Some o' \<and> UID o' \<noteq> []"
proof -
  have "entry_inputs (\<lambda>_. True) (sharedHandlers two_handlers) ''a'' (Some (empty_obj\<lparr>UID := ''u''\<rparr>)) 0 =
      [(Some (empty_obj\<lparr>UID := ''u''\<rparr>), 0), (Some (empty_obj\<lparr>UID := ''u''\<rparr>), 0), (Some (empty_obj\<lparr>UID := ''u''\<rparr>), 1)]"
    by (simp add: two_handlers_def SharedHandler_Register_def Let_def empty_handler_def failing_handler_def
        next_obj_def empty_obj_def)
  then show ?thesis
    by (intro SharedHandler_OnChange_keeps_object [of "\<lambda>_. True" "empty_obj\<lparr>UID := ''u''\<rparr>"
          "Some (empty_obj\<lparr>UID := ''u''\<rparr>)" 1 two_handlers "''a''" 0]) simp_all
qed

section \<open>Unregistering during a pass\<close>

text \<open>
  A pass holds the slice header it read at its start: the backing array and the length. The array has \<open>None\<close>
  where an entry is the zero value. \<open>slices.Delete\<close> moves the entries after \<open>i\<close> down and clears the last
  one, in the array. The pass meets the zero value as a nil handler, and a call of a nil interface panics.
\<close>

definition slices_Delete :: "nat \<Rightarrow> nat \<Rightarrow> 'e option list \<Rightarrow> 'e option list" where
  "slices_Delete i n a = take i a @ drop (i + 1) (take n a) @ None # drop n a"

text \<open>What a pass over \<open>n\<close> entries reads when the entry at \<open>i\<close> is unregistered after its first \<open>t\<close> reads.\<close>

definition pass_reads :: "nat \<Rightarrow> nat \<Rightarrow> nat \<Rightarrow> 'e option list \<Rightarrow> 'e option list" where
  "pass_reads i t n a = map (\<lambda>k. if k < t then a ! k else slices_Delete i n a ! k) [0..<n]"

text \<open>The pass over what it reads: \<open>None\<close> when it panics.\<close>

fun run_reads ::
  "(kobj \<Rightarrow> bool) \<Rightarrow> 'w handlerEntry option list \<Rightarrow> string \<Rightarrow> kobj option \<Rightarrow> 'w \<Rightarrow> (err list \<times> 'w) option" where
  "run_reads accessible [] key obj w = Some ([], w)"
| "run_reads accessible (None # es) key obj w = None"
| "run_reads accessible (Some e # es) key obj w =
     (case heHandler e key obj w of
        (newObj, err, w) \<Rightarrow>
          (case run_reads accessible es key (next_obj accessible newObj obj) w of
             None \<Rightarrow> None
           | Some (errs, w) \<Rightarrow>
               (case err of
                  None \<Rightarrow> Some (errs, w)
                | Some x \<Rightarrow>
                    if errors_Is err ErrIgnore then Some (errs, w) else Some (HandlerError (heName e) x # errs, w))))"

lemma run_reads_undisturbed:
  "run_reads accessible (map Some es) key obj w = Some (run_entries accessible es key obj w)"
  by (induction es arbitrary: obj w) (auto split: prod.split option.split)

lemma run_reads_nil: "None \<in> set es \<Longrightarrow> run_reads accessible es key obj w = None"
proof (induction es arbitrary: obj w)
  case Nil
  then show ?case by simp
next
  case (Cons e es)
  then show ?case by (cases e) (auto split: prod.split)
qed

lemma slices_Delete_nth:
  assumes "i < n" and "n \<le> length a" and "k < n"
  shows "slices_Delete i n a ! k = (if k < i then a ! k else if k + 1 < n then a ! (k + 1) else None)"
  using assms by (auto simp: slices_Delete_def nth_append min_def nth_Cons')

lemma slices_Delete_value:
  assumes "i < n" and "n = length es"
  shows "take (n - 1) (slices_Delete i n (map Some es @ spare)) = map Some (take i es @ drop (i + 1) es)"
  using assms by (simp add: slices_Delete_def take_map drop_map)

text \<open>C33: unregistering any handler of a kind while a pass over its handlers has one left to call crashes that pass:
  the pass runs over the array that \<open>slices.Delete\<close> shifted, skips the handler it was about to call when an
  earlier one is removed, and calls the nil handler of the entry that was cleared.\<close>

theorem unregister_during_pass_panics:
  assumes "i < length es" and "t < length es"
  shows "run_reads accessible (pass_reads i t (length es) (map Some es @ spare)) key obj w = None
    \<and> (i < t \<and> distinct es \<longrightarrow> Some (es ! t) \<notin> set (pass_reads i t (length es) (map Some es @ spare)))"
proof
  let ?n = "length es" and ?a = "map Some es @ spare"
  have read: "pass_reads i t ?n ?a ! k =
      (if k < t \<or> k < i then Some (es ! k) else if k + 1 < ?n then Some (es ! (k + 1)) else None)" if "k < ?n" for k
    using that assms by (simp add: pass_reads_def slices_Delete_nth nth_append)
  have len: "length (pass_reads i t ?n ?a) = ?n" by (simp add: pass_reads_def)
  have "pass_reads i t ?n ?a ! (?n - 1) = None" using assms read [of "?n - 1"] by auto
  moreover have "?n - 1 < length (pass_reads i t ?n ?a)" using assms len by simp
  ultimately have "None \<in> set (pass_reads i t ?n ?a)" by (metis nth_mem)
  then show "run_reads accessible (pass_reads i t ?n ?a) key obj w = None" by (rule run_reads_nil)
  show "i < t \<and> distinct es \<longrightarrow> Some (es ! t) \<notin> set (pass_reads i t ?n ?a)"
  proof (intro impI notI, elim conjE)
    assume "i < t" "distinct es" "Some (es ! t) \<in> set (pass_reads i t ?n ?a)"
    then obtain k where k: "k < ?n" "pass_reads i t ?n ?a ! k = Some (es ! t)"
      using len by (metis in_set_conv_nth)
    with read [OF k(1)] \<open>i < t\<close> \<open>distinct es\<close> assms(2) show False
      by (auto simp: nth_eq_iff_index_eq split: if_splits)
  qed
qed

theorem unregister_during_pass_panics_witness:
  "run_reads (\<lambda>_. True) (pass_reads 0 1 (length (sharedHandlers two_handlers)) (map Some (sharedHandlers two_handlers) @ [])) ''a'' None 0 = None"
  using unregister_during_pass_panics [of 0 "sharedHandlers two_handlers" 1 "\<lambda>_. True" "[]" "''a''" None 0]
  by (simp add: two_handlers_def SharedHandler_Register_def Let_def)

end
