(* ===== verification/Shared_Controller.thy ===== *)
theory Shared_Controller
  imports Shared_Handler Go_Numbers
begin

text \<open>
  pkg/runtime/sharedcontroller.go, sharedcontrollerfactory.go, transaction.go, errorcontroller.go and the
  start, watch and trigger operations of backend.go. A \<open>Controller\<close> is the queueing controller of
  controller.go (its queues and its life) or the error controller that stands for one that could not be made. The factory hands
  out pointers: shared controllers live in a store, and its table holds their addresses.
\<close>

section \<open>Transactions\<close>

text \<open>\<open>HandlerTransaction\<close>: functions on a state that may panic, put off until the commit. A context without a
  transaction is \<open>None\<close>.\<close>

type_synonym 's todo = "('s \<Rightarrow> 's option) list"

definition tx_do :: "('s \<Rightarrow> 's option) \<Rightarrow> 's todo option \<Rightarrow> 's \<Rightarrow> ('s todo option \<times> 's) option" where
  "tx_do f tx s =
     (case tx of
        None \<Rightarrow> (case f s of None \<Rightarrow> None | Some s \<Rightarrow> Some (None, s))
      | Some fs \<Rightarrow> Some (Some (fs @ [f]), s))"

fun run_todo :: "'s todo \<Rightarrow> 's \<Rightarrow> 's option" where
  "run_todo [] s = Some s"
| "run_todo (f # fs) s = (case f s of None \<Rightarrow> None | Some s \<Rightarrow> run_todo fs s)"

definition tx_Commit :: "'s todo \<Rightarrow> 's \<Rightarrow> ('s todo \<times> 's) option" where
  "tx_Commit fs s = (case run_todo fs s of None \<Rightarrow> None | Some s \<Rightarrow> Some ([], s))"

definition tx_Rollback :: "'s todo \<Rightarrow> 's todo" where
  "tx_Rollback fs = []"

section \<open>Controllers\<close>

datatype ctl = RealController controller life | ErrorController err

definition ctl_EnqueueKeyAfter :: "string \<Rightarrow> int \<Rightarrow> ctl \<Rightarrow> ctl" where
  "ctl_EnqueueKeyAfter key d c =
     (case c of RealController q l \<Rightarrow> RealController (EnqueueKeyAfter key d q) l | ErrorController e \<Rightarrow> c)"

definition ctl_EnqueueKey :: "string \<Rightarrow> ctl \<Rightarrow> ctl" where
  "ctl_EnqueueKey key c =
     (case c of RealController q l \<Rightarrow> RealController (EnqueueKey key q) l | ErrorController e \<Rightarrow> c)"

definition ctl_EnqueueAfter :: "string \<Rightarrow> string \<Rightarrow> int \<Rightarrow> ctl \<Rightarrow> ctl" where
  "ctl_EnqueueAfter ns n d c =
     (case c of RealController q l \<Rightarrow> RealController (EnqueueAfter ns n d q) l | ErrorController e \<Rightarrow> c)"

definition ctl_Enqueue :: "string \<Rightarrow> string \<Rightarrow> ctl \<Rightarrow> ctl" where
  "ctl_Enqueue ns n c =
     (case c of RealController q l \<Rightarrow> RealController (Enqueue ns n q) l | ErrorController e \<Rightarrow> c)"

definition ctl_Cache :: "ctl \<Rightarrow> err option" where
  "ctl_Cache c = (case c of RealController q l \<Rightarrow> None | ErrorController e \<Rightarrow> Some e)"

text \<open>The outside world's answers to a start.\<close>

record start_answers =
  stInformer :: "err + bool"
  stAddHandler :: "err option"
  stSynced :: bool

definition ctl_Start :: "start_answers \<Rightarrow> ctl \<Rightarrow> err option \<times> ctl" where
  "ctl_Start a c =
     (case c of
        RealController q l \<Rightarrow>
          (case controller_Start (stInformer a) (stAddHandler a) (stSynced a) l of
             (e, l) \<Rightarrow> (e, RealController q l))
      | ErrorController e \<Rightarrow> (None, c))"

section \<open>The shared controller\<close>

text \<open>\<open>scWorkers\<close> is the number of workers the last successful start was given.\<close>

record 'w sharedController =
  scController :: "ctl option"
  scStartError :: "err option"
  scStarted :: bool
  scHandler :: "'w sharedHandler"
  scWorkers :: int

definition initController :: "err + ctl \<Rightarrow> 'w sharedController \<Rightarrow> 'w sharedController" where
  "initController deferred s =
     (case scController s of
        Some c \<Rightarrow> s
      | None \<Rightarrow>
          (case deferred of
             Inl err \<Rightarrow> s\<lparr>scStartError := Some err, scController := Some (ErrorController err)\<rparr>
           | Inr c \<Rightarrow> s\<lparr>scStartError := None, scController := Some c\<rparr>))"

definition on_controller :: "err + ctl \<Rightarrow> (ctl \<Rightarrow> ctl) \<Rightarrow> 'w sharedController \<Rightarrow> 'w sharedController" where
  "on_controller deferred f s =
     (let s = initController deferred s in s\<lparr>scController := map_option f (scController s)\<rparr>)"

definition shared_EnqueueKeyAfter :: "err + ctl \<Rightarrow> string \<Rightarrow> int \<Rightarrow> 'w sharedController \<Rightarrow> 'w sharedController" where
  "shared_EnqueueKeyAfter deferred key d = on_controller deferred (ctl_EnqueueKeyAfter key d)"

definition shared_EnqueueKey :: "err + ctl \<Rightarrow> string \<Rightarrow> 'w sharedController \<Rightarrow> 'w sharedController" where
  "shared_EnqueueKey deferred key = on_controller deferred (ctl_EnqueueKey key)"

definition shared_EnqueueAfter ::
  "err + ctl \<Rightarrow> string \<Rightarrow> string \<Rightarrow> int \<Rightarrow> 'w sharedController \<Rightarrow> 'w sharedController" where
  "shared_EnqueueAfter deferred ns n d = on_controller deferred (ctl_EnqueueAfter ns n d)"

definition shared_Enqueue :: "err + ctl \<Rightarrow> string \<Rightarrow> string \<Rightarrow> 'w sharedController \<Rightarrow> 'w sharedController" where
  "shared_Enqueue deferred ns n = on_controller deferred (ctl_Enqueue ns n)"

definition shared_Start :: "start_answers \<Rightarrow> int \<Rightarrow> 'w sharedController \<Rightarrow> err option \<times> 'w sharedController" where
  "shared_Start a workers s =
     (case scController s of
        None \<Rightarrow> (scStartError s, s)
      | Some c \<Rightarrow>
          if scStartError s \<noteq> None then (scStartError s, s)
          else if scStarted s then (None, s)
          else
            (case ctl_Start a c of
               (Some err, c) \<Rightarrow> (Some err, s\<lparr>scController := Some c\<rparr>)
             | (None, c) \<Rightarrow> (None, s\<lparr>scController := Some c, scStarted := True, scWorkers := workers\<rparr>)))"

text \<open>The context of a start is done.\<close>

definition shared_stopped :: "'w sharedController \<Rightarrow> 'w sharedController" where
  "shared_stopped s = s\<lparr>scStarted := False\<rparr>"

section \<open>Registering a handler\<close>

text \<open>Answers of the scheme, the cache's list and \<open>EachListItem\<close>. \<open>scheme.New\<close> answers nil with its error,
  and the type assertion on a nil interface panics.\<close>

record register_answers =
  raNew :: "err option"
  raList :: "err + kobj list"
  raEach :: "err option"

definition shared_unregister :: "64 word \<Rightarrow> 'w sharedController \<Rightarrow> 'w sharedController" where
  "shared_unregister i s = s\<lparr>scHandler := SharedHandler_unregister i (scHandler s)\<rparr>"

definition register_body ::
  "register_answers \<Rightarrow> string \<Rightarrow> 'w shared_fn \<Rightarrow> 'w sharedController \<Rightarrow> (err option \<times> 'w sharedController) option" where
  "register_body a name handler s =
     (case SharedHandler_Register name handler (scHandler s) of
        (i, h) \<Rightarrow>
          (let s = s\<lparr>scHandler := h\<rparr> in
           if \<not> scStarted s then Some (None, s)
           else
             (case scController s of
                None \<Rightarrow> None
              | Some c \<Rightarrow>
                  (case ctl_Cache c of
                     Some err \<Rightarrow> Some (Some err, shared_unregister i s)
                   | None \<Rightarrow>
                       if raNew a \<noteq> None then None
                       else
                         (case raList a of
                            Inl err \<Rightarrow> Some (Some err, shared_unregister i s)
                          | Inr objs \<Rightarrow>
                              (case raEach a of
                                 Some err \<Rightarrow> Some (Some err, shared_unregister i s)
                               | None \<Rightarrow>
                                   Some (None, s\<lparr>scController := Some (fold
                                     (\<lambda>mObj. ctl_EnqueueKey (keyFunc (Namespace mObj) (Name mObj))) objs c)\<rparr>)))))))"

text \<open>The result: what \<open>RegisterHandler\<close> returns, the transaction, the controller; \<open>None\<close> a panic. The error the
  body sets is overwritten by the \<open>return nil\<close>.\<close>

definition RegisterHandler ::
  "register_answers \<Rightarrow> err + ctl \<Rightarrow> string \<Rightarrow> 'w shared_fn \<Rightarrow> 'w sharedController todo option
     \<Rightarrow> 'w sharedController \<Rightarrow> (err option \<times> 'w sharedController todo option \<times> 'w sharedController) option" where
  "RegisterHandler a deferred name handler tx s =
     (let s = initController deferred s in
      case tx_do (\<lambda>s. map_option snd (register_body a name handler s)) tx s of
        None \<Rightarrow> None
      | Some (tx, s) \<Rightarrow> Some (None, tx, s))"

text \<open>The identifiers given so far are not above the counter, which has not wrapped.\<close>

definition ids_ok :: "'w sharedHandler \<Rightarrow> bool" where
  "ids_ok h \<longleftrightarrow> (\<forall>e \<in> set (sharedHandlers h). heId e \<le> idCounter h) \<and> idCounter h \<noteq> -1"

lemma Register_fresh:
  assumes "ids_ok h" and "e \<in> set (sharedHandlers h)"
  shows "heId e \<noteq> idCounter h + 1"
proof -
  have "idCounter h < idCounter h + 1"
    using assms(1) by (simp add: ids_ok_def inc_less_eq_self_iff_eq flip: not_le)
  with assms show ?thesis by (auto simp: ids_ok_def)
qed

lemma Register_ids_ok:
  assumes "ids_ok h" and "SharedHandler_Register name handler h = (i, h')" and "i \<noteq> -1"
  shows "ids_ok h'"
proof -
  have lt: "idCounter h < idCounter h + 1"
    using assms(1) by (simp add: ids_ok_def inc_less_eq_self_iff_eq flip: not_le)
  have "e \<in> set (sharedHandlers h) \<Longrightarrow> heId e \<le> idCounter h + 1" for e
    using lt assms(1) by (meson ids_ok_def less_imp_le order_trans)
  with assms(2,3) show ?thesis
    by (auto simp: ids_ok_def SharedHandler_Register_def Let_def)
qed

lemma delete_first_append: "\<forall>e \<in> set es. \<not> P e \<Longrightarrow> P x \<Longrightarrow> delete_first P (es @ x # xs) = es @ xs"
  by (induction es) auto

lemma unregister_Register:
  assumes "ids_ok h" and "SharedHandler_Register name handler h = (i, h')"
  shows "sharedHandlers (SharedHandler_unregister i h') = sharedHandlers h"
  using assms Register_fresh [OF assms(1)] delete_first_append [of "sharedHandlers h" "\<lambda>e. heId e = i"]
  by (auto simp: SharedHandler_Register_def SharedHandler_unregister_def Let_def)

lemma fold_EnqueueKey:
  "fold (\<lambda>mObj. ctl_EnqueueKey (f mObj)) objs (RealController q l) =
     RealController (enqueue_all (map (\<lambda>mObj. (f mObj, 0)) objs) q) l"
  by (induction objs arbitrary: q) (simp_all add: enqueue_all_def ctl_EnqueueKey_def EnqueueKey_def)

text \<open>A handler registered on a controller that runs joins the handlers behind those already there, and the key of
  every object of the kind is put in the queue, in the order of the list, so that the new handler sees
  every object that exists.\<close>

theorem RegisterHandler_replays:
  assumes "scStarted s" and "scController s = Some (RealController q l)"
    and "a = \<lparr>raNew = None, raList = Inr objs, raEach = None\<rparr>"
  shows "\<exists>s'. RegisterHandler a deferred name handler None s = Some (None, None, s') \<and>
    map heHandler (sharedHandlers (scHandler s')) = map heHandler (sharedHandlers (scHandler s)) @ [handler] \<and>
    scController s' =
      Some (RealController (enqueue_all (map (\<lambda>mObj. (keyFunc (Namespace mObj) (Name mObj), 0)) objs) q) l)"
  using assms
  by (simp add: RegisterHandler_def initController_def tx_do_def register_body_def ctl_Cache_def fold_EnqueueKey
      SharedHandler_Register_def Let_def)

text \<open>A controller that runs, with an empty queue and no handlers, for the examples.\<close>

definition running_controller :: "nat sharedController" where
  "running_controller =
     \<lparr>scController = Some (RealController (run_start (new_controller None))
        \<lparr>lfStarted = True, lfInformer = True, lfRegistration = True, lfAttached = True\<rparr>),
      scStartError = None, scStarted = True, scHandler = \<lparr>idCounter = 0, sharedHandlers = []\<rparr>, scWorkers = 10\<rparr>"

theorem RegisterHandler_replays_witness:
  "\<exists>s'. RegisterHandler \<lparr>raNew = None, raList = Inr [empty_obj\<lparr>Name := ''a''\<rparr>], raEach = None\<rparr> (Inl ErrReplace) ''h'' failing_handler
       None running_controller = Some (None, None, s') \<and>
     map heHandler (sharedHandlers (scHandler s')) = [failing_handler]"
  using RegisterHandler_replays [of running_controller _ _ "\<lparr>raNew = None, raList = Inr [empty_obj\<lparr>Name := ''a''\<rparr>], raEach = None\<rparr>"
      "[empty_obj\<lparr>Name := ''a''\<rparr>]" "Inl ErrReplace" "''h''" failing_handler]
  by (auto simp: running_controller_def)

text \<open>A registration that fails is not reported: on a controller that runs, when the objects of the kind cannot be
  listed, \<open>RegisterHandler\<close> takes the handler away again and returns nil, so that the caller believes a
  handler registered that is never called.\<close>

theorem RegisterHandler_hides_failure:
  assumes "scStarted s" and "scController s = Some (RealController q l)" and "ids_ok (scHandler s)"
    and "a = \<lparr>raNew = None, raList = Inl err, raEach = each\<rparr>"
  shows "\<exists>s'. RegisterHandler a deferred name handler None s = Some (None, None, s') \<and>
    sharedHandlers (scHandler s') = sharedHandlers (scHandler s) \<and> scController s' = scController s"
proof -
  obtain i h where h: "SharedHandler_Register name handler (scHandler s) = (i, h)" by fastforce
  from assms h unregister_Register [OF assms(3) h] show ?thesis
    by (simp add: RegisterHandler_def initController_def tx_do_def register_body_def ctl_Cache_def Let_def
        shared_unregister_def)
qed

theorem RegisterHandler_hides_failure_witness:
  "\<exists>s'. RegisterHandler \<lparr>raNew = None, raList = Inl (Err ''forbidden''), raEach = None\<rparr> (Inl ErrReplace) ''h'' failing_handler
       None running_controller = Some (None, None, s') \<and> sharedHandlers (scHandler s') = []"
  using RegisterHandler_hides_failure [of running_controller _ _ "\<lparr>raNew = None, raList = Inl (Err ''forbidden''), raEach = None\<rparr>"
      "Err ''forbidden''" None "Inl ErrReplace" "''h''" failing_handler]
  by (auto simp: running_controller_def ids_ok_def)

section \<open>The factory\<close>

record 'w factory =
  fControllers :: "gvk \<Rightarrow> nat option"
  fStore :: "nat \<Rightarrow> 'w sharedController option"
  fNext :: nat
  fWorkers :: int
  fKindWorkers :: "gvk \<Rightarrow> int option"

definition new_shared :: "'w sharedController" where
  "new_shared = \<lparr>scController = None, scStartError = None, scStarted = False,
     scHandler = \<lparr>idCounter = 0, sharedHandlers = []\<rparr>, scWorkers = 0\<rparr>"

text \<open>\<open>init\<close>: the environment's \<open>NAH_THREADINESS\<close> over the default.\<close>

definition init_threadiness :: "string \<Rightarrow> int \<Rightarrow> int" where
  "init_threadiness env DefaultThreadiness = (let i = Atoi_value env in if 0 < i then i else DefaultThreadiness)"

theorem init_threadiness_positive:
  assumes "0 < d"
  shows "0 < init_threadiness env d \<and> (init_threadiness env d = d \<or> init_threadiness env d < 2 ^ 63)"
  using assms Atoi_value_range [of env] by (simp add: init_threadiness_def Let_def)

theorem init_threadiness_positive_witness:
  "0 < init_threadiness ''-3'' 10"
  using init_threadiness_positive [of 10 "''-3''"] by simp

definition applyDefaultSharedOptions :: "int \<Rightarrow> int \<Rightarrow> int" where
  "applyDefaultSharedOptions threadiness workers = (if workers = 0 then threadiness else workers)"

definition NewSharedControllerFactory :: "int \<Rightarrow> int \<Rightarrow> (gvk \<Rightarrow> int option) \<Rightarrow> 'w factory" where
  "NewSharedControllerFactory threadiness workers kinds =
     \<lparr>fControllers = (\<lambda>_. None), fStore = (\<lambda>_. None), fNext = 0,
      fWorkers = applyDefaultSharedOptions threadiness workers, fKindWorkers = kinds\<rparr>"

definition ForKind :: "gvk \<Rightarrow> 'w factory \<Rightarrow> (err + nat) \<times> 'w factory" where
  "ForKind g f =
     (case fControllers f g of
        Some p \<Rightarrow> (Inr p, f)
      | None \<Rightarrow>
          (Inr (fNext f),
           f\<lparr>fControllers := (fControllers f)(g \<mapsto> fNext f),
             fStore := (fStore f)(fNext f \<mapsto> new_shared), fNext := Suc (fNext f)\<rparr>))"

definition getWorkers :: "gvk \<Rightarrow> 'w factory \<Rightarrow> int" where
  "getWorkers g f = (case fKindWorkers f g of Some w \<Rightarrow> w | None \<Rightarrow> fWorkers f)"

text \<open>The loop of \<open>loadAndStart\<close> over the copy of the table, in the order the map gives.\<close>

fun start_controllers ::
  "(gvk \<Rightarrow> start_answers) \<Rightarrow> (gvk \<times> nat) list \<Rightarrow> 'w factory \<Rightarrow> err option \<times> 'w factory" where
  "start_controllers ans [] f = (None, f)"
| "start_controllers ans ((g, p) # gps) f =
     (case fStore f p of
        None \<Rightarrow> start_controllers ans gps f
      | Some s \<Rightarrow>
          (case shared_Start (ans g) (getWorkers g f) s of
             (Some err, s) \<Rightarrow> (Some err, f\<lparr>fStore := (fStore f)(p \<mapsto> s)\<rparr>)
           | (None, s) \<Rightarrow> start_controllers ans gps (f\<lparr>fStore := (fStore f)(p \<mapsto> s)\<rparr>)))"

definition loadAndStart ::
  "(gvk \<Rightarrow> start_answers) \<Rightarrow> bool \<Rightarrow> (gvk \<times> nat) list \<Rightarrow> 'w factory \<Rightarrow> err option \<times> 'w factory" where
  "loadAndStart ans start order f = (if start then start_controllers ans order f else (None, f))"

text \<open>The table and the store of a factory in use.\<close>

definition factory_ok :: "'w factory \<Rightarrow> bool" where
  "factory_ok f \<longleftrightarrow> inj_on (fControllers f) (dom (fControllers f)) \<and>
     (\<forall>g p. fControllers f g = Some p \<longrightarrow> p < fNext f \<and> fStore f p \<noteq> None)"

lemma NewSharedControllerFactory_ok: "factory_ok (NewSharedControllerFactory t w ks)"
  by (simp add: factory_ok_def NewSharedControllerFactory_def)

lemma ForKind_ok:
  assumes "factory_ok f" and "ForKind g f = (r, f')"
  shows "factory_ok f'"
  using assms
  by (auto simp: factory_ok_def ForKind_def inj_on_def dom_def split: option.splits if_splits)
    (metis less_irrefl_nat less_SucI)+

interpretation kind_table: memo ForKind fControllers
  by unfold_locales (auto simp: ForKind_def split: option.splits)

lemma ForKind_some: "ForKind g f = (Inr p, f') \<Longrightarrow> fControllers f' g = Some p"
  by (rule kind_table.stores)

lemma fold_ForKind_ok: "factory_ok f \<Longrightarrow> factory_ok (kind_table.run_all gs f)"
  by (induction gs arbitrary: f) (auto intro: ForKind_ok surjective_pairing)

text \<open>\<open>ForKind\<close> gives a kind one shared controller for good, and different kinds different ones: asked again after
  any requests for other kinds, it answers the same controller and changes nothing, so that all the
  handlers of a kind meet in one controller and its one informer.\<close>

theorem ForKind_one_controller:
  assumes "factory_ok f" and "ForKind g f = (Inr p, f1)"
  shows "ForKind g (kind_table.run_all gs f1) = (Inr p, kind_table.run_all gs f1) \<and>
    (g' \<noteq> g \<longrightarrow> fst (ForKind g' (kind_table.run_all gs f1)) \<noteq> Inr p)"
proof -
  let ?f = "kind_table.run_all gs f1"
  have stable: "ForKind g ?f = (Inr p, ?f)" by (rule kind_table.answer_stable [OF assms(2)])
  have ok: "factory_ok ?f" by (intro fold_ForKind_ok ForKind_ok [OF assms])
  have at_g: "fControllers ?f g = Some p" using ForKind_some [OF stable] .
  have "fst (ForKind g' ?f) \<noteq> Inr p" if "g' \<noteq> g"
  proof (cases "fControllers ?f g'")
    case None
    then show ?thesis using ok at_g by (auto simp: ForKind_def factory_ok_def)
  next
    case (Some p')
    then have "p' \<noteq> p" using ok at_g that by (auto simp: factory_ok_def inj_on_def dom_def)
    with Some show ?thesis by (simp add: ForKind_def)
  qed
  with stable show ?thesis by blast
qed

theorem ForKind_one_controller_witness:
  "ForKind cm_gvk (kind_table.run_all [cm_gvk\<lparr>Kind := ''Pod''\<rparr>]
      (snd (ForKind cm_gvk (NewSharedControllerFactory 10 0 (\<lambda>_. None) :: nat factory)))) =
    (Inr 0, kind_table.run_all [cm_gvk\<lparr>Kind := ''Pod''\<rparr>]
      (snd (ForKind cm_gvk (NewSharedControllerFactory 10 0 (\<lambda>_. None) :: nat factory))))"
  using ForKind_one_controller [OF NewSharedControllerFactory_ok [of 10 0 "\<lambda>_. None"], of cm_gvk 0
      "snd (ForKind cm_gvk (NewSharedControllerFactory 10 0 (\<lambda>_. None) :: nat factory))" "[cm_gvk\<lparr>Kind := ''Pod''\<rparr>]" cm_gvk]
  by (simp add: ForKind_def NewSharedControllerFactory_def)

lemma shared_Start_None:
  assumes "shared_Start a w s = (None, s')" and "scController s \<noteq> None"
  shows "scStarted s' \<and> scController s' \<noteq> None"
  using assms by (auto simp: shared_Start_def split: option.splits if_splits prod.splits)

lemma shared_Start_keeps:
  "shared_Start a w s = (e, s') \<Longrightarrow> scController s' = None \<longleftrightarrow> scController s = None"
  "shared_Start a w s = (e, s') \<Longrightarrow> scStarted s \<Longrightarrow> scStarted s'"
  by (auto simp: shared_Start_def split: option.splits if_splits prod.splits)

definition running_at :: "'w factory \<Rightarrow> nat \<Rightarrow> bool" where
  "running_at f p \<longleftrightarrow> (case fStore f p of None \<Rightarrow> True | Some s \<Rightarrow> scController s \<noteq> None \<longrightarrow> scStarted s)"

lemma start_controllers_keeps_running:
  "start_controllers ans gps f = (e, f') \<Longrightarrow> running_at f p \<Longrightarrow> running_at f' p"
proof (induction gps arbitrary: f)
  case Nil
  then show ?case by simp
next
  case (Cons gp gps)
  obtain g q where gp: "gp = (g, q)" by fastforce
  show ?case
  proof (cases "fStore f q")
    case None
    with Cons gp show ?thesis by simp
  next
    case (Some s)
    obtain e1 s1 where st: "shared_Start (ans g) (getWorkers g f) s = (e1, s1)" by fastforce
    have "running_at (f\<lparr>fStore := (fStore f)(q \<mapsto> s1)\<rparr>) p"
      using Cons.prems(2) Some shared_Start_keeps [OF st] by (auto simp: running_at_def)
    with Cons Some st gp show ?thesis by (cases e1) auto
  qed
qed

lemma start_controllers_all:
  "start_controllers ans gps f = (None, f') \<Longrightarrow> (g, p) \<in> set gps \<Longrightarrow> running_at f' p"
proof (induction gps arbitrary: f)
  case Nil
  then show ?case by simp
next
  case (Cons gp gps)
  obtain g1 q where gp: "gp = (g1, q)" by fastforce
  show ?case
  proof (cases "fStore f q")
    case None
    then have "running_at f q" by (simp add: running_at_def)
    then have "running_at f' q" by (rule start_controllers_keeps_running [OF Cons.prems(1)])
    with None Cons gp show ?thesis by auto
  next
    case (Some s)
    obtain e1 s1 where st: "shared_Start (ans g1) (getWorkers g1 f) s = (e1, s1)" by fastforce
    let ?f = "f\<lparr>fStore := (fStore f)(q \<mapsto> s1)\<rparr>"
    from Cons.prems(1) Some st gp have e1: "e1 = None" and rest: "start_controllers ans gps ?f = (None, f')"
      by (cases e1; simp)+
    have "running_at ?f q"
      using st e1 shared_Start_None [of "ans g1" "getWorkers g1 f" s s1] shared_Start_keeps(1) [OF st]
      by (auto simp: running_at_def)
    then have "running_at f' q" by (rule start_controllers_keeps_running [OF rest])
    with Cons.IH [OF rest] Cons.prems(2) gp show ?thesis by auto
  qed
qed

text \<open>When the factory starts without an error, every controller of its table that is in use (some operation has
  made it) runs, in whatever order the map gives them; those nobody used stay unmade.\<close>

theorem loadAndStart_runs_all:
  assumes "loadAndStart ans True order f = (None, f')" and "set order = {(g, p). fControllers f g = Some p}"
    and "fControllers f g = Some p"
  shows "case fStore f' p of None \<Rightarrow> True | Some s \<Rightarrow> scController s \<noteq> None \<longrightarrow> scStarted s"
  using assms start_controllers_all [of ans order f f' g p]
  by (simp add: loadAndStart_def running_at_def)

definition two_kinds :: "nat factory" where
  "two_kinds =
     (let f = snd (ForKind (cm_gvk\<lparr>Kind := ''Pod''\<rparr>) (snd (ForKind cm_gvk (NewSharedControllerFactory 10 0 (\<lambda>_. None)))))
      in f\<lparr>fStore := (fStore f)(0 \<mapsto> new_shared\<lparr>scController := Some (RealController (new_controller None) new_life)\<rparr>)\<rparr>)"

definition good_start :: start_answers where
  "good_start = \<lparr>stInformer = Inr True, stAddHandler = None, stSynced = True\<rparr>"

lemma two_kinds_start:
  "loadAndStart (\<lambda>_. good_start) True [(cm_gvk\<lparr>Kind := ''Pod''\<rparr>, 1), (cm_gvk, 0)] two_kinds =
    (None, two_kinds\<lparr>fStore :=
      [0 \<mapsto> new_shared\<lparr>scController := Some (RealController (new_controller None)
             \<lparr>lfStarted = True, lfInformer = True, lfRegistration = True, lfAttached = True\<rparr>),
           scStarted := True, scWorkers := 10\<rparr>,
       1 \<mapsto> new_shared]\<rparr>)"
  by (simp add: loadAndStart_def two_kinds_def good_start_def ForKind_def NewSharedControllerFactory_def cm_gvk_def
      shared_Start_def new_shared_def ctl_Start_def first_Start getWorkers_def applyDefaultSharedOptions_def Let_def
      fun_upd_twist)

theorem loadAndStart_runs_all_witness:
  "scStarted (new_shared\<lparr>scController := Some (RealController (new_controller None)
       \<lparr>lfStarted = True, lfInformer = True, lfRegistration = True, lfAttached = True\<rparr>),
     scStarted := True, scWorkers := (10::int)\<rparr> :: nat sharedController)"
  using loadAndStart_runs_all [OF two_kinds_start, of cm_gvk 0]
  by (simp add: two_kinds_def ForKind_def NewSharedControllerFactory_def cm_gvk_def Let_def new_shared_def)

section \<open>The backend\<close>

record 'w backend_state =
  beFactory :: "'w factory"
  beStarted :: bool
  bePurging :: bool

definition newBackend :: "'w factory \<Rightarrow> 'w backend_state" where
  "newBackend f = \<lparr>beFactory = f, beStarted = False, bePurging = False\<rparr>"

text \<open>\<open>Backend.start\<close>; \<open>synced\<close> is the answer of the cache's \<open>WaitForCacheSync\<close>.\<close>

definition Backend_start ::
  "(gvk \<Rightarrow> start_answers) \<Rightarrow> (gvk \<times> nat) list \<Rightarrow> bool \<Rightarrow> bool \<Rightarrow> 'w backend_state \<Rightarrow> err option \<times> 'w backend_state" where
  "Backend_start ans order synced preloadOnly b =
     (case loadAndStart ans (\<not> preloadOnly) order (beFactory b) of
        (Some err, f) \<Rightarrow> (Some err, b\<lparr>beFactory := f\<rparr>)
      | (None, f) \<Rightarrow>
          if \<not> synced then (Some (Err ''failed to wait for caches to sync''), b\<lparr>beFactory := f\<rparr>)
          else (None, b\<lparr>beFactory := f, bePurging := (if \<not> beStarted b then True else bePurging b), beStarted := True\<rparr>))"

definition Backend_Start ::
  "(gvk \<Rightarrow> start_answers) \<Rightarrow> (gvk \<times> nat) list \<Rightarrow> bool \<Rightarrow> 'w backend_state \<Rightarrow> err option \<times> 'w backend_state" where
  "Backend_Start ans order synced b = Backend_start ans order synced False b"

definition Backend_Preload ::
  "(gvk \<Rightarrow> start_answers) \<Rightarrow> (gvk \<times> nat) list \<Rightarrow> bool \<Rightarrow> 'w backend_state \<Rightarrow> err option \<times> 'w backend_state" where
  "Backend_Preload ans order synced b = Backend_start ans order synced True b"

definition Backend_Trigger :: "(gvk \<Rightarrow> err + ctl) \<Rightarrow> gvk \<Rightarrow> string \<Rightarrow> int \<Rightarrow> 'w factory \<Rightarrow> err option \<times> 'w factory" where
  "Backend_Trigger deferred g key delay f =
     (case ForKind g f of
        (Inl err, f) \<Rightarrow> (Some err, f)
      | (Inr p, f) \<Rightarrow>
          (None, f\<lparr>fStore := (fStore f)(p := map_option (shared_EnqueueKeyAfter (deferred g) (TriggerPrefix @ key) delay) (fStore f p))\<rparr>))"

text \<open>\<open>addIndexer\<close> is the library's answer to the indexers; \<open>threadiness\<close> is \<open>DefaultThreadiness\<close>. The outer
  \<open>None\<close> is a panic.\<close>

definition Backend_Watcher ::
  "(gvk \<Rightarrow> string) \<Rightarrow> (gvk \<Rightarrow> err + ctl) \<Rightarrow> (gvk \<Rightarrow> err option) \<Rightarrow> register_answers \<Rightarrow> start_answers \<Rightarrow> int \<Rightarrow> gvk
     \<Rightarrow> string \<Rightarrow> 'w shared_fn \<Rightarrow> 'w backend_state \<Rightarrow> (err option \<times> 'w backend_state) option" where
  "Backend_Watcher gvkText deferred addIndexer a ans threadiness g name cb b =
     (case ForKind g (beFactory b) of
        (Inl err, f) \<Rightarrow> Some (Some err, b\<lparr>beFactory := f\<rparr>)
      | (Inr p, f) \<Rightarrow>
          (case addIndexer g of
             Some err \<Rightarrow> Some (Some err, b\<lparr>beFactory := f\<rparr>)
           | None \<Rightarrow>
               (case Option.bind (fStore f p) (RegisterHandler a (deferred g) (name @ '' '' @ gvkText g) cb None) of
                  None \<Rightarrow> None
                | Some (Some err, tx, s) \<Rightarrow> Some (Some err, b\<lparr>beFactory := f\<lparr>fStore := (fStore f)(p \<mapsto> s)\<rparr>\<rparr>)
                | Some (None, tx, s) \<Rightarrow>
                    if beStarted b then
                      (case shared_Start ans threadiness s of
                         (err, s) \<Rightarrow> Some (err, b\<lparr>beFactory := f\<lparr>fStore := (fStore f)(p \<mapsto> s)\<rparr>\<rparr>))
                    else Some (None, b\<lparr>beFactory := f\<lparr>fStore := (fStore f)(p \<mapsto> s)\<rparr>\<rparr>))))"

text \<open>The values under which an object is indexed by a field: its own, and its namespace's when it has one.\<close>

definition index_values :: "string \<Rightarrow> string \<Rightarrow> string list" where
  "index_values ns v =
     (if v = [] then []
      else [keyFunc [] v] @ (if ns \<noteq> [] then [keyFunc ns v] else []))"

text \<open>The function for one field; \<open>FieldNames\<close> is \<open>None\<close> for an object that is no \<open>fields.Fields\<close>.\<close>

definition indexFunc ::
  "(kobj \<Rightarrow> string list option) \<Rightarrow> (kobj \<Rightarrow> string \<Rightarrow> string) \<Rightarrow> string \<Rightarrow> kobj \<Rightarrow> string list" where
  "indexFunc FieldNames fieldGet field obj =
     (case FieldNames obj of None \<Rightarrow> [] | Some _ \<Rightarrow> index_values (Namespace obj) (fieldGet obj field))"

definition field_indexers ::
  "(kobj \<Rightarrow> string list option) \<Rightarrow> (kobj \<Rightarrow> string \<Rightarrow> string) \<Rightarrow> string list \<Rightarrow> (string, kobj \<Rightarrow> string list) gomap" where
  "field_indexers FieldNames fieldGet names =
     fold (\<lambda>field m. AList.update (''field:'' @ field) (indexFunc FieldNames fieldGet field) m) names []"

text \<open>\<open>newObj\<close> is the scheme's \<open>New\<close>, \<open>informer\<close> the answer of \<open>GetInformerForKind\<close>, \<open>AddIndexers\<close> the informer's.\<close>

definition Backend_addIndexer ::
  "(gvk \<Rightarrow> err + kobj) \<Rightarrow> (kobj \<Rightarrow> string list option) \<Rightarrow> (kobj \<Rightarrow> string \<Rightarrow> string) \<Rightarrow> (gvk \<Rightarrow> err option)
     \<Rightarrow> (gvk \<Rightarrow> (string, kobj \<Rightarrow> string list) gomap \<Rightarrow> err option) \<Rightarrow> gvk \<Rightarrow> err option" where
  "Backend_addIndexer newObj FieldNames fieldGet informer AddIndexers g =
     (case newObj g of
        Inl err \<Rightarrow> Some err
      | Inr obj \<Rightarrow>
          (case FieldNames obj of
             None \<Rightarrow> None
           | Some names \<Rightarrow>
               (case informer g of
                  Some err \<Rightarrow> Some err
                | None \<Rightarrow> AddIndexers g (field_indexers FieldNames fieldGet names))))"

lemma field_indexers_lookup:
  "map_of (field_indexers FieldNames fieldGet names) k =
     (if \<exists>f \<in> set names. k = ''field:'' @ f then Some (indexFunc FieldNames fieldGet (drop 6 k)) else None)"
proof -
  have "map_of (fold (\<lambda>field m. AList.update (''field:'' @ field) (indexFunc FieldNames fieldGet field) m) names m) k =
      (if \<exists>f \<in> set names. k = ''field:'' @ f then Some (indexFunc FieldNames fieldGet (drop 6 k)) else map_of m k)" for m
    by (induction names arbitrary: m) (auto simp: update_conv')
  then show ?thesis by (simp add: field_indexers_def)
qed

text \<open>Under which values an object is found: when neither its namespace, its value nor the text asked for holds a slash, the
  index answers to exactly its own value, alone and with its own namespace.\<close>

theorem index_values_exact:
  assumes "no_slash ns v" and "no_slash ns' v'"
  shows "keyFunc ns' v' \<in> set (index_values ns v) \<longleftrightarrow> v \<noteq> [] \<and> v' = v \<and> (ns' = [] \<or> ns' = ns)"
  using assms by (auto simp: index_values_def keyFunc_def no_slash_def append_Cons_eq_iff)

theorem index_values_exact_witness:
  "keyFunc ''ns'' ''v'' \<in> set (index_values ''ns'' ''v'') \<and> keyFunc ''other'' ''v'' \<notin> set (index_values ''ns'' ''v'')"
  using index_values_exact [of "''ns''" "''v''" "''ns''" "''v''"] index_values_exact [of "''ns''" "''v''" "''other''" "''v''"]
  by (simp add: no_slash_def)

text \<open>The value of a field may hold a slash; then an object of any namespace is found under the rest of its value in the
  namespace that the first part names.\<close>

theorem index_value_with_slash:
  assumes "ns' \<noteq> []"
  shows "keyFunc ns' v' \<in> set (index_values ns (ns' @ ''/'' @ v'))"
  using assms by (simp add: index_values_def keyFunc_def)

lemma fold_register_body_started:
  assumes "\<not> scStarted s" and "scController s = None" and "deferred = Inr c"
  shows "RegisterHandler a deferred name cb None s = Some (None, None,
     s\<lparr>scStartError := None, scController := Some c,
       scHandler := snd (SharedHandler_Register name cb (scHandler s))\<rparr>)"
  using assms
  by (simp add: RegisterHandler_def initController_def tx_do_def register_body_def SharedHandler_Register_def Let_def)

text \<open>A kind that is first watched after the backend has started gets \<open>DefaultThreadiness\<close> workers, whatever
  number was configured for the kind (\<open>GVKThreadiness\<close>, what \<open>getWorkers\<close> answers and
  \<open>loadAndStart\<close> uses).\<close>

theorem late_watch_default_workers:
  assumes "beStarted b" and "fControllers (beFactory b) g = None" and "addIndexer g = None"
    and "deferred g = Inr (RealController q new_life)" and "stAddHandler ans = None" and "stSynced ans"
  shows "\<exists>b' p s. Backend_Watcher gvkText deferred addIndexer a ans threadiness g name cb b = Some (None, b') \<and>
    fControllers (beFactory b') g = Some p \<and> fStore (beFactory b') p = Some s \<and>
    scStarted s \<and> scWorkers s = threadiness \<and> getWorkers g (beFactory b') = getWorkers g (beFactory b)"
  using assms
  by (simp add: Backend_Watcher_def ForKind_def fold_register_body_started new_shared_def shared_Start_def
      ctl_Start_def first_Start getWorkers_def split: option.split)

theorem late_watch_default_workers_witness:
  "\<exists>b' p s. Backend_Watcher (\<lambda>_. []) (\<lambda>_. Inr (RealController (new_controller None) new_life)) (\<lambda>_. None)
       \<lparr>raNew = None, raList = Inr [], raEach = None\<rparr> good_start 10 cm_gvk ''w'' failing_handler
       \<lparr>beFactory = NewSharedControllerFactory 10 0 [cm_gvk \<mapsto> 1], beStarted = True, bePurging = True\<rparr> = Some (None, b') \<and>
     fControllers (beFactory b') cm_gvk = Some p \<and> fStore (beFactory b') p = Some s \<and> scStarted s \<and>
     scWorkers s = 10 \<and> getWorkers cm_gvk (beFactory b') = 1"
  using late_watch_default_workers [of "\<lparr>beFactory = NewSharedControllerFactory 10 0 [cm_gvk \<mapsto> 1], beStarted = True, bePurging = True\<rparr>"
      cm_gvk "\<lambda>_. None" "\<lambda>_. Inr (RealController (new_controller None) new_life)" "new_controller None" good_start
      "\<lambda>_. []" "\<lparr>raNew = None, raList = Inr [], raEach = None\<rparr>" 10 "''w''" failing_handler]
  by (simp add: NewSharedControllerFactory_def good_start_def getWorkers_def)

text \<open>A preload that succeeds counts as a start, for the backend: its controllers do not run, but a kind that is watched
  afterwards starts its controller at once.\<close>

theorem preload_then_watch_runs:
  assumes "Backend_Preload (\<lambda>_. good_start) order True b = (None, b')" and "fControllers (beFactory b') g = None"
    and "addIndexer g = None" and "deferred g = Inr (RealController q new_life)"
  shows "\<exists>b'' p s. Backend_Watcher gvkText deferred addIndexer a good_start threadiness g name cb b' = Some (None, b'') \<and>
    fControllers (beFactory b'') g = Some p \<and> fStore (beFactory b'') p = Some s \<and> scStarted s"
proof -
  have "beStarted b'"
    using assms(1) by (auto simp: Backend_Preload_def Backend_start_def split: prod.splits option.splits)
  moreover have "stAddHandler good_start = None" "stSynced good_start" by (simp_all add: good_start_def)
  ultimately show ?thesis
    using late_watch_default_workers [of b' g addIndexer deferred q good_start] assms(2-4) by blast
qed

theorem preload_then_watch_runs_witness:
  "\<exists>b p s. Backend_Watcher (\<lambda>_. []) (\<lambda>_. Inr (RealController (new_controller None) new_life)) (\<lambda>_. None)
       \<lparr>raNew = None, raList = Inr [], raEach = None\<rparr> good_start 10 cm_gvk ''w'' failing_handler
       (snd (Backend_Preload (\<lambda>_. good_start) [] True (newBackend (NewSharedControllerFactory 10 0 (\<lambda>_. None))))) = Some (None, b) \<and>
     fControllers (beFactory b) cm_gvk = Some p \<and> fStore (beFactory b) p = Some s \<and> scStarted s"
proof -
  let ?b = "newBackend (NewSharedControllerFactory 10 0 (\<lambda>_. None)) :: nat backend_state"
  have p: "Backend_Preload (\<lambda>_. good_start) [] True ?b = (None, ?b\<lparr>bePurging := True, beStarted := True\<rparr>)"
    by (simp add: Backend_Preload_def Backend_start_def loadAndStart_def newBackend_def)
  from preload_then_watch_runs [OF p, of cm_gvk "\<lambda>_. None"] show ?thesis
    unfolding p by (simp add: newBackend_def NewSharedControllerFactory_def)
qed

end
