(* ===== verification/Rest_Mapper.thy ===== *)
theory Rest_Mapper
  imports Memo Nah_Prelude
begin

text \<open>
  pkg/mapper/mapper.go: the REST mapper with four process-wide caches. A mapper of the library, made from the API
  groups that discovery answered, is the record \<open>disc\<close>: its three lookups as functions of those groups.
  The state has the caches and the groups the mapper has loaded; \<open>getAPIGroups\<close> is the call to the server on
  the world \<open>'w\<close>. A lock is held over each access, so that a lookup is a sequence of atomic sections; the
  properties hold for any states in between, since the caches only grow.
\<close>

section \<open>State\<close>

record mapping =
  mpResource :: gvr
  mpKind :: gvk
  mpNamespaced :: bool

record gkKey =
  gkVersions :: string
  gkGK :: gk

record 'api disc =
  discKindsFor :: "'api \<Rightarrow> gvr \<Rightarrow> err + gvk list"
  discResourcesFor :: "'api \<Rightarrow> gvr \<Rightarrow> err + gvr list"
  discRESTMappings :: "'api \<Rightarrow> gk \<Rightarrow> string list \<Rightarrow> err + mapping list"
  discSingularizer :: "'api \<Rightarrow> string \<Rightarrow> err + string"

record ('api, 'w) mapper =
  gvrCache :: "(gvr, gvk list) gomap"
  gvrGvrCache :: "(gvr, gvr list) gomap"
  gkCache :: "(gkKey, mapping list) gomap"
  nameCache :: "(string, string) gomap"
  api :: "'api list"
  mworld :: 'w

definition new_mapper :: "'w \<Rightarrow> ('api, 'w) mapper" where
  "new_mapper w = \<lparr>gvrCache = [], gvrGvrCache = [], gkCache = [], nameCache = [], api = [], mworld = w\<rparr>"

section \<open>Loading and asking again\<close>

definition load_api ::
  "('w \<Rightarrow> (err + 'api list) \<times> 'w) \<Rightarrow> ('api, 'w) mapper \<Rightarrow> err option \<times> ('api, 'w) mapper" where
  "load_api getAPIGroups m =
     (case getAPIGroups (mworld m) of
        (Inl err, w) \<Rightarrow> (Some err, m\<lparr>mworld := w\<rparr>)
      | (Inr a, w) \<Rightarrow> (None, m\<lparr>api := a, mworld := w\<rparr>))"

text \<open>\<open>f\<close> is the lookup on the library's mapper for the groups it is given.\<close>

definition withClient ::
  "('w \<Rightarrow> (err + 'api list) \<times> 'w) \<Rightarrow> ('api list \<Rightarrow> err + 'r) \<Rightarrow> ('api, 'w) mapper \<Rightarrow> (err + 'r) \<times> ('api, 'w) mapper" where
  "withClient getAPIGroups f m =
     (let shouldRetry = (0 < length (api m)) in
      case (if length (api m) = 0 then load_api getAPIGroups m else (None, m)) of
        (Some err, m) \<Rightarrow> (Inl err, m)
      | (None, m) \<Rightarrow>
          (case f (api m) of
             Inr r \<Rightarrow> (Inr r, m)
           | Inl err \<Rightarrow>
               if \<not> shouldRetry then (Inl err, m)
               else
                 (case load_api getAPIGroups m of
                    (Some err, m) \<Rightarrow> (Inl err, m)
                  | (None, m) \<Rightarrow> (f (api m), m))))"

section \<open>The four lookups\<close>

definition KindsFor ::
  "'api list disc \<Rightarrow> ('w \<Rightarrow> (err + 'api list) \<times> 'w) \<Rightarrow> gvr \<Rightarrow> ('api, 'w) mapper \<Rightarrow> (err + gvk list) \<times> ('api, 'w) mapper" where
  "KindsFor D get resource m =
     (case map_of (gvrCache m) resource of
        Some gvks \<Rightarrow> (Inr gvks, m)
      | None \<Rightarrow>
          (case withClient get (\<lambda>a. discKindsFor D a resource) m of
             (Inl err, m) \<Rightarrow> (Inl err, m)
           | (Inr gvks, m) \<Rightarrow> (Inr gvks, m\<lparr>gvrCache := AList.update resource gvks (gvrCache m)\<rparr>)))"

definition ResourcesFor ::
  "'api list disc \<Rightarrow> ('w \<Rightarrow> (err + 'api list) \<times> 'w) \<Rightarrow> gvr \<Rightarrow> ('api, 'w) mapper \<Rightarrow> (err + gvr list) \<times> ('api, 'w) mapper" where
  "ResourcesFor D get input m =
     (case map_of (gvrGvrCache m) input of
        Some gvrs \<Rightarrow> (Inr gvrs, m)
      | None \<Rightarrow>
          (case withClient get (\<lambda>a. discResourcesFor D a input) m of
             (Inl err, m) \<Rightarrow> (Inl err, m)
           | (Inr gvrs, m) \<Rightarrow> (Inr gvrs, m\<lparr>gvrGvrCache := AList.update input gvrs (gvrGvrCache m)\<rparr>)))"

text \<open>The versions are part of the cache's key, but not of the question.\<close>

definition gk_key :: "gk \<Rightarrow> string list \<Rightarrow> gkKey" where
  "gk_key g versions = \<lparr>gkVersions = strings_Join versions ''|'', gkGK = g\<rparr>"

definition RESTMappings ::
  "'api list disc \<Rightarrow> ('w \<Rightarrow> (err + 'api list) \<times> 'w) \<Rightarrow> gk \<times> string list \<Rightarrow> ('api, 'w) mapper
     \<Rightarrow> (err + mapping list) \<times> ('api, 'w) mapper" where
  "RESTMappings D get gvs m =
     (case gvs of (g, versions) \<Rightarrow>
      let key = gk_key g versions in
      case map_of (gkCache m) key of
        Some mappings \<Rightarrow> (Inr mappings, m)
      | None \<Rightarrow>
          (case withClient get (\<lambda>a. discRESTMappings D a g []) m of
             (Inl err, m) \<Rightarrow> (Inl err, m)
           | (Inr mappings, m) \<Rightarrow> (Inr mappings, m\<lparr>gkCache := AList.update key mappings (gkCache m)\<rparr>)))"

definition ResourceSingularizer ::
  "'api list disc \<Rightarrow> ('w \<Rightarrow> (err + 'api list) \<times> 'w) \<Rightarrow> string \<Rightarrow> ('api, 'w) mapper \<Rightarrow> (err + string) \<times> ('api, 'w) mapper" where
  "ResourceSingularizer D get resource m =
     (case map_of (nameCache m) resource of
        Some singular \<Rightarrow> (Inr singular, m)
      | None \<Rightarrow>
          (case withClient get (\<lambda>a. discSingularizer D a resource) m of
             (Inl err, m) \<Rightarrow> (Inl err, m)
           | (Inr singular, m) \<Rightarrow> (Inr singular, m\<lparr>nameCache := AList.update resource singular (nameCache m)\<rparr>)))"

text \<open>The first of the answers; the outer \<open>None\<close> is the panic of an empty list. \<open>KindFor\<close> drops the error.\<close>

definition zero_gvk :: gvk where
  "zero_gvk = \<lparr>Group = [], Version = [], Kind = []\<rparr>"

definition KindFor ::
  "'api list disc \<Rightarrow> ('w \<Rightarrow> (err + 'api list) \<times> 'w) \<Rightarrow> gvr \<Rightarrow> ('api, 'w) mapper
     \<Rightarrow> ((err option \<times> gvk) \<times> ('api, 'w) mapper) option" where
  "KindFor D get resource m =
     (case KindsFor D get resource m of
        (Inl err, m) \<Rightarrow> Some ((None, zero_gvk), m)
      | (Inr [], m) \<Rightarrow> None
      | (Inr (g # gs), m) \<Rightarrow> Some ((None, g), m))"

definition ResourceFor ::
  "'api list disc \<Rightarrow> ('w \<Rightarrow> (err + 'api list) \<times> 'w) \<Rightarrow> gvr \<Rightarrow> ('api, 'w) mapper
     \<Rightarrow> ((err + gvr) \<times> ('api, 'w) mapper) option" where
  "ResourceFor D get input m =
     (case ResourcesFor D get input m of
        (Inl err, m) \<Rightarrow> Some (Inl err, m)
      | (Inr [], m) \<Rightarrow> None
      | (Inr (g # gs), m) \<Rightarrow> Some (Inr g, m))"

definition RESTMapping ::
  "'api list disc \<Rightarrow> ('w \<Rightarrow> (err + 'api list) \<times> 'w) \<Rightarrow> gk \<Rightarrow> string list \<Rightarrow> ('api, 'w) mapper
     \<Rightarrow> ((err + mapping) \<times> ('api, 'w) mapper) option" where
  "RESTMapping D get g versions m =
     (case RESTMappings D get (g, versions) m of
        (Inl err, m) \<Rightarrow> Some (Inl err, m)
      | (Inr [], m) \<Rightarrow> None
      | (Inr (x # xs), m) \<Rightarrow> Some (Inr x, m))"

section \<open>The caches keep the contract of a lookaside cache\<close>

lemma load_api_caches:
  "load_api get m = (e, m') \<Longrightarrow> gvrCache m' = gvrCache m \<and> gvrGvrCache m' = gvrGvrCache m \<and>
     gkCache m' = gkCache m \<and> nameCache m' = nameCache m"
  by (auto simp: load_api_def split: prod.splits sum.splits)

lemma withClient_caches:
  "withClient get f m = (r, m') \<Longrightarrow> gvrCache m' = gvrCache m \<and> gvrGvrCache m' = gvrGvrCache m \<and>
     gkCache m' = gkCache m \<and> nameCache m' = nameCache m"
  by (auto simp: withClient_def Let_def split: prod.splits sum.splits option.splits if_splits dest!: load_api_caches)

lemmas withClient_cache = withClient_caches [THEN conjunct1] withClient_caches [THEN conjunct2, THEN conjunct1]
  withClient_caches [THEN conjunct2, THEN conjunct2, THEN conjunct1] withClient_caches [THEN conjunct2, THEN conjunct2, THEN conjunct2]

interpretation kinds_memo: memo "KindsFor D get" "\<lambda>m. map_of (gvrCache m)" for D get
  by unfold_locales (auto simp: KindsFor_def split: option.splits prod.splits sum.splits dest: withClient_cache)

interpretation resources_memo: memo "ResourcesFor D get" "\<lambda>m. map_of (gvrGvrCache m)" for D get
  by unfold_locales (auto simp: ResourcesFor_def split: option.splits prod.splits sum.splits dest: withClient_cache)

interpretation mappings_memo: memo "RESTMappings D get" "\<lambda>m gvs. map_of (gkCache m) (gk_key (fst gvs) (snd gvs))" for D get
  by unfold_locales
    (auto simp: RESTMappings_def Let_def split: option.splits prod.splits sum.splits if_splits dest: withClient_cache)

interpretation names_memo: memo "ResourceSingularizer D get" "\<lambda>m. map_of (nameCache m)" for D get
  by unfold_locales (auto simp: ResourceSingularizer_def split: option.splits prod.splits sum.splits dest: withClient_cache)

section \<open>Answers and errors\<close>

lemma withClient_error:
  assumes "withClient get f m = (Inl err, m')"
  shows "fst (get (mworld m)) = Inl err \<or> (fst (get (mworld m)) = Inr (api m') \<and> f (api m') = Inl err)"
  using assms
  by (auto simp: withClient_def load_api_def Let_def split: prod.splits sum.splits option.splits if_splits)

lemma withClient_answer: "withClient get f m = (Inr r, m') \<Longrightarrow> f (api m') = Inr r"
  by (auto simp: withClient_def load_api_def Let_def split: prod.splits sum.splits option.splits if_splits)

text \<open>An answer of the mapper is final and an error is not: once \<open>RESTMappings\<close> has answered, it answers the same
  after any other lookups, without asking the server; and it reports an error only when the server could not be asked in
  this very call, or what it has just answered does not have the kind either, so that a kind installed
  after the groups were loaded is found.\<close>

theorem RESTMappings_retries:
  assumes "RESTMappings D get (g, vs) m = (r, m')"
  shows "case r of
      Inr ms \<Rightarrow> RESTMappings D get (g, vs) (fold (\<lambda>k m. snd (RESTMappings D get k m)) ks m') =
        (Inr ms, fold (\<lambda>k m. snd (RESTMappings D get k m)) ks m')
    | Inl err \<Rightarrow> map_of (gkCache m') (gk_key g vs) = None \<and>
        (fst (get (mworld m)) = Inl err \<or>
         fst (get (mworld m)) = Inr (api m') \<and> discRESTMappings D (api m') g [] = Inl err)"
proof (cases r)
  case (Inr ms)
  with assms mappings_memo.answer_stable [of D get "(g, vs)" m ms m' ks] show ?thesis by simp
next
  case (Inl err)
  with assms have "map_of (gkCache m') (gk_key g vs) = None"
    using mappings_memo.error_recomputed [of D get "(g, vs)" m err m'] by simp
  moreover from assms Inl obtain m1 where "withClient get (\<lambda>a. discRESTMappings D a g []) m = (Inl err, m1)" "m' = m1"
    by (auto simp: RESTMappings_def Let_def split: option.splits prod.splits sum.splits)
  ultimately show ?thesis using Inl withClient_error by (fastforce)
qed

text \<open>A cluster with one kind in two versions, of which the library puts the preferred one first when it is not asked for
  a version; the world counts the discoveries.\<close>

definition crd_gk :: gk where
  "crd_gk = GroupKind \<lparr>Group = ''app'', Version = [], Kind = ''Widget''\<rparr>"

definition widget :: "string \<Rightarrow> mapping" where
  "widget v = \<lparr>mpResource = \<lparr>rGroup = ''app'', rVersion = v, rResource = ''widgets''\<rparr>,
     mpKind = \<lparr>Group = ''app'', Version = v, Kind = ''Widget''\<rparr>, mpNamespaced = True\<rparr>"

definition widget_disc :: "string list disc" where
  "widget_disc =
     \<lparr>discKindsFor = (\<lambda>a r. Inl (Err ''no match'')), discResourcesFor = (\<lambda>a r. Inl (Err ''no match'')),
      discRESTMappings = (\<lambda>a g vs. case filter (\<lambda>v. vs = [] \<or> List.member vs v) a of
         [] \<Rightarrow> Inl (Err ''no match'') | ms \<Rightarrow> Inr (map widget ms)),
      discSingularizer = (\<lambda>a r. Inr r)\<rparr>"

definition count_discoveries :: "nat \<Rightarrow> (err + string list) \<times> nat" where
  "count_discoveries n = (Inr [''v1'', ''v1beta1''], Suc n)"

lemma widget_mappings:
  "RESTMappings widget_disc count_discoveries (crd_gk, [''v1'']) (new_mapper 0) =
     (Inr [widget ''v1'', widget ''v1beta1''],
      (new_mapper 0)\<lparr>api := [''v1'', ''v1beta1''], mworld := 1,
         gkCache := [(gk_key crd_gk [''v1''], [widget ''v1'', widget ''v1beta1''])]\<rparr>)"
  by (simp add: RESTMappings_def new_mapper_def withClient_def load_api_def count_discoveries_def widget_disc_def Let_def)

theorem RESTMappings_retries_witness:
  "fst (RESTMappings widget_disc count_discoveries (crd_gk, [''v1''])
     (snd (RESTMappings widget_disc count_discoveries (crd_gk, []) (snd (RESTMappings widget_disc count_discoveries (crd_gk, [''v1'']) (new_mapper 0)))))) =
   Inr [widget ''v1'', widget ''v1beta1'']"
  using RESTMappings_retries [OF widget_mappings, of "[(crd_gk, [])]"] by (simp add: widget_mappings)

text \<open>The mapping that is asked for a version of a kind is the mapping of the preferred version: the versions are
  a part of the cache's key only, so that for every two lists of versions that are not cached yet
  \<open>RESTMapping\<close> gives the same answer.\<close>

theorem RESTMapping_ignores_versions:
  assumes "map_of (gkCache m) (gk_key g vs) = None" and "map_of (gkCache m) (gk_key g vs') = None"
  shows "map_option fst (RESTMapping D get g vs m) = map_option fst (RESTMapping D get g vs' m)"
proof -
  obtain r m1 where "withClient get (\<lambda>a. discRESTMappings D a g []) m = (r, m1)" by fastforce
  with assms show ?thesis
    by (cases r) (auto simp: RESTMapping_def RESTMappings_def Let_def split: list.split)
qed

theorem RESTMapping_ignores_versions_witness:
  "map_option fst (RESTMapping widget_disc count_discoveries crd_gk [''v1beta1''] (new_mapper 0)) = Some (Inr (widget ''v1'')) \<and>
   discRESTMappings widget_disc [''v1'', ''v1beta1''] crd_gk [''v1beta1''] = Inr [widget ''v1beta1'']"
proof -
  have "map_option fst (RESTMapping widget_disc count_discoveries crd_gk [''v1''] (new_mapper 0)) = Some (Inr (widget ''v1''))"
    by (simp add: RESTMapping_def widget_mappings)
  with RESTMapping_ignores_versions [of "new_mapper 0" crd_gk "[''v1'']" "[''v1beta1'']" widget_disc count_discoveries]
  show ?thesis by (simp add: new_mapper_def widget_disc_def)
qed

lemma KindFor_swallows_error:
  "KindsFor D get resource m = (Inl err, m') \<Longrightarrow> KindFor D get resource m = Some ((None, zero_gvk), m')"
  by (simp add: KindFor_def)

end
