(* ===== verification/Webhook.thy ===== *)
theory Webhook
  imports Kube_Lib Error_Lists
begin

text \<open>
  pkg/webhook: the router of an admission webhook. Routes are pointers into the router's list, in the order
  in which they were begun; the methods of a route set a field and hand the route on. Handlers work on the response
  and on a state \<open>'w\<close>. What the JSON decoder leaves in the review, error or not, is an argument.
\<close>

section \<open>Requests, responses and routes\<close>

record AdmissionRequest =
  arUID :: string
  arOperation :: string
  arRequestKind :: "gvk option"
  arRequestResource :: "gvr option"
  arSubResource :: string
  arName :: string
  arNamespace :: string
  arDryRun :: "bool option"
  arKindText :: string
  arObjectRaw :: string
  arOldObjectRaw :: string

record AdmissionResponse =
  rsUID :: string
  rsAllowed :: bool
  rsResult :: "err option"
  rsPatch :: string
  rsPatchType :: bool

type_synonym 'w admit_fn =
  "AdmissionResponse \<Rightarrow> AdmissionRequest \<Rightarrow> 'w \<Rightarrow> err option \<times> AdmissionResponse \<times> 'w"

record 'w RouteMatch =
  rmHandler :: "'w admit_fn option"
  rmKind :: string
  rmResource :: string
  rmVersion :: string
  rmSubResource :: string
  rmDryRun :: "bool option"
  rmGroup :: string
  rmName :: string
  rmNamespace :: string
  rmOperation :: string

definition empty_match :: "'w RouteMatch" where
  "empty_match = \<lparr>rmHandler = None, rmKind = [], rmResource = [], rmVersion = [], rmSubResource = [],
     rmDryRun = None, rmGroup = [], rmName = [], rmNamespace = [], rmOperation = []\<rparr>"

text \<open>The methods of a route, by the field they set.\<close>

datatype 'w setting =
    DryRun bool
  | ForGroup string
  | Handle "'w admit_fn"
  | ForKindName string
  | ForName string
  | ForNamespace string
  | Operation string
  | Resource string
  | SubResource string
  | ForVersion string

fun RouteMatch_set :: "'w setting \<Rightarrow> 'w RouteMatch \<Rightarrow> 'w RouteMatch" where
  "RouteMatch_set (DryRun b) r = r\<lparr>rmDryRun := Some b\<rparr>"
| "RouteMatch_set (ForGroup s) r = r\<lparr>rmGroup := s\<rparr>"
| "RouteMatch_set (Handle h) r = r\<lparr>rmHandler := Some h\<rparr>"
| "RouteMatch_set (ForKindName s) r = r\<lparr>rmKind := s\<rparr>"
| "RouteMatch_set (ForName s) r = r\<lparr>rmName := s\<rparr>"
| "RouteMatch_set (ForNamespace s) r = r\<lparr>rmNamespace := s\<rparr>"
| "RouteMatch_set (Operation s) r = r\<lparr>rmOperation := s\<rparr>"
| "RouteMatch_set (Resource s) r = r\<lparr>rmResource := s\<rparr>"
| "RouteMatch_set (SubResource s) r = r\<lparr>rmSubResource := s\<rparr>"
| "RouteMatch_set (ForVersion s) r = r\<lparr>rmVersion := s\<rparr>"

text \<open>The router's methods begin a new route (\<open>next\<close>) and set its first field; the result is the pointer.\<close>

definition webhook_next :: "'w RouteMatch list \<Rightarrow> nat \<times> 'w RouteMatch list" where
  "webhook_next ms = (length ms, ms @ [empty_match])"

definition webhook_route :: "'w setting \<Rightarrow> 'w RouteMatch list \<Rightarrow> nat \<times> 'w RouteMatch list" where
  "webhook_route s ms = (case webhook_next ms of (i, ms) \<Rightarrow> (i, ms[i := RouteMatch_set s (ms ! i)]))"

section \<open>Matching\<close>

definition checkString :: "string \<Rightarrow> string \<Rightarrow> bool" where
  "checkString expected actual = (if expected = [] then True else expected = actual)"

definition checkBool :: "bool option \<Rightarrow> bool option \<Rightarrow> bool" where
  "checkBool expected actual =
     (case expected of
        None \<Rightarrow> True
      | Some e \<Rightarrow> (case actual of None \<Rightarrow> False | Some a \<Rightarrow> e = a))"

definition RouteMatch_matches :: "'w RouteMatch \<Rightarrow> AdmissionRequest \<Rightarrow> bool" where
  "RouteMatch_matches r req =
     (case (case arRequestKind req of None \<Rightarrow> ([], [], []) | Some k \<Rightarrow> (Group k, Version k, Kind k)) of
        (group1, version1, kind) \<Rightarrow>
      case (case arRequestResource req of None \<Rightarrow> (group1, version1, []) | Some k \<Rightarrow> (rGroup k, rVersion k, rResource k)) of
        (group2, version2, resource) \<Rightarrow>
          checkString (rmKind r) kind \<and> checkString (rmResource r) resource \<and>
          checkString (rmSubResource r) (arSubResource req) \<and> checkString (rmVersion r) version2 \<and>
          checkString (rmGroup r) group2 \<and> checkString (rmName r) (arName req) \<and>
          checkString (rmNamespace r) (arNamespace req) \<and> checkString (rmOperation r) (arOperation req) \<and>
          checkBool (rmDryRun r) (arDryRun req))"

definition RouteMatch_admit :: "'w RouteMatch \<Rightarrow> 'w admit_fn" where
  "RouteMatch_admit r response req w =
     (case rmHandler r of Some h \<Rightarrow> h response req w | None \<Rightarrow> (None, response, w))"

fun webhook_admit :: "'w RouteMatch list \<Rightarrow> 'w admit_fn" where
  "webhook_admit [] response req w =
     (Some (Err (''no route match found for '' @ arOperation req @ '' '' @ arKindText req @ '' '' @
        resourceString (arNamespace req) (arName req))), response, w)"
| "webhook_admit (m # ms) response req w =
     (if RouteMatch_matches m req then RouteMatch_admit m response req w else webhook_admit ms response req w)"

section \<open>Serving\<close>

record review =
  rvRequest :: "AdmissionRequest option"
  rvResponse :: "AdmissionResponse option"

datatype reply = HttpError err | WriteReview review

text \<open>\<open>None\<close> is a panic: a request without a response to deny it in.\<close>

definition sendError :: "review \<Rightarrow> err \<Rightarrow> reply option" where
  "sendError rv err =
     (case rvRequest rv of
        None \<Rightarrow> Some (HttpError err)
      | Some _ \<Rightarrow>
          (case rvResponse rv of
             None \<Rightarrow> None
           | Some r \<Rightarrow> Some (WriteReview (rv\<lparr>rvResponse := Some (r\<lparr>rsAllowed := False, rsResult := Some err\<rparr>)\<rparr>))))"

definition new_AdmissionResponse :: "string \<Rightarrow> AdmissionResponse" where
  "new_AdmissionResponse uid = \<lparr>rsUID = uid, rsAllowed = False, rsResult = None, rsPatch = [], rsPatchType = False\<rparr>"

definition ServeHTTP :: "'w RouteMatch list \<Rightarrow> err option \<times> review \<Rightarrow> 'w \<Rightarrow> reply option \<times> 'w" where
  "ServeHTTP ms decoded w =
     (case decoded of
        (Some err, rv) \<Rightarrow> (sendError rv err, w)
      | (None, rv) \<Rightarrow>
          (case rvRequest rv of
             None \<Rightarrow> (sendError rv (Err ''request is not set''), w)
           | Some req \<Rightarrow>
               (case webhook_admit ms (new_AdmissionResponse (arUID req)) req w of
                  (Some err, response, w) \<Rightarrow> (sendError (rv\<lparr>rvResponse := Some response\<rparr>) err, w)
                | (None, response, w) \<Rightarrow> (Some (WriteReview (rv\<lparr>rvResponse := Some response\<rparr>)), w))))"

text \<open>\<open>jsonpatch\<close>: \<open>CreatePatch\<close> and the marshalling of its result.\<close>

definition Response_CreatePatch ::
  "('a) lib_scheme \<Rightarrow> (string \<Rightarrow> string \<Rightarrow> err + string) \<Rightarrow> AdmissionRequest \<Rightarrow> kobj \<Rightarrow> AdmissionResponse
     \<Rightarrow> err option \<times> AdmissionResponse" where
  "Response_CreatePatch L jsonpatch req newObj r =
     (if 0 < length (rsPatch r) then (Some (Err ''response patch has already been already been assigned''), r)
      else
        (case marshalObj L newObj of
           Inl err \<Rightarrow> (Some err, r)
         | Inr newBytes \<Rightarrow>
             (case jsonpatch (arObjectRaw req) newBytes of
                Inl err \<Rightarrow> (Some err, r)
              | Inr patchData \<Rightarrow> (None, r\<lparr>rsPatch := patchData, rsPatchType := True\<rparr>))))"

section \<open>Properties\<close>

lemma webhook_admit_find:
  "webhook_admit ms response req w =
     (case List.find (\<lambda>m. RouteMatch_matches m req) ms of
        None \<Rightarrow> (Some (Err (''no route match found for '' @ arOperation req @ '' '' @ arKindText req @ '' '' @
                   resourceString (arNamespace req) (arName req))), response, w)
      | Some m \<Rightarrow> RouteMatch_admit m response req w)"
  by (induction ms) auto

text \<open>C25: the webhook answers with the first route and fails closed: a decoded request is given to the handler of the first
  route that matches it and to no other; the review that is written back allows the request only if that handler
  has allowed it without an error, and every error, an unmatched request included, is a denial with the error.\<close>

theorem ServeHTTP_first_route:
  assumes "rvRequest rv = Some req"
  shows "ServeHTTP ms (None, rv) w =
    (case List.find (\<lambda>m. RouteMatch_matches m req) ms of
       None \<Rightarrow> (Some (WriteReview (rv\<lparr>rvResponse := Some ((new_AdmissionResponse (arUID req))
                  \<lparr>rsResult := Some (Err (''no route match found for '' @ arOperation req @ '' '' @ arKindText req @ '' '' @
                     resourceString (arNamespace req) (arName req)))\<rparr>)\<rparr>)), w)
     | Some m \<Rightarrow>
         (case rmHandler m of
            None \<Rightarrow> (Some (WriteReview (rv\<lparr>rvResponse := Some (new_AdmissionResponse (arUID req))\<rparr>)), w)
          | Some h \<Rightarrow>
              (case h (new_AdmissionResponse (arUID req)) req w of
                 (e, response, w') \<Rightarrow>
                   (Some (WriteReview (rv\<lparr>rvResponse := Some (case e of
                        None \<Rightarrow> response
                      | Some err \<Rightarrow> response\<lparr>rsAllowed := False, rsResult := Some err\<rparr>)\<rparr>)), w'))))"
  using assms
  by (auto simp: ServeHTTP_def webhook_admit_find RouteMatch_admit_def sendError_def new_AdmissionResponse_def
      split: option.splits prod.splits)

definition example_admission :: AdmissionRequest where
  "example_admission = \<lparr>arUID = ''u'', arOperation = ''CREATE'',
     arRequestKind = Some \<lparr>Group = [], Version = ''v1'', Kind = ''Pod''\<rparr>, arRequestResource = None, arSubResource = [],
     arName = ''a'', arNamespace = ''ns'', arDryRun = None, arKindText = ''/v1, Kind=Pod'', arObjectRaw = [], arOldObjectRaw = []\<rparr>"

definition pod_route :: "nat RouteMatch list" where
  "pod_route = [RouteMatch_set (Handle (\<lambda>r q n. (None, r\<lparr>rsAllowed := True\<rparr>, Suc n))) (RouteMatch_set (ForKindName ''Pod'') empty_match)]"

theorem ServeHTTP_first_route_witness:
  "ServeHTTP pod_route (None, \<lparr>rvRequest = Some example_admission, rvResponse = None\<rparr>) 0 =
     (Some (WriteReview \<lparr>rvRequest = Some example_admission,
        rvResponse = Some ((new_AdmissionResponse ''u'')\<lparr>rsAllowed := True\<rparr>)\<rparr>), 1)"
  using ServeHTTP_first_route [of "\<lparr>rvRequest = Some example_admission, rvResponse = None\<rparr>" example_admission pod_route 0]
  by (simp add: pod_route_def empty_match_def RouteMatch_matches_def checkString_def checkBool_def example_admission_def)

text \<open>A review that cannot be decoded to the end crashes its request instead of being answered: when the decoder has
  already read the admission request before it fails, the error is to be written into a response that does not
  exist yet.\<close>

theorem decode_error_panics:
  assumes "rvRequest rv \<noteq> None" and "rvResponse rv = None"
  shows "ServeHTTP ms (Some err, rv) w = (None, w)"
  using assms by (auto simp: ServeHTTP_def sendError_def split: option.splits)

theorem decode_error_panics_witness:
  "ServeHTTP pod_route (Some (Err ''bad json''), \<lparr>rvRequest = Some example_admission, rvResponse = None\<rparr>) 0 = (None, 0)"
  by (rule decode_error_panics) simp_all

lemma CreatePatch_once:
  "Response_CreatePatch L jsonpatch req newObj r = (None, r') \<Longrightarrow> rsPatch r' \<noteq> [] \<Longrightarrow>
     fst (Response_CreatePatch L jsonpatch req newObj' r') \<noteq> None"
  by (simp add: Response_CreatePatch_def)

text \<open>The routes of a router, as a program builds them: each begins with one setting and goes on with others.\<close>

fun build_routes :: "'w setting list list \<Rightarrow> 'w RouteMatch list \<Rightarrow> 'w RouteMatch list" where
  "build_routes [] ms = ms"
| "build_routes ([] # rs) ms = build_routes rs ms"
| "build_routes ((s # ss) # rs) ms =
     (case webhook_route s ms of
        (i, ms) \<Rightarrow> build_routes rs (ms[i := fold RouteMatch_set ss (ms ! i)]))"

lemma build_routes_settings:
  "build_routes rs ms = ms @ [fold RouteMatch_set ss empty_match. ss \<leftarrow> rs, ss \<noteq> []]"
  by (induction rs ms rule: build_routes.induct) (simp_all add: webhook_route_def webhook_next_def nth_append)

end
