(* ===== verification/Watch_Retry.thy ===== *)
theory Watch_Retry
  imports Kube_Object Error_Lists
begin

text \<open>
  pkg/watcher/watcher.go: list the objects, then watch until the callback is done, opening the watch again
  from the last revision seen when it ends early. What a \<open>select\<close> of the watch loop receives is a list of inputs, in an order the
  runtime chose; the end of the list is a \<open>select\<close> that never fires. The callback and the server act on a state \<open>'w\<close>.
  A loop that does not return is the value \<open>None\<close> (\<^theory_text>\<open>partial_function (option)\<close>). Log lines are left out.
\<close>

section \<open>Events\<close>

datatype event_type = Bookmark | Deleted | Added | Modified | WatchError | OtherType

datatype runtime_object = ClientObj kobj | StatusObj api_reason string

datatype watch_input =
    CtxDone err
  | ChanClosed
  | WatchEvent event_type runtime_object

text \<open>\<open>meta.Accessor(o)\<close> fails on a status; the result is the resource version, \<open>None\<close> on failure.\<close>

fun accessor_version :: "runtime_object \<Rightarrow> string option" where
  "accessor_version (ClientObj o') = Some (ResourceVersion o')"
| "accessor_version (StatusObj r m) = None"

definition next_revision :: "runtime_object \<Rightarrow> string \<Rightarrow> string" where
  "next_revision x lastRevision =
     (case accessor_version x of
        None \<Rightarrow> lastRevision
      | Some v \<Rightarrow> if v \<noteq> [] then v else lastRevision)"

text \<open>What a deleted object looks like to the callback: deleted at some time, and without finalizers.\<close>

definition deleted_object :: "int \<Rightarrow> kobj \<Rightarrow> kobj" where
  "deleted_object now o' =
     (let mo = (if is_zero_time (DeletionTimestamp o') then o'\<lparr>DeletionTimestamp := Some now\<rparr> else o') in
      if 0 < length (Finalizers mo) then mo\<lparr>Finalizers := []\<rparr> else mo)"

section \<open>One watch\<close>

text \<open>\<open>WPanic\<close>: an event whose object is not of the type \<open>T\<close> of the watcher.\<close>

datatype watch_end = WEnd (wcont: bool) (wrevision: string) (wretry: "err option") (wterminal: "err option") | WPanic

type_synonym 'w watch_cb = "kobj \<Rightarrow> 'w \<Rightarrow> (bool \<times> err option) \<times> 'w"

fun watch_loop ::
  "(runtime_object \<Rightarrow> err) \<Rightarrow> ('w \<Rightarrow> int) \<Rightarrow> string \<Rightarrow> 'w watch_cb \<Rightarrow> string \<Rightarrow> watch_input list \<Rightarrow> 'w
     \<Rightarrow> (watch_end \<times> 'w) option" where
  "watch_loop FromObject now T cb lastRevision [] w = None"
| "watch_loop FromObject now T cb lastRevision (CtxDone e # xs) w =
     Some (WEnd False lastRevision None (Some (Wrap ''terminating watch: '' e)), w)"
| "watch_loop FromObject now T cb lastRevision (ChanClosed # xs) w =
     Some (WEnd False lastRevision None None, w)"
| "watch_loop FromObject now T cb lastRevision (WatchEvent t x # xs) w =
     (if t = Bookmark then watch_loop FromObject now T cb (next_revision x lastRevision) xs w
      else if t = WatchError then Some (WEnd False lastRevision None (Some (FromObject x)), w)
      else if t = OtherType then watch_loop FromObject now T cb lastRevision xs w
      else
        (case x of
           StatusObj r m \<Rightarrow> Some (WPanic, w)
         | ClientObj o0 \<Rightarrow>
             let o' = (if t = Deleted then deleted_object (now w) o0 else o0) in
             if GoType o' \<noteq> T then Some (WPanic, w)
             else
               (case cb o' w of
                  ((done', err), w) \<Rightarrow>
                    if IsConflict err then Some (WEnd False lastRevision err None, w)
                    else if err \<noteq> None then Some (WEnd False lastRevision None err, w)
                    else if done' then Some (WEnd True lastRevision None None, w)
                    else watch_loop FromObject now T cb (next_revision (ClientObj o') lastRevision) xs w)))"

definition doWatch ::
  "(runtime_object \<Rightarrow> err) \<Rightarrow> ('w \<Rightarrow> int) \<Rightarrow> ('w \<Rightarrow> 'w) \<Rightarrow> string \<Rightarrow> string
     \<Rightarrow> (string \<Rightarrow> 'w \<Rightarrow> (err + watch_input list) \<times> 'w) \<Rightarrow> 'w watch_cb \<Rightarrow> 'w \<Rightarrow> (watch_end \<times> 'w) option" where
  "doWatch FromObject now stop T revision watchFunc cb w =
     (case watchFunc revision w of
        (Inl err, w) \<Rightarrow>
          if IsGone (Some err) then Some (WEnd False revision None (Some err), w)
          else Some (WEnd False revision (Some err) None, w)
      | (Inr inputs, w) \<Rightarrow>
          (case watch_loop FromObject now T cb revision inputs w of
             None \<Rightarrow> None
           | Some (r, w) \<Rightarrow> Some (r, stop w)))"

section \<open>Watching again\<close>

text \<open>
  The library and the server: \<open>weStop\<close> stops a watch and drains its channel, \<open>wePause\<close> is the wait
  of two seconds or until the context ends, whichever the \<open>select\<close> took, with the context's error.
\<close>

record 'w watch_env =
  weFromObject :: "runtime_object \<Rightarrow> err"
  weNow :: "'w \<Rightarrow> int"
  weStop :: "'w \<Rightarrow> 'w"
  weWatch :: "string \<Rightarrow> 'w \<Rightarrow> (err + watch_input list) \<times> 'w"
  wePause :: "'w \<Rightarrow> err option \<times> 'w"

datatype watch_result = WReturned "kobj option" "err option" | WPanicked

definition newCB :: "'w watch_cb \<Rightarrow> (kobj option \<times> 'w) watch_cb" where
  "newCB cb obj s = (case cb obj (snd s) of (r, w) \<Rightarrow> (r, (Some obj, w)))"

definition watch_once ::
  "'w watch_env \<Rightarrow> string \<Rightarrow> string \<Rightarrow> 'w watch_cb \<Rightarrow> kobj option \<times> 'w \<Rightarrow> (watch_end \<times> kobj option \<times> 'w) option" where
  "watch_once E T revision cb =
     doWatch (weFromObject E) (\<lambda>s. weNow E (snd s)) (\<lambda>s. (fst s, weStop E (snd s))) T revision
       (\<lambda>r s. case weWatch E r (snd s) of (x, w) \<Rightarrow> (x, (fst s, w))) (newCB cb)"

partial_function (option) retry_loop ::
  "'w watch_env \<Rightarrow> string \<Rightarrow> string \<Rightarrow> 'w watch_cb \<Rightarrow> kobj option \<times> 'w \<Rightarrow> (watch_result \<times> 'w) option" where
  "retry_loop E T revision cb s =
     (case watch_once E T revision cb s of
        None \<Rightarrow> None
      | Some (r, s) \<Rightarrow>
          (case r of
             WPanic \<Rightarrow> Some (WPanicked, snd s)
           | WEnd done' lastRevision err terminalErr \<Rightarrow>
               if err = None \<and> terminalErr \<noteq> None then Some (WReturned (fst s) terminalErr, snd s)
               else if err = None \<and> done' then Some (WReturned (fst s) None, snd s)
               else
                 (case wePause E (snd s) of (e, w) \<Rightarrow>
                    if e \<noteq> None then Some (WReturned (fst s) e, w)
                    else retry_loop E T (if lastRevision \<noteq> [] then lastRevision else revision) cb (fst s, w))))"

declare retry_loop.simps [code]

definition retryWatch ::
  "'w watch_env \<Rightarrow> string \<Rightarrow> string \<Rightarrow> 'w watch_cb \<Rightarrow> 'w \<Rightarrow> (watch_result \<times> 'w) option" where
  "retryWatch E T revision cb w = retry_loop E T revision cb (None, w)"

section \<open>Listing first\<close>

text \<open>
  The scheme's part: \<open>wsGVKFor\<close> is \<open>GVKForObject\<close> on the Go type, \<open>wsNewList\<close> is \<open>scheme.New\<close> of a kind, with the fact
  that what it makes is a list. The client's \<open>List\<close> answers with the items and the list's resource version.
\<close>

record watch_scheme =
  wsGVKFor :: "string \<Rightarrow> err + gvk"
  wsNew :: "gvk \<Rightarrow> err + string"
  wsIsList :: "string \<Rightarrow> bool"

definition newListObj :: "watch_scheme \<Rightarrow> string \<Rightarrow> err + string" where
  "newListObj S T =
     (case wsGVKFor S T of
        Inl err \<Rightarrow> Inl err
      | Inr g \<Rightarrow>
          (case wsNew S (g\<lparr>Kind := Kind g @ ''List''\<rparr>) of
             Inl err \<Rightarrow> Inl err
           | Inr l \<Rightarrow> if wsIsList S l then Inr l else Inl (Err (l @ '' is not a client.ObjectList''))))"

text \<open>\<open>EachListItem\<close> stops at the first error; \<open>doneObj\<close> is the last item the callback was done with.\<close>

fun each_list_item :: "string \<Rightarrow> 'w watch_cb \<Rightarrow> kobj list \<Rightarrow> kobj option \<Rightarrow> 'w \<Rightarrow> ((kobj option \<times> err option) \<times> 'w) option" where
  "each_list_item T cb [] doneObj w = Some ((doneObj, None), w)"
| "each_list_item T cb (x # xs) doneObj w =
     (if GoType x \<noteq> T then None
      else
        (case cb x w of
           ((done', err), w) \<Rightarrow>
             let doneObj = (if done' then Some x else doneObj) in
             if err \<noteq> None then Some ((doneObj, err), w) else each_list_item T cb xs doneObj w))"

type_synonym watch_query = "string \<times> label_selector option \<times> (string \<times> string) option"

definition bySelector ::
  "watch_scheme \<Rightarrow> (watch_query \<Rightarrow> 'w \<Rightarrow> (err + kobj list \<times> string) \<times> 'w) \<Rightarrow> (watch_query \<Rightarrow> 'w watch_env) \<Rightarrow> string
     \<Rightarrow> watch_query \<Rightarrow> 'w watch_cb \<Rightarrow> 'w \<Rightarrow> (watch_result \<times> 'w) option" where
  "bySelector S List E T q cb w =
     (case newListObj S T of
        Inl err \<Rightarrow> Some (WReturned None (Some err), w)
      | Inr l \<Rightarrow>
          (case List q w of
             (Inl err, w) \<Rightarrow> Some (WReturned None (Some err), w)
           | (Inr (items, revision), w) \<Rightarrow>
               (case each_list_item T cb items None w of
                  None \<Rightarrow> Some (WPanicked, w)
                | Some ((doneObj, err), w) \<Rightarrow>
                    if doneObj \<noteq> None \<or> err \<noteq> None then Some (WReturned doneObj err, w)
                    else retryWatch (E q) T revision cb w)))"

definition ByName where
  "ByName S List E T ns name = bySelector S List E T (ns, None, Some (''metadata.name'', name))"

definition ByObject where
  "ByObject S List E T obj = ByName S List E T (Namespace obj) (Name obj)"

definition BySelector where
  "BySelector S List E T ns selector = bySelector S List E T (ns, selector, None)"

section \<open>The watch returns\<close>

definition ends :: "watch_input list \<Rightarrow> bool" where
  "ends xs \<longleftrightarrow> (\<exists>x \<in> set xs. x = ChanClosed \<or> (\<exists>e. x = CtxDone e))"

lemma ends_simps [simp]:
  "\<not> ends []" "ends (ChanClosed # xs)" "ends (CtxDone e # xs)"
  "ends (WatchEvent t x # xs) = ends xs"
  by (auto simp: ends_def)

lemma watch_loop_ends:
  assumes cb: "\<And>x v. \<mu> (snd (cb x v)) \<le> (\<mu> v :: nat)" and "ends xs"
  shows "\<exists>r v. watch_loop F now T cb lastRevision xs w = Some (r, v) \<and> \<mu> v \<le> \<mu> w"
  using assms(2)
proof (induction xs arbitrary: lastRevision w)
  case (Cons i xs)
  show ?case
  proof (cases i)
    case (WatchEvent t x)
    with Cons.prems have "ends xs" by simp
    note IH = Cons.IH [OF this]
    show ?thesis
    proof (cases "t = Bookmark \<or> t = WatchError \<or> t = OtherType")
      case True
      with IH show ?thesis unfolding WatchEvent by (elim disjE) simp_all
    next
      case False
      show ?thesis
      proof (cases x)
        case (StatusObj r m)
        with False show ?thesis by (simp add: WatchEvent)
      next
        case (ClientObj o0)
        define o' where "o' = (if t = Deleted then deleted_object (now w) o0 else o0)"
        obtain d e v where cbv: "cb o' w = ((d, e), v)" by (metis prod_cases3 surj_pair)
        with cb [of o' w] have "\<mu> v \<le> \<mu> w" by simp
        moreover from IH obtain r v' where
          "watch_loop F now T cb (next_revision (ClientObj o') lastRevision) xs v = Some (r, v')" "\<mu> v' \<le> \<mu> v"
          by blast
        ultimately show ?thesis
          using False by (simp add: WatchEvent ClientObj Let_def o'_def [symmetric] cbv del: not_None_eq)
      qed
    qed
  qed simp_all
qed simp

lemma watch_once_ends:
  assumes cb: "\<And>x v. \<mu> (snd (cb x v)) \<le> (\<mu> v :: nat)"
    and wtch: "\<And>r v. \<mu> (snd (weWatch E r v)) \<le> \<mu> v"
    and ends: "\<And>r v xs v'. weWatch E r v = (Inr xs, v') \<Longrightarrow> ends xs"
    and stp: "\<And>v. \<mu> (weStop E v) \<le> \<mu> v"
  shows "\<exists>r l v. watch_once E T revision cb s = Some (r, l, v) \<and> \<mu> v \<le> \<mu> (snd s)"
proof -
  obtain a v where w: "weWatch E revision (snd s) = (a, v)" by fastforce
  with wtch [of revision "snd s"] have v: "\<mu> v \<le> \<mu> (snd s)" by simp
  show ?thesis
  proof (cases a)
    case (Inl err)
    with w v show ?thesis by (auto simp: watch_once_def doWatch_def)
  next
    case (Inr xs)
    with w ends have "ends xs" by blast
    moreover have "\<mu> (snd (snd (newCB cb x u))) \<le> \<mu> (snd u)" for x and u :: "kobj option \<times> 'a"
      using cb [of x "snd u"] by (cases "cb x (snd u)") (simp add: newCB_def)
    ultimately obtain r u where
      "watch_loop (weFromObject E) (\<lambda>s. weNow E (snd s)) T (newCB cb) revision xs (fst s, v) = Some (r, u)"
      "\<mu> (snd u) \<le> \<mu> v"
      using watch_loop_ends [where \<mu> = "\<lambda>u. \<mu> (snd u)" and cb = "newCB cb" and w = "(fst s, v)"] by fastforce
    with w v Inr stp [of "snd u"] show ?thesis
      by (auto simp: watch_once_def doWatch_def)
  qed
qed

lemma retry_loop_returns:
  assumes cb: "\<And>x v. \<mu> (snd (cb x v)) \<le> (\<mu> v :: nat)"
    and wtch: "\<And>r v. \<mu> (snd (weWatch E r v)) \<le> \<mu> v"
    and ends: "\<And>r v xs v'. weWatch E r v = (Inr xs, v') \<Longrightarrow> ends xs"
    and stp: "\<And>v. \<mu> (weStop E v) \<le> \<mu> v"
    and pause: "\<And>v v'. wePause E v = (None, v') \<Longrightarrow> \<mu> v' < \<mu> v"
  shows "\<exists>r. retry_loop E T revision cb s = Some r"
proof (induction "\<mu> (snd s)" arbitrary: s revision rule: less_induct)
  case less
  obtain r l v where once: "watch_once E T revision cb s = Some (r, l, v)" and v: "\<mu> v \<le> \<mu> (snd s)"
    using watch_once_ends [where \<mu> = \<mu> and cb = cb and E = E and T = T and revision = revision and s = s] cb wtch ends stp
    by metis
  obtain e v' where p: "wePause E v = (e, v')" by fastforce
  have "\<exists>x. retry_loop E T rev' cb (l, v') = Some x" if "e = None" for rev'
    using less [of "(l, v')" rev'] pause [of v v'] p v that by simp
  with once p show ?case
    by (subst retry_loop.simps) (auto split: watch_end.splits)
qed

section \<open>Nothing lost, nothing twice\<close>

text \<open>
  The server's side: a \<open>log\<close> of what happened to the watched kind, each entry with its own revision. A \<open>Silent\<close> entry is a
  change the watch's selector leaves out; only a bookmark tells of it. A connection is refused, or sends the next
  changes after the revision it was asked for, at most \<open>n\<close> of them, with a bookmark for the silent revisions in
  \<open>marks\<close>, and then ends (or stays open and silent). A watch is opened with the next connection; the context may have ended in the
  wait after it.
\<close>

datatype log_entry = Change event_type kobj | Silent string

datatype watch_fin = Closed | Cancelled err | Failed runtime_object | StaysOpen

datatype connection = Refused err | Connected nat "string set" watch_fin

text \<open>A call of the callback: the object it was given, and what it answered.\<close>

type_synonym watch_call = "kobj \<times> bool \<times> err option"

type_synonym log_state = "err option \<times> (connection \<times> err option) list \<times> watch_call list"

fun entry_revision :: "log_entry \<Rightarrow> string" where
  "entry_revision (Change t x) = ResourceVersion x"
| "entry_revision (Silent v) = v"

fun changes :: "log_entry list \<Rightarrow> (event_type \<times> kobj) list" where
  "changes [] = []"
| "changes (Change t x # es) = (t, x) # changes es"
| "changes (Silent v # es) = changes es"

definition after :: "string \<Rightarrow> log_entry list \<Rightarrow> log_entry list" where
  "after revision log =
     (case dropWhile (\<lambda>e. entry_revision e \<noteq> revision) log of [] \<Rightarrow> log | e # es \<Rightarrow> es)"

definition bookmark :: "string \<Rightarrow> watch_input" where
  "bookmark v = WatchEvent Bookmark (ClientObj (empty_obj\<lparr>ResourceVersion := v\<rparr>))"

fun feed :: "string set \<Rightarrow> nat \<Rightarrow> log_entry list \<Rightarrow> watch_input list" where
  "feed marks n [] = []"
| "feed marks n (Silent v # es) = (if v \<in> marks then bookmark v # feed marks n es else feed marks n es)"
| "feed marks n (Change t x # es) = (case n of 0 \<Rightarrow> [] | Suc m \<Rightarrow> WatchEvent t (ClientObj x) # feed marks m es)"

fun fin_inputs :: "watch_fin \<Rightarrow> watch_input list" where
  "fin_inputs Closed = [ChanClosed]"
| "fin_inputs (Cancelled e) = [CtxDone e]"
| "fin_inputs (Failed x) = [WatchEvent WatchError x]"
| "fin_inputs StaysOpen = []"

fun log_watch :: "log_entry list \<Rightarrow> string \<Rightarrow> log_state \<Rightarrow> (err + watch_input list) \<times> log_state" where
  "log_watch log revision (p, [], calls) = (Inr [], (p, [], calls))"
| "log_watch log revision (p, (Refused e, p') # cs, calls) = (Inl e, (p', cs, calls))"
| "log_watch log revision (p, (Connected n marks fin, p') # cs, calls) =
     (Inr (feed marks n (after revision log) @ fin_inputs fin), (p', cs, calls))"

definition log_env :: "(runtime_object \<Rightarrow> err) \<Rightarrow> (watch_call list \<Rightarrow> int) \<Rightarrow> log_entry list \<Rightarrow> log_state watch_env" where
  "log_env fromObject clock log = \<lparr>weFromObject = fromObject, weNow = (\<lambda>w. clock (snd (snd w))), weStop = (\<lambda>w. w),
     weWatch = log_watch log, wePause = (\<lambda>w. (fst w, w))\<rparr>"

text \<open>Any callback whose answer depends on what it was given before.\<close>

definition noting :: "(watch_call list \<Rightarrow> kobj \<Rightarrow> bool \<times> err option) \<Rightarrow> log_state watch_cb" where
  "noting answer x w =
     (let a = answer (snd (snd w)) x in (a, (fst w, fst (snd w), snd (snd w) @ [(x, a)])))"

definition good_log :: "string \<Rightarrow> log_entry list \<Rightarrow> bool" where
  "good_log T log \<longleftrightarrow>
     distinct (map entry_revision log) \<and>
     (\<forall>e \<in> set log. entry_revision e \<noteq> [] \<and>
        (case e of Silent v \<Rightarrow> True | Change t x \<Rightarrow> GoType x = T \<and> t \<in> {Added, Modified, Deleted}))"

text \<open>
  What is promised, without revisions and events: a reader of the list of changes that are left. It hands on the next
  ones a connection sends, leaves a change that met a conflict for the next connection, and stops at the first call
  that is done or fails, or when the server or the context ends it.
\<close>

definition shown :: "int \<Rightarrow> event_type \<Rightarrow> kobj \<Rightarrow> kobj" where
  "shown now t x = (if t = Deleted then deleted_object now x else x)"

definition last_given :: "watch_call list \<Rightarrow> kobj option" where
  "last_given calls = (if calls = [] then None else Some (fst (last calls)))"

datatype handed_on = AllHanded "(event_type \<times> kobj) list" | AtConflict "(event_type \<times> kobj) list" | Stopped watch_result

fun hand_on ::
  "(watch_call list \<Rightarrow> int) \<Rightarrow> (watch_call list \<Rightarrow> kobj \<Rightarrow> bool \<times> err option) \<Rightarrow> nat
     \<Rightarrow> (event_type \<times> kobj) list \<Rightarrow> watch_call list \<Rightarrow> handed_on \<times> watch_call list" where
  "hand_on clock answer n [] calls = (AllHanded [], calls)"
| "hand_on clock answer n ((t, x) # q) calls =
     (case n of
        0 \<Rightarrow> (AllHanded ((t, x) # q), calls)
      | Suc m \<Rightarrow>
          (let o' = shown (clock calls) t x; a = answer calls o'; calls' = calls @ [(o', a)] in
           if IsConflict (snd a) then (AtConflict ((t, x) # q), calls')
           else if snd a \<noteq> None then (Stopped (WReturned (Some o') (snd a)), calls')
           else if fst a then (Stopped (WReturned (Some o') None), calls')
           else hand_on clock answer m q calls'))"

fun reader ::
  "(runtime_object \<Rightarrow> err) \<Rightarrow> (watch_call list \<Rightarrow> int) \<Rightarrow> (watch_call list \<Rightarrow> kobj \<Rightarrow> bool \<times> err option)
     \<Rightarrow> (connection \<times> err option) list \<Rightarrow> (event_type \<times> kobj) list \<Rightarrow> watch_call list \<Rightarrow> (watch_result \<times> watch_call list) option" where
  "reader fromObject clock answer [] q calls = None"
| "reader fromObject clock answer ((c, p) # cs) q calls =
     (let again = (\<lambda>q calls. if p \<noteq> None then Some (WReturned (last_given calls) p, calls)
                             else reader fromObject clock answer cs q calls);
          stop = (\<lambda>e calls. Some (WReturned (last_given calls) (Some e), calls)) in
      case c of
        Refused e \<Rightarrow> if IsGone (Some e) then stop e calls else again q calls
      | Connected n marks fin \<Rightarrow>
          (case hand_on clock answer n q calls of
             (Stopped r, calls) \<Rightarrow> Some (r, calls)
           | (AtConflict q, calls) \<Rightarrow> again q calls
           | (AllHanded q, calls) \<Rightarrow>
               (case fin of
                  Closed \<Rightarrow> again q calls
                | Cancelled e \<Rightarrow> stop (Wrap ''terminating watch: '' e) calls
                | Failed x \<Rightarrow> stop (fromObject x) calls
                | StaysOpen \<Rightarrow> None)))"

text \<open>
  The calls follow the changes: each is for the next change, the first again and again while it meets a conflict, and the
  first that is done or fails is the last.
\<close>

fun follows :: "(event_type \<times> kobj) list \<Rightarrow> watch_call list \<Rightarrow> bool" where
  "follows q [] = True"
| "follows [] (c # cs) = False"
| "follows ((t, x) # q) ((o', d, e) # cs) =
     ((if t = Deleted then \<exists>now. o' = deleted_object now x else o' = x) \<and>
      (if IsConflict e then follows ((t, x) # q) cs
       else if e \<noteq> None \<or> d then cs = []
       else follows q cs))"

lemma deleted_object_simps [simp]:
  "GoType (deleted_object now x) = GoType x" "ResourceVersion (deleted_object now x) = ResourceVersion x"
  by (simp_all add: deleted_object_def Let_def)

lemma shown_simps [simp]: "GoType (shown now t x) = GoType x" "ResourceVersion (shown now t x) = ResourceVersion x"
  by (simp_all add: shown_def)

lemma not_IsConflict_None [simp]: "\<not> IsConflict None"
  by (simp add: has_reason_def)

lemma after_entry:
  assumes "distinct (map entry_revision (pre @ e # es))"
  shows "after (entry_revision e) (pre @ e # es) = es"
proof -
  from assms have "\<forall>y \<in> set pre. entry_revision y \<noteq> entry_revision e" by (auto simp: image_iff)
  then show ?thesis by (simp add: after_def dropWhile_append2)
qed

lemma after_start: "start \<notin> set (map entry_revision log) \<Longrightarrow> after start log = log"
proof -
  assume "start \<notin> set (map entry_revision log)"
  then have "dropWhile (\<lambda>e. entry_revision e \<noteq> start) log = []" by auto
  then show ?thesis by (simp only: after_def list.case)
qed

lemma after_suffix: "\<exists>pre. log = pre @ after revision log"
proof (cases "dropWhile (\<lambda>e. entry_revision e \<noteq> revision) log")
  case Nil
  then have "after revision log = log" by (simp only: after_def list.case)
  then show ?thesis by simp
next
  case (Cons e es)
  then have "log = (takeWhile (\<lambda>e. entry_revision e \<noteq> revision) log @ [e]) @ es"
    using takeWhile_dropWhile_id [of "\<lambda>e. entry_revision e \<noteq> revision" log] by simp
  with Cons have "log = (takeWhile (\<lambda>e. entry_revision e \<noteq> revision) log @ [e]) @ after revision log"
    by (simp only: after_def list.case)
  then show ?thesis by (rule exI)
qed

lemma last_given_snoc [simp]: "last_given (calls @ [(x, a)]) = Some x"
  by (simp add: last_given_def)

lemma newCB_noting:
  "newCB (noting answer) x (l, p, cs, calls) = (answer calls x, (Some x, p, cs, calls @ [(x, answer calls x)]))"
  by (simp add: newCB_def noting_def Let_def)

lemma watch_loop_change:
  assumes "t = Added \<or> t = Modified \<or> t = Deleted" and "GoType x = T" and "ResourceVersion x \<noteq> []"
    and "o' = shown (clock calls) t x" and "a = answer calls o'" and "calls' = calls @ [(o', a)]"
  shows "watch_loop F (\<lambda>s. clock (snd (snd (snd s)))) T (newCB (noting answer)) r (WatchEvent t (ClientObj x) # xs) (l, p, cs, calls) =
    (if IsConflict (snd a) then Some (WEnd False r (snd a) None, (Some o', p, cs, calls'))
     else if snd a \<noteq> None then Some (WEnd False r None (snd a), (Some o', p, cs, calls'))
     else if fst a then Some (WEnd True r None None, (Some o', p, cs, calls'))
     else watch_loop F (\<lambda>s. clock (snd (snd (snd s)))) T (newCB (noting answer)) (ResourceVersion x) xs (Some o', p, cs, calls'))"
proof -
  obtain d e where a: "a = (d, e)" by fastforce
  have o': "(if t = Deleted then deleted_object (clock calls) x else x) = o'" by (simp add: assms(4) shown_def)
  have "GoType o' = T" and "next_revision (ClientObj o') r = ResourceVersion x"
    using assms(2,3) by (simp_all add: assms(4) next_revision_def)
  moreover have "newCB (noting answer) o' (l, p, cs, calls) = ((d, e), (Some o', p, cs, calls'))"
    by (simp add: newCB_noting assms(6) assms(5) [symmetric] a)
  moreover have "t \<noteq> Bookmark" "t \<noteq> WatchError" "t \<noteq> OtherType" using assms(1) by auto
  ultimately show ?thesis
    by (simp only: watch_loop.simps runtime_object.case fst_conv snd_conv o' Let_def a if_False simp_thms prod.case)
qed

text \<open>What one watch does with a connection's feed, in terms of the changes that are left after its last revision.\<close>

definition feed_read ::
  "(runtime_object \<Rightarrow> err) \<Rightarrow> (watch_call list \<Rightarrow> int) \<Rightarrow> string \<Rightarrow> (watch_call list \<Rightarrow> kobj \<Rightarrow> bool \<times> err option)
     \<Rightarrow> log_entry list \<Rightarrow> string \<Rightarrow> watch_input list
     \<Rightarrow> err option \<times> (connection \<times> err option) list \<Rightarrow> handed_on \<times> watch_call list
     \<Rightarrow> (watch_end \<times> kobj option \<times> log_state) option \<Rightarrow> bool" where
  "feed_read F clock T answer log r ys w h res \<longleftrightarrow>
     (case h of (out, calls) \<Rightarrow> let s = (last_given calls, fst w, snd w, calls) in
       (case out of
          Stopped WPanicked \<Rightarrow> False
        | Stopped (WReturned o' None) \<Rightarrow> last_given calls = o' \<and> (\<exists>r'. res = Some (WEnd True r' None None, s))
        | Stopped (WReturned o' (Some e)) \<Rightarrow> last_given calls = o' \<and> (\<exists>r'. res = Some (WEnd False r' None (Some e), s))
        | AtConflict q \<Rightarrow> \<exists>r' e. res = Some (WEnd False r' (Some e) None, s) \<and>
            changes (after r' log) = q \<and> (r' \<noteq> [] \<or> r' = r)
        | AllHanded q \<Rightarrow> \<exists>r'. res = watch_loop F (\<lambda>s. clock (snd (snd (snd s)))) T (newCB (noting answer)) r' ys s \<and>
            changes (after r' log) = q \<and> (r' \<noteq> [] \<or> r' = r)))"

lemma feed_read_weaken:
  assumes "feed_read F clock T answer log r' ys w h res" and "r' \<noteq> []"
  shows "feed_read F clock T answer log r ys w h res"
  using assms
  by (cases h; cases "fst h") (auto simp: feed_read_def Let_def split: watch_result.splits option.splits)

lemma watch_loop_feed:
  assumes "good_log T (pre @ es)" and "changes (after r (pre @ es)) = changes es"
  shows "feed_read F clock T answer (pre @ es) r ys w (hand_on clock answer n (changes es) calls)
    (watch_loop F (\<lambda>s. clock (snd (snd (snd s)))) T (newCB (noting answer)) r (feed marks n es @ ys)
       (last_given calls, fst w, snd w, calls))"
  using assms
proof (induction es arbitrary: pre r n calls)
  case Nil
  then show ?case by (auto simp: feed_read_def Let_def)
next
  case (Cons e es)
  let ?log = "pre @ e # es"
  have log: "(pre @ [e]) @ es = ?log" by simp
  from Cons.prems(1) have ne: "entry_revision e \<noteq> []" and dist: "distinct (map entry_revision ?log)"
    by (simp_all add: good_log_def)
  have aft: "after (entry_revision e) ?log = es" using dist by (rule after_entry)
  note IH = Cons.IH [of "pre @ [e]", unfolded log, OF Cons.prems(1)]
  show ?case
  proof (cases e)
    case (Silent v)
    show ?thesis
    proof (cases "v \<in> marks")
      case True
      have "feed_read F clock T answer ?log v ys w (hand_on clock answer n (changes es) calls)
        (watch_loop F (\<lambda>s. clock (snd (snd (snd s)))) T (newCB (noting answer)) v (feed marks n es @ ys)
          (last_given calls, fst w, snd w, calls))"
        using aft by (intro IH) (simp add: Silent)
      then have "feed_read F clock T answer ?log r ys w (hand_on clock answer n (changes es) calls)
        (watch_loop F (\<lambda>s. clock (snd (snd (snd s)))) T (newCB (noting answer)) v (feed marks n es @ ys)
          (last_given calls, fst w, snd w, calls))"
        using ne by (auto simp: Silent intro: feed_read_weaken)
      with True ne show ?thesis by (simp add: Silent bookmark_def next_revision_def)
    next
      case False
      with IH [of r] Cons.prems(2) show ?thesis by (simp add: Silent)
    qed
  next
    case (Change t x)
    show ?thesis
    proof (cases n)
      case 0
      with Cons.prems(2) show ?thesis by (auto simp: Change feed_read_def Let_def)
    next
      case (Suc m)
      define o' where "o' = shown (clock calls) t x"
      define a where "a = answer calls o'"
      define calls' where "calls' = calls @ [(o', a)]"
      from Cons.prems(1) have t: "t = Added \<or> t = Modified \<or> t = Deleted" and T: "GoType o' = T"
        by (auto simp: good_log_def Change o'_def)
      have loop: "watch_loop F (\<lambda>s. clock (snd (snd (snd s)))) T (newCB (noting answer)) r (feed marks n (e # es) @ ys)
          (last_given calls, fst w, snd w, calls) =
        (if IsConflict (snd a) then Some (WEnd False r (snd a) None, (Some o', fst w, snd w, calls'))
         else if snd a \<noteq> None then Some (WEnd False r None (snd a), (Some o', fst w, snd w, calls'))
         else if fst a then Some (WEnd True r None None, (Some o', fst w, snd w, calls'))
         else watch_loop F (\<lambda>s. clock (snd (snd (snd s)))) T (newCB (noting answer)) (ResourceVersion x) (feed marks m es @ ys)
           (Some o', fst w, snd w, calls'))"
        using t T ne
        by (simp only: Suc Change feed.simps nat.case append_Cons)
          (rule watch_loop_change, simp_all add: Change o'_def a_def calls'_def)
      have hand: "hand_on clock answer n (changes (e # es)) calls =
        (if IsConflict (snd a) then (AtConflict ((t, x) # changes es), calls')
         else if snd a \<noteq> None then (Stopped (WReturned (Some o') (snd a)), calls')
         else if fst a then (Stopped (WReturned (Some o') None), calls')
         else hand_on clock answer m (changes es) calls')"
        by (simp add: Suc Change Let_def o'_def a_def calls'_def)
      have l: "last_given calls' = Some o'" by (simp add: calls'_def)
      have rest: "feed_read F clock T answer ?log r ys w (hand_on clock answer m (changes es) calls')
        (watch_loop F (\<lambda>s. clock (snd (snd (snd s)))) T (newCB (noting answer)) (ResourceVersion x) (feed marks m es @ ys)
           (Some o', fst w, snd w, calls'))"
        using IH [of "ResourceVersion x" m calls'] aft ne l by (auto simp: Change intro: feed_read_weaken)
      show ?thesis
      proof (cases "snd a")
        case None
        with rest l show ?thesis
          unfolding loop hand by (simp only: not_IsConflict_None if_False simp_thms not_None_eq split: if_split) (simp add: feed_read_def)
      next
        case (Some err)
        with l Cons.prems(2) show ?thesis
          unfolding loop hand by (auto simp: feed_read_def Let_def Change)
      qed
    qed
  qed
qed

lemma watch_once_connected:
  "watch_once (log_env F clock log) T r (noting answer) (l, p, (Connected n marks fin, p') # cs, calls) =
    watch_loop F (\<lambda>s. clock (snd (snd (snd s)))) T (newCB (noting answer)) r
      (feed marks n (after r log) @ fin_inputs fin) (l, p', cs, calls)"
  by (auto simp: watch_once_def doWatch_def log_env_def split: option.split)

lemma watch_once_refused:
  "watch_once (log_env F clock log) T r (noting answer) (l, p, (Refused e, p') # cs, calls) =
    Some (if IsGone (Some e) then WEnd False r None (Some e) else WEnd False r (Some e) None, (l, p', cs, calls))"
  by (simp add: watch_once_def doWatch_def log_env_def)

abbreviation refines :: "(watch_result \<times> log_state) option \<Rightarrow> (watch_result \<times> watch_call list) option \<Rightarrow> bool" where
  "refines res spec \<equiv> map_option (\<lambda>(r, s). (r, snd (snd s))) res = spec"

lemma retry_loop_pause:
  assumes "watch_once (log_env F clock log) T r (noting answer) s = Some (WEnd False r' e None, (l, p', cs, calls))"
    and "l = last_given calls" and "r' \<noteq> [] \<or> r' = r"
    and "refines (retry_loop (log_env F clock log) T r' (noting answer) (last_given calls, p', cs, calls))
      (reader F clock answer cs q calls)"
  shows "refines (retry_loop (log_env F clock log) T r (noting answer) s)
    (if p' \<noteq> None then Some (WReturned (last_given calls) p', calls) else reader F clock answer cs q calls)"
proof -
  have "(if r' \<noteq> [] then r' else r) = r'" using assms(3) by auto
  with assms show ?thesis
    by (cases p') (subst retry_loop.simps, simp add: log_env_def)+
qed

lemma retry_loop_reader:
  assumes "good_log T log" and "changes (after r log) = q"
  shows "refines (retry_loop (log_env F clock log) T r (noting answer) (last_given calls, p, cs, calls))
    (reader F clock answer cs q calls)"
  using assms
proof (induction cs arbitrary: p r q calls)
  case Nil
  then show ?case
    by (subst retry_loop.simps) (simp add: watch_once_def doWatch_def log_env_def)
next
  case (Cons c cs)
  obtain conn p' where c: "c = (conn, p')" by fastforce
  note again = retry_loop_pause [OF _ _ _ Cons.IH [OF Cons.prems(1)]]
  show ?case
  proof (cases conn)
    case (Refused e)
    show ?thesis
    proof (cases "IsGone (Some e)")
      case True
      then show ?thesis
        by (subst retry_loop.simps) (simp add: c Refused watch_once_refused)
    next
      case False
      have "refines (retry_loop (log_env F clock log) T r (noting answer) (last_given calls, p, c # cs, calls))
        (if p' \<noteq> None then Some (WReturned (last_given calls) p', calls) else reader F clock answer cs q calls)"
        by (rule again [where r' = r]) (simp_all add: c Refused watch_once_refused False Cons.prems(2))
      with False show ?thesis by (simp add: c Refused)
    qed
  next
    case (Connected n marks fin)
    obtain out calls' where h: "hand_on clock answer n q calls = (out, calls')" by fastforce
    obtain pre where pre: "log = pre @ after r log" using after_suffix by blast
    let ?once = "watch_once (log_env F clock log) T r (noting answer) (last_given calls, p, c # cs, calls)"
    have fr: "feed_read F clock T answer log r (fin_inputs fin) (p', cs) (out, calls') ?once"
      using watch_loop_feed [of T pre "after r log" r F clock answer "fin_inputs fin" "(p', cs)" n calls marks]
        Cons.prems pre h by (simp add: c Connected watch_once_connected)
    show ?thesis
    proof (cases out)
      case (AllHanded q')
      with fr obtain r' where once: "?once = watch_loop F (\<lambda>s. clock (snd (snd (snd s)))) T (newCB (noting answer)) r'
          (fin_inputs fin) (last_given calls', p', cs, calls')" and r': "changes (after r' log) = q'" "r' \<noteq> [] \<or> r' = r"
        by (auto simp: feed_read_def Let_def)
      show ?thesis
      proof (cases fin)
        case Closed
        have "refines (retry_loop (log_env F clock log) T r (noting answer) (last_given calls, p, c # cs, calls))
          (if p' \<noteq> None then Some (WReturned (last_given calls') p', calls') else reader F clock answer cs q' calls')"
          by (rule again [where r' = r']) (use once r' in \<open>simp_all add: Closed\<close>)
        with h show ?thesis by (simp add: c Connected AllHanded Closed)
      qed (use once h in \<open>subst retry_loop.simps, simp add: c Connected AllHanded\<close>)+
    next
      case (AtConflict q')
      with fr obtain r' e where once: "?once = Some (WEnd False r' (Some e) None, (last_given calls', p', cs, calls'))"
          and r': "changes (after r' log) = q'" "r' \<noteq> [] \<or> r' = r"
        by (auto simp: feed_read_def Let_def)
      have "refines (retry_loop (log_env F clock log) T r (noting answer) (last_given calls, p, c # cs, calls))
        (if p' \<noteq> None then Some (WReturned (last_given calls') p', calls') else reader F clock answer cs q' calls')"
        by (rule again [where r' = r']) (use once r' in simp_all)
      with h show ?thesis by (simp add: c Connected AtConflict)
    next
      case (Stopped res)
      with fr h show ?thesis
        by (subst retry_loop.simps)
          (auto simp: c Connected feed_read_def Let_def split: watch_result.splits option.splits)
    qed
  qed
qed

section \<open>What the reader has handed on\<close>

definition rest_follows :: "handed_on \<Rightarrow> watch_call list \<Rightarrow> bool" where
  "rest_follows out rest =
     (case out of AllHanded q \<Rightarrow> follows q rest | AtConflict q \<Rightarrow> follows q rest | Stopped r \<Rightarrow> rest = [])"

text \<open>A result names the last object given; only one the callback is done with ends the watch without an error.\<close>

definition result_fits :: "watch_result \<Rightarrow> watch_call list \<Rightarrow> bool" where
  "result_fits r calls \<longleftrightarrow>
     (\<exists>e. r = WReturned (last_given calls) e \<and> (e = None \<longrightarrow> calls \<noteq> [] \<and> snd (last calls) = (True, None)))"

lemma hand_on_follows:
  assumes "hand_on clock answer n q calls = (out, calls')"
  shows "\<exists>new. calls' = calls @ new \<and> (\<forall>rest. rest_follows out rest \<longrightarrow> follows q (new @ rest))"
    and "out = Stopped r \<Longrightarrow> result_fits r calls'"
proof -
  have "(\<exists>new. calls' = calls @ new \<and> (\<forall>rest. rest_follows out rest \<longrightarrow> follows q (new @ rest))) \<and>
    (\<forall>r. out = Stopped r \<longrightarrow> result_fits r calls')"
    using assms
  proof (induction q arbitrary: n calls)
    case Nil
    then show ?case by (auto simp: rest_follows_def)
  next
    case (Cons e q)
    obtain t x where e: "e = (t, x)" by fastforce
    show ?case
    proof (cases n)
      case 0
      with Cons.prems show ?thesis by (auto simp: e rest_follows_def)
    next
      case (Suc m)
      define o' where "o' = shown (clock calls) t x"
      obtain d err where a: "answer calls o' = (d, err)" by fastforce
      have fol: "follows (e # q) ((o', d, err) # cs) =
          (if IsConflict err then follows (e # q) cs else if err \<noteq> None \<or> d then cs = [] else follows q cs)" for cs
        by (auto simp: e o'_def shown_def)
      have "hand_on clock answer n (e # q) calls =
          (if IsConflict err then (AtConflict (e # q), calls @ [(o', d, err)])
           else if err \<noteq> None then (Stopped (WReturned (Some o') err), calls @ [(o', d, err)])
           else if d then (Stopped (WReturned (Some o') None), calls @ [(o', d, err)])
           else hand_on clock answer m q (calls @ [(o', d, err)]))"
        using a by (simp add: e Suc Let_def o'_def)
      note hand = this [unfolded Cons.prems]
      show ?thesis
      proof (cases "IsConflict err \<or> err \<noteq> None \<or> d")
        case True
        then show ?thesis
          using hand fol [rule_format] by (auto simp: rest_follows_def result_fits_def last_given_def split: if_splits)
      next
        case False
        with hand have "hand_on clock answer m q (calls @ [(o', d, err)]) = (out, calls')" by simp
        from Cons.IH [OF this] obtain new where new: "calls' = calls @ (o', d, err) # new"
            and "\<forall>rest. rest_follows out rest \<longrightarrow> follows q (new @ rest)" "\<forall>r. out = Stopped r \<longrightarrow> result_fits r calls'"
          by auto
        with False have "\<forall>rest. rest_follows out rest \<longrightarrow> follows (e # q) (((o', d, err) # new) @ rest)"
          by (simp only: append_Cons fol) auto
        with new \<open>\<forall>r. out = Stopped r \<longrightarrow> result_fits r calls'\<close> show ?thesis by blast
      qed
    qed
  qed
  then show "\<exists>new. calls' = calls @ new \<and> (\<forall>rest. rest_follows out rest \<longrightarrow> follows q (new @ rest))"
    and "out = Stopped r \<Longrightarrow> result_fits r calls'"
    by simp_all
qed

lemma reader_follows:
  assumes "reader F clock answer cs q calls = Some (r, calls')"
  shows "(\<exists>new. calls' = calls @ new \<and> follows q new) \<and> result_fits r calls'"
  using assms
proof (induction cs arbitrary: q calls)
  case (Cons c cs)
  obtain conn p where c: "c = (conn, p)" by fastforce
  have again: "(\<exists>new. calls' = calls0 @ new \<and> follows q0 new) \<and> result_fits r calls'"
    if "(if p \<noteq> None then Some (WReturned (last_given calls0) p, calls0) else reader F clock answer cs q0 calls0) = Some (r, calls')"
    for q0 calls0
  proof (cases p)
    case None
    with that Cons.IH show ?thesis by simp
  next
    case (Some e)
    with that show ?thesis by (auto simp: result_fits_def)
  qed
  show ?case
  proof (cases conn)
    case (Refused e)
    show ?thesis
    proof (cases "IsGone (Some e)")
      case True
      with Cons.prems show ?thesis by (auto simp: c Refused result_fits_def)
    next
      case False
      with Cons.prems show ?thesis by (intro again) (simp add: c Refused)
    qed
  next
    case (Connected n marks fin)
    obtain out calls0 where h: "hand_on clock answer n q calls = (out, calls0)" by fastforce
    from hand_on_follows(1) [OF h] obtain new where new: "calls0 = calls @ new"
      and rest: "\<And>rest. rest_follows out rest \<Longrightarrow> follows q (new @ rest)" by blast
    have end': ?thesis if "\<exists>new'. calls' = calls0 @ new' \<and> rest_follows out new'" and "result_fits r calls'"
      using that new rest by auto
    show ?thesis
    proof (cases out)
      case (AllHanded q')
      show ?thesis
      proof (cases fin)
        case Closed
        with Cons.prems h have "(\<exists>new. calls' = calls0 @ new \<and> follows q' new) \<and> result_fits r calls'"
          by (intro again) (simp add: c Connected AllHanded)
        then show ?thesis by (intro end') (auto simp: AllHanded rest_follows_def)
      next
        case (Cancelled e)
        with Cons.prems h show ?thesis by (intro end') (auto simp: c Connected AllHanded rest_follows_def result_fits_def)
      next
        case (Failed x)
        with Cons.prems h show ?thesis by (intro end') (auto simp: c Connected AllHanded rest_follows_def result_fits_def)
      next
        case StaysOpen
        with Cons.prems h show ?thesis by (simp add: c Connected AllHanded)
      qed
    next
      case (AtConflict q')
      with Cons.prems h have "(\<exists>new. calls' = calls0 @ new \<and> follows q' new) \<and> result_fits r calls'"
        by (intro again) (simp add: c Connected)
      then show ?thesis by (intro end') (auto simp: AtConflict rest_follows_def)
    next
      case (Stopped r')
      with Cons.prems h hand_on_follows(2) [OF h, of r'] show ?thesis
        by (intro end') (auto simp: c Connected rest_follows_def)
    qed
  qed
qed simp

text \<open>C10: The watcher refines a reader of the server's log. For every log of additions, changes, deletions and changes the
  selector leaves out, every sequence of connections (refused, gone, closed after any number of events with any bookmarks
  between them, ended by an error event or by the context, or silent for ever) and every callback (done, failing, meeting
  conflicts), \<open>retryWatch\<close> returns just when the reader does, with its result and its calls. The calls follow
  the changes: none is lost or given twice except one that met a conflict, a deleted object is shown as deleted, the first call
  that is done or fails is the last; and only a call that is done ends the watch without an error. The log's revisions are distinct and not
  empty, the start revision is before them, and the events carry objects of the watched type.
\<close>

theorem retryWatch_refines_log:
  assumes "good_log T log" and "start \<notin> set (map entry_revision log)"
  shows "map_option (\<lambda>(r, s). (r, snd (snd s)))
      (retryWatch (log_env F clock log) T start (noting answer) (None, cs, [])) = reader F clock answer cs (changes log) [] \<and>
    (\<forall>r calls. reader F clock answer cs (changes log) [] = Some (r, calls) \<longrightarrow>
       follows (changes log) calls \<and> result_fits r calls)"
proof (intro conjI allI impI)
  have "changes (after start log) = changes log" using after_start [OF assms(2)] by simp
  from retry_loop_reader [OF assms(1) this, of F clock answer "[]" None cs]
  show "map_option (\<lambda>(r, s). (r, snd (snd s)))
      (retryWatch (log_env F clock log) T start (noting answer) (None, cs, [])) = reader F clock answer cs (changes log) []"
    by (simp add: retryWatch_def last_given_def)
next
  fix r calls
  assume "reader F clock answer cs (changes log) [] = Some (r, calls)"
  from reader_follows [OF this] show "follows (changes log) calls" and "result_fits r calls" by auto
qed

text \<open>
  A run: the first connection closes after one event, the next is refused, the third only sends a bookmark, the fourth
  meets a conflict, and the last delivers that change again, then the deletion the callback waits for.
\<close>

definition run_obj :: "string \<Rightarrow> kobj" where
  "run_obj v = empty_obj\<lparr>ResourceVersion := v, Finalizers := [''f'']\<rparr>"

definition run_log :: "log_entry list" where
  "run_log = [Change Added (run_obj ''5''), Silent ''6'', Change Modified (run_obj ''7''), Change Deleted (run_obj ''9'')]"

definition run_answer :: "watch_call list \<Rightarrow> kobj \<Rightarrow> bool \<times> err option" where
  "run_answer calls x =
     (if length calls = 1 then (False, Some (ApiErr Conflict ''changed'')) else (DeletionTimestamp x \<noteq> None, None))"

definition run_conns :: "(connection \<times> err option) list" where
  "run_conns = [(Connected 1 {} Closed, None), (Refused (Err ''connection refused''), None), (Connected 0 {''6''} Closed, None),
     (Connected 3 {} Closed, None), (Connected 3 {} StaysOpen, None)]"

theorem retryWatch_refines_log_witness:
  "map_option (\<lambda>(r, s). (r, snd (snd s)))
     (retryWatch (log_env (\<lambda>x. Err []) (\<lambda>_. 12) run_log) ''Object'' ''3'' (noting run_answer) (None, run_conns, [])) =
   Some (WReturned (Some ((run_obj ''9'')\<lparr>DeletionTimestamp := Some 12, Finalizers := []\<rparr>)) None,
     [(run_obj ''5'', False, None), (run_obj ''7'', False, Some (ApiErr Conflict ''changed'')), (run_obj ''7'', False, None),
      ((run_obj ''9'')\<lparr>DeletionTimestamp := Some 12, Finalizers := []\<rparr>, True, None)])"
proof -
  have "good_log ''Object'' run_log" "''3'' \<notin> set (map entry_revision run_log)"
    by (simp_all add: good_log_def run_log_def run_obj_def)
  note run = conjunct1 [OF retryWatch_refines_log [OF this, of "\<lambda>x. Err []" "\<lambda>_. 12" run_answer run_conns]]
  show ?thesis
    by (simp only: run)
      (simp add: run_conns_def run_log_def run_answer_def run_obj_def shown_def deleted_object_def is_zero_time_def
        last_given_def has_reason_def Let_def)
qed

text \<open>C21: The retry loop ends: when every watch ends (the server's time limit or the context closes the channel) and the
  waits between them cannot go on for ever (\<open>\<mu>\<close> bounds those that are left, which is what a context with a deadline
  promises), \<open>retryWatch\<close> returns for every callback.
\<close>

theorem retryWatch_returns:
  assumes "\<And>x v. \<mu> (snd (cb x v)) \<le> (\<mu> v :: nat)"
    and "\<And>r v. \<mu> (snd (weWatch E r v)) \<le> \<mu> v"
    and "\<And>r v xs v'. weWatch E r v = (Inr xs, v') \<Longrightarrow> ends xs"
    and "\<And>v. \<mu> (weStop E v) \<le> \<mu> v"
    and "\<And>v v'. wePause E v = (None, v') \<Longrightarrow> \<mu> v' < \<mu> v"
  shows "\<exists>r. retryWatch E T revision cb w = Some r"
  unfolding retryWatch_def using assms
  by (rule retry_loop_returns [where \<mu> = \<mu>])

definition timed_env :: "nat watch_env" where
  "timed_env = \<lparr>weFromObject = (\<lambda>x. Err []), weNow = (\<lambda>w. 0), weStop = (\<lambda>w. w),
     weWatch = (\<lambda>r w. (Inr [WatchEvent Added (ClientObj empty_obj), ChanClosed], w)),
     wePause = (\<lambda>w. case w of 0 \<Rightarrow> (Some DeadlineExceeded, 0) | Suc n \<Rightarrow> (None, n))\<rparr>"

theorem retryWatch_returns_witness:
  "\<exists>r. retryWatch timed_env ''Object'' [] (\<lambda>x v. ((False, None), v)) 3 = Some r"
  by (rule retryWatch_returns [where \<mu> = "\<lambda>v. v"]) (auto simp: timed_env_def ends_def split: nat.splits)

section \<open>Deletions, listing\<close>

text \<open>
  The object handed to the callback for a deletion always has a deletion timestamp and no finalizers, whatever the
  event carried, and keeps its name, its version and the time the server set.
\<close>

theorem deleted_event_looks_deleted:
  "DeletionTimestamp (deleted_object now x) \<noteq> None \<and> Finalizers (deleted_object now x) = [] \<and>
   key_of (deleted_object now x) = key_of x \<and> ResourceVersion (deleted_object now x) = ResourceVersion x \<and>
   (DeletionTimestamp x \<noteq> None \<longrightarrow> DeletionTimestamp (deleted_object now x) = DeletionTimestamp x)"
  by (auto simp: deleted_object_def is_zero_time_def key_of_def Let_def)

definition note_cb :: "(kobj \<Rightarrow> bool) \<Rightarrow> ('a \<times> kobj list) watch_cb" where
  "note_cb isDone x w = ((isDone x, None), (fst w, snd w @ [x]))"

text \<open>The callback sees every listed object even after it is done, and the last it is done with is the result.\<close>

lemma each_list_item_last_done:
  "\<forall>x \<in> set xs. GoType x = T \<Longrightarrow>
   each_list_item T (note_cb isDone) xs d (w, given) =
     Some ((case filter isDone (rev xs) of [] \<Rightarrow> d | x # ys \<Rightarrow> Some x, None), (w, given @ xs))"
proof (induction xs arbitrary: d given)
  case (Cons x xs)
  have "each_list_item T (note_cb isDone) (x # xs) d (w, given) =
      each_list_item T (note_cb isDone) xs (if isDone x then Some x else d) (w, given @ [x])"
    using Cons.prems by (simp add: note_cb_def)
  with Cons show ?case by (auto split: list.split)
qed simp

end
