(* ===== verification/Yaml_Export.thy ===== *)
theory Yaml_Export
  imports Names_Maps Error_Lists Go_Numbers
begin

text \<open>
  pkg/data and pkg/yaml: untyped maps (\<open>generic.go\<close>, \<open>convert.go\<close>) and the cleaning of objects for export. The JSON and
  YAML libraries are arguments: encoders and decoders of text, and the accessors of an unstructured object.
\<close>

section \<open>Untyped maps\<close>

text \<open>\<open>json.Number.Int64\<close> is \<open>strconv_Atoi\<close>; \<open>float64\<close> is \<open>json.Number.Float64\<close>, the text of the nearest float or an error out of its range.\<close>

fun translateObject :: "(string \<Rightarrow> err + string) \<Rightarrow> json \<Rightarrow> err + json"
and translate_list :: "(string \<Rightarrow> err + string) \<Rightarrow> json list \<Rightarrow> err + json list"
and translate_map :: "(string \<Rightarrow> err + string) \<Rightarrow> (string \<times> json) list \<Rightarrow> err + (string \<times> json) list" where
  "translateObject float64 (JMap m) =
     (case translate_map float64 m of Inl e \<Rightarrow> Inl e | Inr m \<Rightarrow> Inr (JMap m))"
| "translateObject float64 (JList xs) =
     (case translate_list float64 xs of Inl e \<Rightarrow> Inl e | Inr xs \<Rightarrow> Inr (JList xs))"
| "translateObject float64 (JNumber n) =
     (case strconv_Atoi n of
        Some i \<Rightarrow> Inr (JInt i)
      | None \<Rightarrow> (case float64 n of Inl e \<Rightarrow> Inl e | Inr f \<Rightarrow> Inr (JFloat f)))"
| "translateObject float64 v = Inr v"
| "translate_list float64 [] = Inr []"
| "translate_list float64 (x # xs) =
     (case translateObject float64 x of
        Inl e \<Rightarrow> Inl e
      | Inr x \<Rightarrow> (case translate_list float64 xs of Inl e \<Rightarrow> Inl e | Inr xs \<Rightarrow> Inr (x # xs)))"
| "translate_map float64 [] = Inr []"
| "translate_map float64 ((k, x) # xs) =
     (case translateObject float64 x of
        Inl e \<Rightarrow> Inl e
      | Inr x \<Rightarrow> (case translate_map float64 xs of Inl e \<Rightarrow> Inl e | Inr xs \<Rightarrow> Inr ((k, x) # xs)))"

text \<open>
  A \<open>GenericMap\<close> is its \<open>Data\<close>, \<open>None\<close> for nil; the outer \<open>None\<close> is a nil pointer. \<open>decode\<close> is the library's
  decoder with \<open>UseNumber\<close>, into an empty map. The result has the receiver after the call.
\<close>

type_synonym generic_map = "jmap option"

definition UnmarshalJSON ::
  "(string \<Rightarrow> err + jmap) \<Rightarrow> (string \<Rightarrow> err + string) \<Rightarrow> generic_map option \<Rightarrow> string \<Rightarrow> err option \<times> generic_map option" where
  "UnmarshalJSON decode float64 g bs =
     (case g of
        None \<Rightarrow> (Some (Err ''*data.GenericMap: UnmarshalJSON on nil pointer''), None)
      | Some old \<Rightarrow>
          (case decode bs of
             Inl e \<Rightarrow> (Some (Wrap ''*data.GenericMap: Failed to decode data: '' e), g)
           | Inr d \<Rightarrow>
               (case translateObject float64 (JMap d) of
                  Inl e \<Rightarrow> (Some (Wrap ''*data.GenericMap: Failed to translate object: '' e), g)
                | Inr v \<Rightarrow> (None, if 0 < length (as_map v) then Some (Some (as_map v)) else g))))"

definition GetData :: "generic_map option \<Rightarrow> jmap option" where
  "GetData g = (case g of None \<Rightarrow> None | Some d \<Rightarrow> d)"

definition Merge :: "generic_map option \<Rightarrow> generic_map option \<Rightarrow> generic_map option" where
  "Merge g from' =
     (let merged = Concat [GetData g, GetData from'] in
      if merged = None then None else Some merged)"

definition MarshalJSON :: "(jmap option \<Rightarrow> err + string) \<Rightarrow> generic_map option \<Rightarrow> err + string" where
  "MarshalJSON marshal g = marshal (GetData g)"

definition NewGenericMap :: "jmap option \<Rightarrow> generic_map option" where
  "NewGenericMap d = (if d = None then None else Some d)"

definition Mapify ::
  "('a \<Rightarrow> err + string) \<Rightarrow> (string \<Rightarrow> err + jmap) \<Rightarrow> (string \<Rightarrow> err + string) \<Rightarrow> 'a \<Rightarrow> err + generic_map" where
  "Mapify marshal decode float64 v =
     (case marshal v of
        Inl e \<Rightarrow> Inl e
      | Inr bs \<Rightarrow>
          (case UnmarshalJSON decode float64 (Some None) bs of
             (Some e, g) \<Rightarrow> Inl e
           | (None, g) \<Rightarrow> Inr (GetData g)))"

text \<open>On an error, which is logged, \<open>out\<close> is the zero value.\<close>

definition DeepCopyInto ::
  "(jmap option \<Rightarrow> err + string) \<Rightarrow> (string \<Rightarrow> err + jmap) \<Rightarrow> (string \<Rightarrow> err + string) \<Rightarrow> generic_map option \<Rightarrow> generic_map" where
  "DeepCopyInto marshal decode float64 g =
     (case Mapify marshal decode float64 (GetData g) of Inl e \<Rightarrow> None | Inr out \<Rightarrow> out)"

section \<open>What an object is as a map\<close>

datatype map_form = IsMap jmap | IsUnstructured jmap | IsTyped

definition export_ToMapInterface ::
  "('a \<Rightarrow> map_form) \<Rightarrow> ('a \<Rightarrow> err + string) \<Rightarrow> (string \<Rightarrow> err + jmap) \<Rightarrow> 'a \<Rightarrow> err + jmap" where
  "export_ToMapInterface form marshal decode obj =
     (case form obj of
        IsMap m \<Rightarrow> Inr m
      | IsUnstructured m \<Rightarrow> Inr m
      | IsTyped \<Rightarrow> (case marshal obj of Inl e \<Rightarrow> Inl e | Inr b \<Rightarrow> decode b))"

section \<open>Cleaning\<close>

definition cleanPrefix :: "string list" where
  "cleanPrefix = [''kubectl.kubernetes.io/'']"

definition cleanContains :: "string list" where
  "cleanContains = [''cattle.io/'']"

definition CleanAnnotationsForExport :: "(string, string) gomap \<Rightarrow> (string, string) gomap" where
  "CleanAnnotationsForExport annotations =
     filter (\<lambda>(k, v). \<not> list_ex (strings_HasPrefix k) cleanPrefix \<and> \<not> list_ex (strings_Contains k) cleanContains) annotations"

definition cleanMap :: "(string, string) gomap \<Rightarrow> (string, string) gomap" where
  "cleanMap annoLabels = filter (\<lambda>(k, v). \<not> list_ex (strings_HasPrefix k) cleanPrefix) annoLabels"

text \<open>The metadata that are kept hold strings and string maps, which are not the \<open>map[string]any\<close> of the rest.\<close>

datatype meta_value = MStr string | MMap "(string, string) gomap"

type_synonym metadata = "(string, meta_value) gomap"

record 'a export_lib =
  elGVK :: "'a \<Rightarrow> gvk"
  elGVKForObject :: "'a \<Rightarrow> err + gvk"
  elSetGVK :: "gvk \<Rightarrow> 'a \<Rightarrow> 'a"
  elForm :: "'a \<Rightarrow> map_form"
  elMarshal :: "'a \<Rightarrow> err + string"
  elDecode :: "string \<Rightarrow> err + jmap"
  elText :: "'a \<Rightarrow> string"
  elName :: "jmap \<Rightarrow> string"
  elGenerateName :: "jmap \<Rightarrow> string"
  elNamespace :: "jmap \<Rightarrow> string"
  elAnnotations :: "jmap \<Rightarrow> (string, string) gomap"
  elLabels :: "jmap \<Rightarrow> (string, string) gomap"

definition put_cleaned :: "string \<Rightarrow> (string, string) gomap \<Rightarrow> metadata \<Rightarrow> metadata" where
  "put_cleaned k m metadata =
     (if 0 < length m then
        (let m = cleanMap m in
         if 0 < length m then AList.update k (MMap m) metadata else AList.delete k metadata)
      else metadata)"

definition clean_metadata ::
  "string \<Rightarrow> string \<Rightarrow> string \<Rightarrow> (string, string) gomap \<Rightarrow> (string, string) gomap \<Rightarrow> metadata option" where
  "clean_metadata name' generated ns annotations labels =
     (case (if 0 < length name' then Some [(''name'', MStr name')]
            else if 0 < length generated then Some [(''generateName'', MStr generated)]
            else None) of
        None \<Rightarrow> None
      | Some metadata \<Rightarrow>
          let metadata = (if ns \<noteq> [] then AList.update ''namespace'' (MStr ns) metadata else metadata);
              metadata = put_cleaned ''annotations'' annotations metadata
          in Some (put_cleaned ''labels'' labels metadata))"

definition clean_spec :: "jmap \<Rightarrow> jmap" where
  "clean_spec d =
     (case map_of d ''spec'' of
        None \<Rightarrow> d
      | Some spec \<Rightarrow>
          if spec = JNull then AList.delete ''spec'' d
          else (case spec of JMap m \<Rightarrow> if length m = 0 then AList.delete ''spec'' d else d | _ \<Rightarrow> d))"

text \<open>The result is the content without its metadata, and the metadata.\<close>

definition CleanObjectForExport :: "'a export_lib \<Rightarrow> 'a \<Rightarrow> err + jmap \<times> metadata" where
  "CleanObjectForExport L obj =
     (case (if Kind (elGVK L obj) = [] then
              (case elGVKForObject L obj of
                 Inr g \<Rightarrow> Inr (elSetGVK L g obj)
               | Inl e \<Rightarrow> Inl (Wrap (''kind and/or apiVersion is not set on input object '' @ elText L obj @ '': '') e))
            else Inr obj) of
        Inl e \<Rightarrow> Inl e
      | Inr obj \<Rightarrow>
          (case export_ToMapInterface (elForm L) (elMarshal L) (elDecode L) obj of
             Inl e \<Rightarrow> Inl e
           | Inr d \<Rightarrow>
               (case clean_metadata (elName L d) (elGenerateName L d) (elNamespace L d) (elAnnotations L d) (elLabels L d) of
                  None \<Rightarrow> Inl (Err (''either name or generateName must be set on obj: '' @ elText L obj))
                | Some metadata \<Rightarrow> Inr (AList.delete ''status'' (AList.delete ''metadata'' (clean_spec d)), metadata))))"

section \<open>Text\<close>

fun write_docs :: "('a \<Rightarrow> err + string) \<Rightarrow> 'a list \<Rightarrow> nat \<Rightarrow> string \<Rightarrow> err + string" where
  "write_docs render [] i buffer = Inr buffer"
| "write_docs render (obj # objs) i buffer =
     (let buffer = (if 0 < i then buffer @ ''\<newline>---\<newline>'' else buffer) in
      case render obj of
        Inl e \<Rightarrow> Inl e
      | Inr bs \<Rightarrow> write_docs render objs (i + 1) (buffer @ bs))"

text \<open>\<open>gvkText\<close> is how the library prints a kind, \<open>marshal\<close> its YAML encoder. No objects give the nil slice.\<close>

definition Export ::
  "'a export_lib \<Rightarrow> (jmap \<times> metadata \<Rightarrow> err + string) \<Rightarrow> (jmap \<times> metadata \<Rightarrow> string) \<Rightarrow> 'a list \<Rightarrow> err + string option" where
  "Export L marshal gvkText objs =
     (if length objs = 0 then Inr None
      else
        map_sum id Some
          (write_docs (\<lambda>obj.
             case CleanObjectForExport L obj of
               Inl e \<Rightarrow> Inl e
             | Inr u \<Rightarrow>
                 (case marshal u of
                    Inl e \<Rightarrow> Inl (Wrap (''failed to encode '' @ gvkText u @ '': '') e)
                  | Inr bs \<Rightarrow> Inr bs))
             objs 0 []))"

definition ToBytes :: "('a \<Rightarrow> err + string) \<Rightarrow> ('a \<Rightarrow> string) \<Rightarrow> 'a list \<Rightarrow> err + string option" where
  "ToBytes marshal gvkText objs =
     (if length objs = 0 then Inr None
      else
        map_sum id Some
          (write_docs (\<lambda>obj.
             case marshal obj of
               Inl e \<Rightarrow> Inl (Wrap (''failed to encode '' @ gvkText obj @ '': '') e)
             | Inr bs \<Rightarrow> Inr bs)
             objs 0 []))"

text \<open>
  Reading: \<open>toJSON\<close>, \<open>unmarshal\<close> into an empty map and the decoder of objs or lists are the library's. A reader of documents is
  the list of what its \<open>Read\<close> returns before the end of the input.
\<close>

datatype 'o decoded = DObject 'o | DList "'o list"

definition toObjects ::
  "(string \<Rightarrow> err + string) \<Rightarrow> (string \<Rightarrow> err + jmap) \<Rightarrow> (string \<Rightarrow> err + 'o decoded) \<Rightarrow> string \<Rightarrow> err + 'o list" where
  "toObjects toJSON unmarshal decode bs =
     (case toJSON bs of
        Inl e \<Rightarrow> Inl e
      | Inr bs \<Rightarrow>
          (case unmarshal bs of
             Inl e \<Rightarrow> Inl e
           | Inr check \<Rightarrow>
               if length check = 0 then Inr []
               else
                 (case decode bs of
                    Inl e \<Rightarrow> Inl e
                  | Inr (DList items) \<Rightarrow> Inr items
                  | Inr (DObject obj) \<Rightarrow> Inr [obj])))"

fun ToObjects ::
  "(string \<Rightarrow> err + string) \<Rightarrow> (string \<Rightarrow> err + jmap) \<Rightarrow> (string \<Rightarrow> err + 'o decoded) \<Rightarrow> (err + string) list \<Rightarrow> 'o list \<Rightarrow> err + 'o list" where
  "ToObjects toJSON unmarshal decode [] result = Inr result"
| "ToObjects toJSON unmarshal decode (Inl e # docs) result = Inl e"
| "ToObjects toJSON unmarshal decode (Inr raw # docs) result =
     (case toObjects toJSON unmarshal decode raw of
        Inl e \<Rightarrow> Inl e
      | Inr obj \<Rightarrow> ToObjects toJSON unmarshal decode docs (result @ obj))"

section \<open>What a translated value holds\<close>

text \<open>\<open>from_text\<close>: what a decoder with \<open>UseNumber\<close> makes; \<open>translated\<close>: numbers are 64-bit integers or floats.\<close>

definition in_int64 :: "int \<Rightarrow> bool" where
  "in_int64 i \<longleftrightarrow> - (2 ^ 63) \<le> i \<and> i < 2 ^ 63"

fun from_text :: "json \<Rightarrow> bool" where
  "from_text (JInt i) = False"
| "from_text (JFloat f) = False"
| "from_text (JBytes b) = False"
| "from_text (JList xs) = list_all from_text xs"
| "from_text (JMap m) = list_all (\<lambda>(k, v). from_text v) m"
| "from_text v = True"

fun translated :: "json \<Rightarrow> bool" where
  "translated (JNumber n) = False"
| "translated (JInt i) = in_int64 i"
| "translated (JBytes b) = False"
| "translated (JList xs) = list_all translated xs"
| "translated (JMap m) = list_all (\<lambda>(k, v). translated v) m"
| "translated v = True"

lemma Atoi_in_int64: "strconv_Atoi s = Some i \<Longrightarrow> in_int64 i"
  unfolding in_int64_def by (rule Atoi_range)

lemma translate_translated:
  "\<lbrakk>translateObject f v = Inr u; from_text v\<rbrakk> \<Longrightarrow> translated u"
  "\<lbrakk>translate_list f xs = Inr us; list_all from_text xs\<rbrakk> \<Longrightarrow> list_all translated us"
  "\<lbrakk>translate_map f m = Inr w; list_all (\<lambda>(k, v). from_text v) m\<rbrakk>
     \<Longrightarrow> list_all (\<lambda>(k, v). translated v) w \<and> map fst w = map fst m"
proof (induction f v and f xs and f m arbitrary: u and us and w
    rule: translateObject_translate_list_translate_map.induct)
  case (3 float64 n)
  then show ?case by (auto simp: Atoi_in_int64 split: option.splits sum.splits)
qed (auto split: sum.splits)

text \<open>A translated value is a fixed point.\<close>

lemma translate_fixed:
  "translated v \<Longrightarrow> translateObject f v = Inr v"
  "list_all translated xs \<Longrightarrow> translate_list f xs = Inr xs"
  "list_all (\<lambda>(k, v). translated v) m \<Longrightarrow> translate_map f m = Inr m"
  by (induction f v and f xs and f m rule: translateObject_translate_list_translate_map.induct) auto

text \<open>C27: The type of translated data: whatever JSON was decoded, \<open>translateObject\<close> leaves no \<open>json.Number\<close> at any depth; every
  integer it makes fits 64 bits and the keys of a map are as they were.
\<close>

theorem translateObject_typed:
  assumes "translateObject f v = Inr u" and "from_text v"
  shows "translated u \<and> map fst (as_map u) = map fst (as_map v) \<and> translateObject f u = Inr u"
proof -
  from translate_translated(1) [OF assms] have u: "translated u" .
  moreover have "map fst (as_map u) = map fst (as_map v)"
  proof (cases v)
    case (JMap m)
    with assms translate_translated(3) [of f m] show ?thesis
      by (auto simp: as_map_def split: sum.splits)
  qed (use assms in \<open>auto simp: as_map_def split: sum.splits option.splits\<close>)
  ultimately show ?thesis using translate_fixed(1) by blast
qed

theorem translateObject_typed_witness:
  "translated (JMap [(''n'', JList [JInt (- 12), JFloat ''1.5''])])"
  using translateObject_typed [of Inr "JMap [(''n'', JList [JNumber ''-12'', JNumber ''1.5''])]"
      "JMap [(''n'', JList [JInt (- 12), JFloat ''1.5''])]"]
  by (simp add: strconv_Atoi_def parse_nat_def is_digit_def digit_val_def less_eq_char_def)

section \<open>Copies\<close>

text \<open>What the encoder writes for an integer is its decimal text, and the decoder keeps it as a number.\<close>

fun to_numbers :: "json \<Rightarrow> json" where
  "to_numbers (JInt i) = JNumber (int_text i)"
| "to_numbers (JList xs) = JList (map to_numbers xs)"
| "to_numbers (JMap m) = JMap (map (\<lambda>(k, v). (k, to_numbers v)) m)"
| "to_numbers v = v"

fun whole :: "json \<Rightarrow> bool" where
  "whole (JInt i) = in_int64 i"
| "whole (JNumber n) = False"
| "whole (JFloat f) = False"
| "whole (JBytes b) = False"
| "whole (JList xs) = list_all whole xs"
| "whole (JMap m) = list_all (\<lambda>(k, v). whole v) m"
| "whole v = True"

lemma whole_translated: "whole v \<Longrightarrow> translated v"
  by (induction v rule: whole.induct) (auto simp: list_all_iff)

lemma translate_to_numbers:
  "whole v \<Longrightarrow> translateObject f (to_numbers v) = Inr v"
  "list_all whole xs \<Longrightarrow> translate_list f (map to_numbers xs) = Inr xs"
  "list_all (\<lambda>(k, v). whole v) m \<Longrightarrow> translate_map f (map (\<lambda>(k, v). (k, to_numbers v)) m) = Inr m"
  by (induction f v and f xs and f m rule: translateObject_translate_list_translate_map.induct)
    (auto simp: in_int64_def Atoi_int_text translate_fixed(1) [OF whole_translated])

text \<open>C28: \<open>GenericMap.DeepCopy\<close> is the round trip through JSON: for data of strings, booleans, nulls, lists, maps and 64-bit integers
  at any depth it gives the same data back, when the encoder and the decoder are inverse up to the form of numbers; but for
  an empty map that is not nil, of which the copy has nil data.
\<close>

theorem DeepCopy_roundtrip:
  assumes "marshal (Some d) = Inr bs" and "decode bs = Inr (as_map (to_numbers (JMap d)))"
    and "whole (JMap d)"
  shows "DeepCopyInto marshal decode f (Some (Some d)) = (if d = [] then None else Some d)"
  using assms translate_to_numbers(1) [of "JMap d" f]
  by (simp add: DeepCopyInto_def Mapify_def UnmarshalJSON_def GetData_def as_map_def)

theorem DeepCopy_roundtrip_witness:
  "DeepCopyInto (\<lambda>d. Inr ''{\"a\":[7,true]}'') (\<lambda>bs. Inr [(''a'', JList [JNumber (int_text 7), JBool True])]) Inr
     (Some (Some [(''a'', JList [JInt 7, JBool True])])) = Some [(''a'', JList [JInt 7, JBool True])]"
  using DeepCopy_roundtrip [of "\<lambda>d. Inr ''{\"a\":[7,true]}''" "[(''a'', JList [JInt 7, JBool True])]" "''{\"a\":[7,true]}''"
      "\<lambda>bs. Inr [(''a'', JList [JNumber (int_text 7), JBool True])]" Inr]
  by (simp add: as_map_def in_int64_def)

text \<open>Where the encoder writes a whole float as an integer, as Go's does, the copy has an integer for it.\<close>

lemma DeepCopy_float_becomes_int:
  assumes "marshal (Some [(k, JFloat ''1'')]) = Inr bs" and "decode bs = Inr [(k, JNumber ''1'')]"
  shows "DeepCopyInto marshal decode f (Some (Some [(k, JFloat ''1'')])) = Some [(k, JInt 1)]"
  using assms
  by (simp add: DeepCopyInto_def Mapify_def UnmarshalJSON_def GetData_def as_map_def strconv_Atoi_def parse_nat_def is_digit_def digit_val_def less_eq_char_def)

text \<open>Reading an empty JSON object into a map that has data leaves the old data there.\<close>

lemma UnmarshalJSON_empty_keeps:
  "decode bs = Inr [] \<Longrightarrow> UnmarshalJSON decode f (Some old) bs = (None, Some old)"
  by (simp add: UnmarshalJSON_def as_map_def)

text \<open>\<open>Merge\<close> reads \<open>from'\<close> first, then the receiver, and is never nil, even for two nil pointers.\<close>

lemma Merge_reads:
  assumes "gomap_ok (nil_map (GetData g))" and "gomap_ok (nil_map (GetData from'))"
  shows "\<exists>m. Merge g from' = Some (Some m) \<and> map_of m = map_of (nil_map (GetData g)) ++ map_of (nil_map (GetData from'))"
  using assms by (simp add: Merge_def Concat_def fold_updates map_of_rev Let_def)

section \<open>What is exported\<close>

lemma cleanMap_keys: "(k, v) \<in> set (cleanMap m) \<Longrightarrow> \<not> strings_HasPrefix k ''kubectl.kubernetes.io/'' \<and> (k, v) \<in> set m"
  by (simp add: cleanMap_def cleanPrefix_def)

lemma map_of_put_cleaned [simp]:
  "k \<notin> set (map fst md) \<Longrightarrow>
   map_of (put_cleaned k m md) k' =
     (if k' = k then (if cleanMap m = [] then None else Some (MMap (cleanMap m))) else map_of md k')"
  by (cases "m = []") (auto simp: put_cleaned_def Let_def cleanMap_def map_of_eq_None_iff)

definition maps_to :: "(string, string) gomap \<Rightarrow> meta_value option" where
  "maps_to m = (if cleanMap m = [] then None else Some (MMap (cleanMap m)))"

lemma clean_metadata_reads:
  assumes "clean_metadata n g ns a l = Some md"
  shows "map_of md = [''name'' \<mapsto> MStr n, ''generateName'' \<mapsto> MStr g, ''namespace'' \<mapsto> MStr ns]
      (''name'' := (if n = [] then None else Some (MStr n)),
       ''generateName'' := (if n = [] \<and> g \<noteq> [] then Some (MStr g) else None),
       ''namespace'' := (if ns = [] then None else Some (MStr ns)),
       ''annotations'' := maps_to a, ''labels'' := maps_to l)"
    and "n \<noteq> [] \<or> g \<noteq> []"
proof -
  define m1 where "m1 = (if n \<noteq> [] then [(''name'', MStr n)] else [(''generateName'', MStr g)])"
  define m2 where "m2 = (if ns \<noteq> [] then AList.update ''namespace'' (MStr ns) m1 else m1)"
  have md: "md = put_cleaned ''labels'' l (put_cleaned ''annotations'' a m2)" and n: "n \<noteq> [] \<or> g \<noteq> []"
    using assms by (auto simp: clean_metadata_def m1_def m2_def Let_def split: if_splits)
  have m2: "map_of m2 = [''name'' \<mapsto> MStr n, ''generateName'' \<mapsto> MStr g, ''namespace'' \<mapsto> MStr ns]
      (''name'' := (if n = [] then None else Some (MStr n)),
       ''generateName'' := (if n = [] \<and> g \<noteq> [] then Some (MStr g) else None),
       ''namespace'' := (if ns = [] then None else Some (MStr ns)))"
    using n by (auto simp: m2_def m1_def fun_eq_iff)
  have k1: "''annotations'' \<notin> set (map fst m2)"
    using m2 by (simp flip: map_of_eq_None_iff)
  then have m3: "map_of (put_cleaned ''annotations'' a m2) = (map_of m2)(''annotations'' := maps_to a)"
    by (simp add: fun_eq_iff maps_to_def)
  then have "''labels'' \<notin> set (map fst (put_cleaned ''annotations'' a m2))"
    using m2 by (simp flip: map_of_eq_None_iff)
  then have "map_of md = (map_of (put_cleaned ''annotations'' a m2))(''labels'' := maps_to l)"
    by (simp add: md fun_eq_iff maps_to_def)
  with m2 m3 show "map_of md = [''name'' \<mapsto> MStr n, ''generateName'' \<mapsto> MStr g, ''namespace'' \<mapsto> MStr ns]
      (''name'' := (if n = [] then None else Some (MStr n)),
       ''generateName'' := (if n = [] \<and> g \<noteq> [] then Some (MStr g) else None),
       ''namespace'' := (if ns = [] then None else Some (MStr ns)),
       ''annotations'' := maps_to a, ''labels'' := maps_to l)" by simp
  from n show "n \<noteq> [] \<or> g \<noteq> []" .
qed

lemma clean_metadata_keys:
  assumes "clean_metadata n g ns a l = Some md"
  shows "set (map fst md) \<subseteq> {''name'', ''generateName'', ''namespace'', ''annotations'', ''labels''}"
proof
  fix k assume "k \<in> set (map fst md)"
  then have "map_of md k \<noteq> None" by (simp add: map_of_eq_None_iff)
  then show "k \<in> {''name'', ''generateName'', ''namespace'', ''annotations'', ''labels''}"
    unfolding clean_metadata_reads(1) [OF assms] by (simp only: fun_upd_apply split: if_splits) simp_all
qed

lemma clean_metadata_maps:
  assumes "clean_metadata n g ns a l = Some md" and "map_of md k = Some (MMap m)"
  shows "m \<noteq> [] \<and> (\<forall>(x, v) \<in> set m. \<not> strings_HasPrefix x ''kubectl.kubernetes.io/'')"
proof -
  have "maps_to a = Some (MMap m) \<or> maps_to l = Some (MMap m)"
    using assms(2) unfolding clean_metadata_reads(1) [OF assms(1)]
    by (simp only: fun_upd_apply split: if_splits) simp_all
  then show ?thesis by (auto simp: maps_to_def dest: cleanMap_keys split: if_splits)
qed

lemma clean_metadata_name:
  assumes "clean_metadata n g ns a l = Some md"
  shows "\<exists>n. n \<noteq> [] \<and> (map_of md ''name'' = Some (MStr n)) \<noteq> (map_of md ''generateName'' = Some (MStr n))"
  using clean_metadata_reads [OF assms] by (cases "n = []") auto

lemma clean_spec_reads: "map_of (clean_spec d) ''spec'' \<noteq> Some JNull \<and> map_of (clean_spec d) ''spec'' \<noteq> Some (JMap [])"
  by (auto simp: clean_spec_def split: option.splits json.splits)

text \<open>
  What an exported object keeps: no status, no null or empty spec, and metadata made of its name (or else its
  generate-name; one of them there is), its namespace when it has one, and the annotations and labels that do not
  belong to \<open>kubectl\<close>. Nothing else of the metadata is left: no UID, version, owner or timestamp.
\<close>

theorem CleanObjectForExport_clean:
  assumes "CleanObjectForExport L obj = Inr (d, md)"
  shows "map_of d ''status'' = None \<and> map_of d ''metadata'' = None \<and>
    map_of d ''spec'' \<noteq> Some JNull \<and> map_of d ''spec'' \<noteq> Some (JMap []) \<and>
    set (map fst md) \<subseteq> {''name'', ''generateName'', ''namespace'', ''annotations'', ''labels''} \<and>
    (\<exists>n. n \<noteq> [] \<and> (map_of md ''name'' = Some (MStr n)) \<noteq> (map_of md ''generateName'' = Some (MStr n))) \<and>
    (\<forall>k m. map_of md k = Some (MMap m) \<longrightarrow> m \<noteq> [] \<and> (\<forall>(x, v) \<in> set m. \<not> strings_HasPrefix x ''kubectl.kubernetes.io/''))"
proof -
  obtain d0 where cm: "clean_metadata (elName L d0) (elGenerateName L d0) (elNamespace L d0) (elAnnotations L d0) (elLabels L d0) = Some md"
    and d: "d = AList.delete ''status'' (AList.delete ''metadata'' (clean_spec d0))"
    using assms by (auto simp: CleanObjectForExport_def split: sum.splits option.splits if_splits)
  show ?thesis
    using clean_metadata_keys [OF cm] clean_metadata_name [OF cm] clean_metadata_maps [OF cm] clean_spec_reads [of d0]
    unfolding d by (intro conjI allI impI) simp_all
qed

text \<open>An unstructured object, whose accessors read the nested fields.\<close>

fun str_map :: "jmap \<Rightarrow> (string, string) gomap" where
  "str_map [] = []"
| "str_map ((k, JStr v) # m) = (k, v) # str_map m"
| "str_map (x # m) = []"

definition nested :: "string \<Rightarrow> jmap \<Rightarrow> json option" where
  "nested k d = map_of (as_map_opt (map_of d ''metadata'')) k"

definition nested_str :: "string \<Rightarrow> jmap \<Rightarrow> string" where
  "nested_str k d = (case nested k d of Some (JStr s) \<Rightarrow> s | _ \<Rightarrow> [])"

definition export_example :: "jmap export_lib" where
  "export_example = \<lparr>elGVK = (\<lambda>d. \<lparr>Group = [], Version = ''v1'', Kind = ''ConfigMap''\<rparr>),
     elGVKForObject = (\<lambda>d. Inl (Err ''no kind'')), elSetGVK = (\<lambda>g d. d), elForm = IsUnstructured,
     elMarshal = (\<lambda>d. Inl (Err ''unused'')), elDecode = (\<lambda>s. Inl (Err ''unused'')), elText = (\<lambda>d. ''object''),
     elName = nested_str ''name'', elGenerateName = nested_str ''generateName'', elNamespace = nested_str ''namespace'',
     elAnnotations = (\<lambda>d. str_map (as_map_opt (nested ''annotations'' d))),
     elLabels = (\<lambda>d. str_map (as_map_opt (nested ''labels'' d)))\<rparr>"

theorem CleanObjectForExport_clean_witness:
  "CleanObjectForExport export_example
     [(''spec'', JMap []), (''status'', JStr ''ready''),
      (''metadata'', JMap [(''name'', JStr ''a''), (''uid'', JStr ''7''),
        (''annotations'', JMap [(''kubectl.kubernetes.io/x'', JStr ''1'')]), (''labels'', JMap [(''app'', JStr ''b'')])])] =
     Inr ([], [(''name'', MStr ''a''), (''labels'', MMap [(''app'', ''b'')])]) \<and>
   map_of ([] :: jmap) ''status'' = None"
proof -
  have *: "CleanObjectForExport export_example
     [(''spec'', JMap []), (''status'', JStr ''ready''),
      (''metadata'', JMap [(''name'', JStr ''a''), (''uid'', JStr ''7''),
        (''annotations'', JMap [(''kubectl.kubernetes.io/x'', JStr ''1'')]), (''labels'', JMap [(''app'', JStr ''b'')])])] =
     Inr ([], [(''name'', MStr ''a''), (''labels'', MMap [(''app'', ''b'')])])"
    by (simp add: CleanObjectForExport_def export_example_def export_ToMapInterface_def clean_metadata_def nested_str_def
        nested_def as_map_opt_def as_map_def put_cleaned_def cleanMap_def cleanPrefix_def clean_spec_def)
  from CleanObjectForExport_clean [OF *] * show ?thesis by blast
qed

end
