(* ===== verification/Test_Client.thy ===== *)
theory Test_Client
  imports Kube_Lib Responder
begin

text \<open>
  pkg/router/tester/types.go and generate.go: the client that handlers under test are given. It keeps pointers: an
  object is an address in a store, and what a handler later changes in an object it created is what the client has.
\<close>

section \<open>The client\<close>

type_synonym ref = nat
type_synonym store = "ref \<Rightarrow> kobj"

record test_client =
  tcObjects :: "ref list"
  tcCreated :: "ref list"
  tcUpdated :: "ref list"

definition client_objects :: "test_client \<Rightarrow> ref list" where
  "client_objects c = (tcObjects c @ tcCreated c) @ tcUpdated c"

definition same_object :: "store \<Rightarrow> string \<Rightarrow> string \<Rightarrow> string \<Rightarrow> ref \<Rightarrow> bool" where
  "same_object h t ns n r \<longleftrightarrow> GoType (h r) = t \<and> Name (h r) = n \<and> Namespace (h r) = ns"

definition test_not_found :: "string \<Rightarrow> string \<Rightarrow> err" where
  "test_not_found t n =
     ApiErr NotFound (''Unknown resource from test: '' @ t @ ''.Unknown group from test: '' @ t @ '' \"'' @ n @ ''\" not found'')"

text \<open>\<open>out\<close> is the object to fill, without a wrapper of package untriggered; it must have the type that is looked for.\<close>

fun get_loop :: "store \<Rightarrow> string \<Rightarrow> ObjectKey \<Rightarrow> ref list \<Rightarrow> ref option" where
  "get_loop h t key [] = None"
| "get_loop h t key (r # rs) =
     (if GoType (h r) \<noteq> t then get_loop h t key rs
      else if Name (h r) = KeyName key \<and> Namespace (h r) = KeyNamespace key then Some r
      else get_loop h t key rs)"

definition Client_Get :: "test_client \<Rightarrow> ObjectKey \<Rightarrow> ref \<Rightarrow> store \<Rightarrow> err option \<times> store" where
  "Client_Get c key out h =
     (let t = GoType (h out) in
      case get_loop h t key (rev (client_objects c)) of
        Some r \<Rightarrow> (None, h(out := h r))
      | None \<Rightarrow> (Some (test_not_found t (KeyName key)), h))"

record list_options =
  loNamespace :: string
  loLabelSelector :: "label_selector option"

text \<open>\<open>List\<close> looks for the kind of its list object; the new object it makes for each hit is never read.\<close>

fun list_loop ::
  "(gvk \<Rightarrow> new_result) \<Rightarrow> gvk \<Rightarrow> string \<Rightarrow> string \<Rightarrow> label_selector option \<Rightarrow> store \<Rightarrow> ref list \<Rightarrow> (string, ref) gomap
     \<Rightarrow> err + (string, ref) gomap" where
  "list_loop new g t ns sel h [] resultObjs = Inr resultObjs"
| "list_loop new g t ns sel h (r # rs) resultObjs =
     (if Namespace (h r) \<noteq> ns then list_loop new g t ns sel h rs resultObjs
      else if GoType (h r) \<noteq> t then list_loop new g t ns sel h rs resultObjs
      else if (case sel of None \<Rightarrow> False | Some s \<Rightarrow> \<not> selMatches s (Labels (h r)))
        then list_loop new g t ns sel h rs resultObjs
      else
        (let resultObjs = AList.update (Namespace (h r) @ ''/'' @ Name (h r)) r resultObjs in
         case new g of
           NewOk s \<Rightarrow> list_loop new g t ns sel h rs resultObjs
         | NotRegistered \<Rightarrow> Inl (Err ''no kind is registered for the version'')
         | NewErr err \<Rightarrow> Inl err))"

definition Client_List :: "(gvk \<Rightarrow> new_result) \<Rightarrow> test_client \<Rightarrow> err + gvk \<Rightarrow> list_options \<Rightarrow> store \<Rightarrow> err + kobj list" where
  "Client_List new c listGVK opts h =
     (case listGVK of
        Inl err \<Rightarrow> Inl err
      | Inr g \<Rightarrow>
          if \<not> strings_HasSuffix (Kind g) ''List'' then
            Inl (Err (''invalid list object '' @ Kind g @ '', Kind must end with List''))
          else
            let g = g\<lparr>Kind := strings_TrimSuffix (Kind g) ''List''\<rparr> in
            case new g of
              NotRegistered \<Rightarrow> Inl (Err ''no kind is registered for the version'')
            | NewErr err \<Rightarrow> Inl err
            | NewOk t \<Rightarrow>
                (case list_loop new g t (loNamespace opts) (loLabelSelector opts) h (client_objects c) [] of
                   Inl err \<Rightarrow> Inl err
                 | Inr m \<Rightarrow> Inr (map (h \<circ> snd) m)))"

text \<open>generate.go: \<open>rnd seed n i\<close> is the \<open>i\<close>-th \<open>Int63n(n)\<close> of a source with that seed, a number below \<open>n\<close>.\<close>

definition characters :: string where
  "characters = ''bcdfghjklmnpqrstvwxz2456789''"

definition tokenLength :: nat where
  "tokenLength = 54"

definition generate :: "(kobj \<Rightarrow> err + string) \<Rightarrow> (nat \<Rightarrow> nat \<Rightarrow> nat \<Rightarrow> nat) \<Rightarrow> kobj \<Rightarrow> err + string" where
  "generate marshal rnd obj =
     (case marshal obj of
        Inl e \<Rightarrow> Inl e
      | Inr d \<Rightarrow> Inr (map (\<lambda>i. characters ! rnd (length d) (length characters) i) [0..<tokenLength]))"

text \<open>\<open>generateName\<close> reads the object's \<open>GenerateName\<close>, \<open>gen\<close> is \<open>generate\<close>, \<open>uuid\<close> a new identifier.\<close>

definition Client_Create ::
  "(kobj \<Rightarrow> string) \<Rightarrow> (kobj \<Rightarrow> err + string) \<Rightarrow> string \<Rightarrow> test_client \<Rightarrow> ref \<Rightarrow> store
     \<Rightarrow> err option \<times> test_client \<times> store" where
  "Client_Create generateName gen uuid c obj h =
     (let h = h(obj := (h obj)\<lparr>UID := uuid\<rparr>) in
      case (if Name (h obj) = [] \<and> generateName (h obj) \<noteq> [] then
              (case gen (h obj) of
                 Inl err \<Rightarrow> Inl err
               | Inr r \<Rightarrow> Inr (h(obj := (h obj)\<lparr>Name := generateName (h obj) @ take 5 r\<rparr>)))
            else Inr h) of
        Inl err \<Rightarrow> (Some err, c, h)
      | Inr h \<Rightarrow> (None, c\<lparr>tcCreated := tcCreated c @ [obj]\<rparr>, h))"

definition Client_Update :: "test_client \<Rightarrow> ref \<Rightarrow> store \<Rightarrow> err option \<times> test_client" where
  "Client_Update c ob h =
     (let t = GoType (h ob) in
      if list_ex (same_object h t (Namespace (h ob)) (Name (h ob))) (client_objects c)
      then (None, c\<lparr>tcUpdated := tcUpdated c @ [ob]\<rparr>)
      else (Some (test_not_found t (Name (h ob))), c))"

section \<open>The response\<close>

record test_response =
  trDelay :: int
  trCollected :: "ref list"
  trNoPrune :: bool

definition Response_DisablePrune :: "test_response \<Rightarrow> test_response" where
  "Response_DisablePrune r = r\<lparr>trNoPrune := True\<rparr>"

definition Response_RetryAfter :: "int \<Rightarrow> test_response \<Rightarrow> test_response" where
  "Response_RetryAfter delay r = (if trDelay r = 0 \<or> delay < trDelay r then r\<lparr>trDelay := delay\<rparr> else r)"

definition Response_Objects :: "ref list \<Rightarrow> test_response \<Rightarrow> test_response" where
  "Response_Objects obj r = r\<lparr>trCollected := trCollected r @ obj\<rparr>"

interpretation test_responder: responder trDelay trCollected Response_RetryAfter
  by unfold_locales (auto simp: Response_RetryAfter_def)

section \<open>What the client is, to a reader\<close>

text \<open>By Go type, namespace and name: the address of the last object there.\<close>

type_synonym table = "string \<times> string \<times> string \<Rightarrow> ref option"

definition view :: "store \<Rightarrow> test_client \<Rightarrow> table" where
  "view h c = (\<lambda>(t, ns, n). find (same_object h t ns n) (rev (client_objects c)))"

definition place :: "kobj \<Rightarrow> string \<times> string \<times> string" where
  "place x = (GoType x, Namespace x, Name x)"

lemma get_loop_find: "get_loop h t key rs = find (same_object h t (KeyNamespace key) (KeyName key)) rs"
  by (induction rs) (auto simp: same_object_def)

lemma find_append: "find P (xs @ ys) = (case find P xs of None \<Rightarrow> find P ys | Some x \<Rightarrow> Some x)"
  by (induction xs) auto

lemma find_rev_None_iff: "find P (rev xs) = None \<longleftrightarrow> \<not> list_ex P xs"
  by (auto simp: find_None_iff list_ex_iff)

lemma find_same_store:
  "r \<notin> set rs \<Longrightarrow> find (same_object (h(r := x)) t ns n) rs = find (same_object h t ns n) rs"
  by (induction rs) (auto simp: same_object_def)

lemma view_Get: "Client_Get c key out h =
  (case view h c (GoType (h out), KeyNamespace key, KeyName key) of
     Some r \<Rightarrow> (None, h(out := h r))
   | None \<Rightarrow> (Some (test_not_found (GoType (h out)) (KeyName key)), h))"
  by (simp add: Client_Get_def get_loop_find view_def Let_def)

lemma view_None: "view h c (t, ns, n) = None \<longleftrightarrow> \<not> list_ex (same_object h t ns n) (client_objects c)"
  by (simp add: view_def find_rev_None_iff)

lemma view_Update: "Client_Update c ob h = (e, c') \<Longrightarrow>
  (if view h c (place (h ob)) = None then e \<noteq> None \<and> c' = c
   else e = None \<and> view h c' = (view h c)(place (h ob) \<mapsto> ob))"
proof (cases "list_ex (same_object h (GoType (h ob)) (Namespace (h ob)) (Name (h ob))) (client_objects c)")
  case True
  moreover have "view h (c\<lparr>tcUpdated := tcUpdated c @ [ob]\<rparr>) = (view h c)(place (h ob) \<mapsto> ob)"
    by (auto simp: view_def place_def client_objects_def fun_eq_iff same_object_def)
  moreover assume "Client_Update c ob h = (e, c')"
  ultimately show ?thesis
    by (auto simp: Client_Update_def Let_def place_def view_None simp del: not_None_eq)
next
  case False
  moreover assume "Client_Update c ob h = (e, c')"
  ultimately show ?thesis
    by (auto simp: Client_Update_def Let_def place_def view_None)
qed

lemma view_Create:
  assumes "Client_Create generateName gen uuid c obj h = (None, c', h')" and "obj \<notin> set (client_objects c)"
    and "view h c (place (h' obj)) = None"
  shows "view h' c' = (view h c)(place (h' obj) \<mapsto> obj)"
proof -
  define u where "u = (h obj)\<lparr>UID := uuid\<rparr>"
  obtain x where h': "h' = h(obj := x)" and c': "c' = c\<lparr>tcCreated := tcCreated c @ [obj]\<rparr>"
    using assms(1) by (auto simp: Client_Create_def Let_def split: if_splits sum.splits)
  have other: "find (same_object h' t ns n) rs = find (same_object h t ns n) rs" if "set rs \<subseteq> set (client_objects c)" for t ns n rs
    using that assms(2) unfolding h' by (intro find_same_store) auto
  have sub: "set (rev (tcUpdated c)) \<subseteq> set (client_objects c)" "set (rev (tcCreated c) @ rev (tcObjects c)) \<subseteq> set (client_objects c)"
    by (auto simp: client_objects_def)
  have rest: "find (same_object h' t ns n) (rev (tcCreated c) @ rev (tcObjects c)) =
      find (same_object h t ns n) (rev (tcCreated c) @ rev (tcObjects c))" for t ns n
    using sub(2) by (rule other)
  have none: "find (same_object h (GoType x) (Namespace x) (Name x)) (rev (tcUpdated c)) = None"
    using assms(3) by (auto simp: h' view_def place_def client_objects_def find_append split: option.splits)
  show ?thesis
  proof (rule ext)
    fix p :: "string \<times> string \<times> string"
    obtain t ns n where p: "p = (t, ns, n)" by (metis prod_cases3)
    have new: "same_object h' t ns n obj \<longleftrightarrow> p = place x"
      by (auto simp: h' p place_def same_object_def)
    show "view h' c' p = ((view h c)(place (h' obj) \<mapsto> obj)) p"
    proof (cases "p = place x")
      case True
      with none new show ?thesis
        by (simp add: view_def p c' client_objects_def find_append other [OF sub(1)]) (simp add: h' place_def)
    next
      case False
      with new have "\<not> same_object h' t ns n obj" by simp
      then have "view h' c' p = view h c p"
        by (cases "find (same_object h t ns n) (rev (tcUpdated c))")
          (simp_all add: view_def p c' client_objects_def find_append [where xs = "rev (tcUpdated c)"] other [OF sub(1)] rest)
      with False show ?thesis by (simp add: h')
    qed
  qed
qed

text \<open>C22: The test client refines a table of objects by Go type, namespace and name. \<open>Get\<close> copies the table's object into the
  one it is given or answers not found; \<open>Update\<close> is refused where the table has nothing and otherwise puts its object there;
  \<open>Create\<close> of a new object at a free place puts it there, under the name it was given or made.
\<close>

theorem test_client_refines_table:
  "(\<forall>key out. Client_Get c key out h =
      (case view h c (GoType (h out), KeyNamespace key, KeyName key) of
         Some r \<Rightarrow> (None, h(out := h r))
       | None \<Rightarrow> (Some (test_not_found (GoType (h out)) (KeyName key)), h))) \<and>
   (\<forall>ob. view h c (place (h ob)) = None \<longrightarrow> (\<exists>e. Client_Update c ob h = (Some e, c) \<and> IsNotFound (Some e))) \<and>
   (\<forall>ob. view h c (place (h ob)) \<noteq> None \<longrightarrow>
      (\<exists>c'. Client_Update c ob h = (None, c') \<and> view h c' = (view h c)(place (h ob) \<mapsto> ob))) \<and>
   (\<forall>gn gen uuid ob c' h'. Client_Create gn gen uuid c ob h = (None, c', h') \<and> ob \<notin> set (client_objects c) \<and>
      view h c (place (h' ob)) = None \<longrightarrow> view h' c' = (view h c)(place (h' ob) \<mapsto> ob))"
proof (intro conjI allI impI)
  fix ob assume none: "view h c (place (h ob)) = None"
  then show "\<exists>e. Client_Update c ob h = (Some e, c) \<and> IsNotFound (Some e)"
    by (auto simp: Client_Update_def Let_def place_def view_None test_not_found_def)
next
  fix ob assume some: "view h c (place (h ob)) \<noteq> None"
  obtain e c' where u: "Client_Update c ob h = (e, c')" by fastforce
  from view_Update [OF u] some u show "\<exists>c'. Client_Update c ob h = (None, c') \<and> view h c' = (view h c)(place (h ob) \<mapsto> ob)"
    by auto
qed (auto simp: view_Get view_Create)

definition example_store :: store where
  "example_store = (\<lambda>r. empty_obj\<lparr>Name := (if r = 2 then ''b'' else ''a''), UID := [char_of r],
     Labels := (if r = 0 then [''app'' \<mapsto> ''x''] else (\<lambda>_. None))\<rparr>)"

definition example_client :: test_client where
  "example_client = \<lparr>tcObjects = [0], tcCreated = [], tcUpdated = []\<rparr>"

theorem test_client_refines_table_witness:
  "(\<exists>e. Client_Update example_client 2 example_store = (Some e, example_client)) \<and>
   (\<exists>c'. Client_Update example_client 1 example_store = (None, c') \<and> view example_store c' (''Object'', [], ''a'') = Some 1) \<and>
   (\<exists>c' h'. Client_Create (\<lambda>x. []) (\<lambda>x. Inr []) ''u'' example_client 2 example_store = (None, c', h') \<and>
      view h' c' (''Object'', [], ''b'') = Some 2)"
proof -
  note T = test_client_refines_table [where h = example_store and c = example_client]
  have places: "place (example_store 0) = (''Object'', [], ''a'')" "place (example_store 1) = (''Object'', [], ''a'')"
    "place (example_store 2) = (''Object'', [], ''b'')"
    by (simp_all add: place_def example_store_def)
  have v: "view example_store example_client (place (example_store 2)) = None"
    "view example_store example_client (place (example_store 1)) = Some 0"
    unfolding places by (simp_all add: view_def example_client_def client_objects_def same_object_def example_store_def)
  obtain c' h' where c: "Client_Create (\<lambda>x. []) (\<lambda>x. Inr []) ''u'' example_client 2 example_store = (None, c', h')"
    and h': "h' = example_store(2 := (example_store 2)\<lparr>UID := ''u''\<rparr>)"
    by (simp add: Client_Create_def)
  have "place (h' 2) = place (example_store 2)" by (simp add: h' place_def)
  moreover have "2 \<notin> set (client_objects example_client)" by (simp add: example_client_def client_objects_def)
  ultimately have "view h' c' = (view example_store example_client)(place (example_store 2) \<mapsto> 2)"
    using T c v(1) by metis
  moreover obtain c1 where "Client_Update example_client 1 example_store = (None, c1)"
      "view example_store c1 = (view example_store example_client)(place (example_store 1) \<mapsto> 1)"
    using T v(2) by (metis option.distinct(1))
  moreover obtain e where "Client_Update example_client 2 example_store = (Some e, example_client)"
    using T v(1) by blast
  ultimately show ?thesis using c places by simp
qed

section \<open>Listing\<close>

definition listed :: "store \<Rightarrow> string \<Rightarrow> string \<Rightarrow> label_selector option \<Rightarrow> ref \<Rightarrow> bool" where
  "listed h t ns sel r \<longleftrightarrow> Namespace (h r) = ns \<and> GoType (h r) = t \<and>
     (case sel of None \<Rightarrow> True | Some s \<Rightarrow> selMatches s (Labels (h r)))"

lemma list_loop_listed:
  assumes "new g = NewOk t'"
  shows "list_loop new g t ns sel h rs m =
    Inr (fold (\<lambda>r. AList.update (ns @ ''/'' @ Name (h r)) r) (filter (listed h t ns sel) rs) m)"
  using assms by (induction rs arbitrary: m) (auto simp: listed_def Let_def split: option.split)

lemma map_of_fold_update:
  "map_of (fold (\<lambda>r. AList.update (f r) r) rs m) k =
     (case find (\<lambda>r. f r = k) (rev rs) of None \<Rightarrow> map_of m k | Some r \<Rightarrow> Some r)"
  by (induction rs arbitrary: m) (auto simp: find_append split: option.split)

lemma gomap_ok_updates: "gomap_ok m \<Longrightarrow> gomap_ok (fold (\<lambda>r. AList.update (f r) r) rs m)"
  by (induction rs arbitrary: m) auto

lemma find_filter: "find P (filter Q xs) = find (\<lambda>x. Q x \<and> P x) xs"
  by (induction xs) auto

text \<open>
  What \<open>List\<close> answers: for each name, the last object of the type in exactly the namespace asked for that matches the
  selector, once, and nothing else. Without a namespace these are the objects that have none, not those of all namespaces.
\<close>

theorem Client_List_last_match:
  assumes "new (g\<lparr>Kind := k\<rparr>) = NewOk t" and "Kind g = k @ ''List''"
  shows "\<exists>rs. Client_List new c (Inr g) opts h = Inr (map h rs) \<and> distinct rs \<and>
    set rs = {r. \<exists>n. find (\<lambda>r. listed h t (loNamespace opts) (loLabelSelector opts) r \<and> Name (h r) = n) (rev (client_objects c)) = Some r}"
proof -
  let ?L = "listed h t (loNamespace opts) (loLabelSelector opts)" and ?f = "\<lambda>r. loNamespace opts @ ''/'' @ Name (h r)"
  define m where "m = fold (\<lambda>r. AList.update (?f r) r) (filter ?L (client_objects c)) []"
  have "Client_List new c (Inr g) opts h = Inr (map h (map snd m))"
    using assms by (simp add: Client_List_def Let_def list_loop_listed m_def)
  moreover have ok: "gomap_ok m" unfolding m_def by (rule gomap_ok_updates) simp
  have m: "map_of m k = find (\<lambda>r. ?L r \<and> ?f r = k) (rev (client_objects c))" for k
    by (simp add: m_def map_of_fold_update rev_filter find_filter split: option.split)
  have key: "fst p = ?f (snd p)" if "p \<in> set m" for p
  proof -
    from that ok have "map_of m (fst p) = Some (snd p)" by simp
    then show ?thesis unfolding m find_Some_iff by auto
  qed
  have "inj_on snd (set m)"
    using key by (intro inj_onI) (metis prod.collapse)
  with ok have "distinct (map snd m)" by (simp add: distinct_map)
  moreover have "set (map snd m) = {r. \<exists>n. find (\<lambda>r. ?L r \<and> Name (h r) = n) (rev (client_objects c)) = Some r}"
  proof (intro set_eqI iffI)
    fix r assume "r \<in> set (map snd m)"
    then obtain p where p: "p \<in> set m" "snd p = r" by auto
    with ok have "map_of m (fst p) = Some r" by auto
    with m have "find (\<lambda>r'. ?L r' \<and> ?f r' = ?f r) (rev (client_objects c)) = Some r" using key [OF p(1)] p(2) by simp
    then show "r \<in> {r. \<exists>n. find (\<lambda>r. ?L r \<and> Name (h r) = n) (rev (client_objects c)) = Some r}" by auto
  next
    fix r assume "r \<in> {r. \<exists>n. find (\<lambda>r. ?L r \<and> Name (h r) = n) (rev (client_objects c)) = Some r}"
    then obtain n where "find (\<lambda>r. ?L r \<and> Name (h r) = n) (rev (client_objects c)) = Some r" by blast
    then have "map_of m (loNamespace opts @ ''/'' @ n) = Some r" by (simp add: m)
    then show "r \<in> set (map snd m)" by (force dest: map_of_SomeD)
  qed
  ultimately show ?thesis by blast
qed

theorem Client_List_last_match_witness:
  "\<exists>rs. Client_List (\<lambda>g. NewOk ''Object'') example_client (Inr \<lparr>Group = [], Version = ''v1'', Kind = ''ObjectList''\<rparr>)
     \<lparr>loNamespace = [], loLabelSelector = None\<rparr> example_store = Inr (map example_store rs)"
  using Client_List_last_match [where new = "\<lambda>g. NewOk ''Object''" and g = "\<lparr>Group = [], Version = ''v1'', Kind = ''ObjectList''\<rparr>"
      and k = "''Object''" and t = "''Object''" and c = example_client and opts = "\<lparr>loNamespace = [], loLabelSelector = None\<rparr>"
      and h = example_store]
  by auto

text \<open>C36: A list by labels answers with a version that is gone: when an object was updated so that the selector no longer
  matches it, the version from before the update is still listed, while \<open>Get\<close> of the same name gives the new one.
\<close>

theorem Client_List_stale:
  assumes "new (g\<lparr>Kind := k\<rparr>) = NewOk t" and "Kind g = k @ ''List''"
    and "client_objects c = [old, upd]" and "place (h old) = (t, ns, n)" and "place (h upd) = (t, ns, n)"
    and "selMatches s (Labels (h old))" and "\<not> selMatches s (Labels (h upd))" and "GoType (h out) = t"
  shows "Client_List new c (Inr g) \<lparr>loNamespace = ns, loLabelSelector = Some s\<rparr> h = Inr [h old] \<and>
    Client_Get c (mk_key ns n) out h = (None, h(out := h upd))"
  using assms by (simp add: Client_List_def Let_def list_loop_listed listed_def place_def Client_Get_def)

theorem Client_List_stale_witness:
  "Client_List (\<lambda>g. NewOk ''Object'') (example_client\<lparr>tcUpdated := [1]\<rparr>) (Inr \<lparr>Group = [], Version = ''v1'', Kind = ''ObjectList''\<rparr>)
     \<lparr>loNamespace = [], loLabelSelector = Some \<lparr>selMatches = (\<lambda>l. l ''app'' = Some ''x''), selString = ''app=x''\<rparr>\<rparr> example_store =
   Inr [example_store 0]"
  using Client_List_stale [where new = "\<lambda>g. NewOk ''Object''" and g = "\<lparr>Group = [], Version = ''v1'', Kind = ''ObjectList''\<rparr>"
      and k = "''Object''" and t = "''Object''" and c = "example_client\<lparr>tcUpdated := [1]\<rparr>" and old = 0 and upd = 1 and out = 0
      and h = example_store and ns = "[]" and n = "''a''"
      and s = "\<lparr>selMatches = (\<lambda>l. l ''app'' = Some ''x''), selString = ''app=x''\<rparr>"]
  by (simp add: client_objects_def example_client_def place_def example_store_def)

end
