(* ===== verification/Test_Harness.thy ===== *)
theory Test_Harness
  imports Test_Client Yaml_Export
begin

text \<open>
  pkg/router/tester/tester.go: a handler is run on an input object with the test client, and what it collected is compared
  with what was expected. A failed assertion is a value of the result; \<open>None\<close> is a test that stopped (\<open>t.Fatal\<close>,
  \<open>require\<close>). Test cases are read from a directory, which is a finite tree.
\<close>

section \<open>Files\<close>

datatype fs = File "err + string" | Dir "(string \<times> fs) list"

record 'o test_lib =
  tlToJSON :: "string \<Rightarrow> err + string"
  tlUnmarshal :: "string \<Rightarrow> err + jmap"
  tlDecode :: "string \<Rightarrow> err + 'o decoded"
  tlKindOf :: "'o \<Rightarrow> gvk"
  tlMarshal :: "'o \<Rightarrow> err + string"
  tlSchemeNew :: "gvk \<Rightarrow> new_result"
  tlUnmarshalAs :: "string \<Rightarrow> string \<Rightarrow> err + kobj"
  tlDocuments :: "string \<Rightarrow> (err + string) list"  \<comment> \<open>the YAML reader over a file\<close>
  tlJoin :: "string \<Rightarrow> string \<Rightarrow> string"

fun genericToTyped :: "'o test_lib \<Rightarrow> 'o list \<Rightarrow> kobj list \<Rightarrow> err + kobj list" where
  "genericToTyped L [] result = Inr result"
| "genericToTyped L (obj # objs) result =
     (case tlSchemeNew L (tlKindOf L obj) of
        NotRegistered \<Rightarrow> Inl (Err ''no kind is registered for the version'')
      | NewErr err \<Rightarrow> Inl err
      | NewOk t \<Rightarrow>
          (case tlMarshal L obj of
             Inl err \<Rightarrow> Inl err
           | Inr bs \<Rightarrow>
               (case tlUnmarshalAs L t bs of
                  Inl err \<Rightarrow> Inl err
                | Inr typedObj \<Rightarrow> genericToTyped L objs (result @ [typedObj]))))"

text \<open>The entries of a directory are in the order of \<open>os.ReadDir\<close>; reading a plain file as a directory fails.\<close>

definition not_a_directory :: err where
  "not_a_directory = Err ''not a directory''"

definition is_dir :: "fs \<Rightarrow> bool" where
  "is_dir x = (case x of Dir es \<Rightarrow> True | File c \<Rightarrow> False)"

lemma size_entry: "(k, x) \<in> set es \<Longrightarrow> size x < size (Dir es)"
  by (induction es) auto

function readFile :: "'o test_lib \<Rightarrow> string \<Rightarrow> (string \<times> fs) list \<Rightarrow> string \<Rightarrow> err + kobj list"
and read_nested :: "'o test_lib \<Rightarrow> string \<Rightarrow> (string \<times> fs) list \<Rightarrow> (string \<times> fs) list \<Rightarrow> kobj list \<Rightarrow> err + kobj list" where
  "readFile L dir es f =
     (let path = tlJoin L dir f in
      case (case map_of es (f @ ''.d'') of
              None \<Rightarrow> Inr []
            | Some (File c) \<Rightarrow> Inl not_a_directory
            | Some (Dir sub) \<Rightarrow> read_nested L (path @ ''.d'') sub sub []) of
        Inl err \<Rightarrow> Inl err
      | Inr objs \<Rightarrow>
          (case map_of es f of
             None \<Rightarrow> Inr objs
           | Some (Dir sub) \<Rightarrow> Inl (Wrap (''reading '' @ path @ '': '') (Err ''is a directory''))
           | Some (File (Inl err)) \<Rightarrow> Inl (Wrap (''reading '' @ path @ '': '') err)
           | Some (File (Inr d)) \<Rightarrow>
               (case ToObjects (tlToJSON L) (tlUnmarshal L) (tlDecode L) (tlDocuments L d) [] of
                  Inl err \<Rightarrow> Inl (Wrap (''unmarshalling '' @ path @ '': '') err)
                | Inr newObjects \<Rightarrow>
                    (case genericToTyped L newObjects [] of
                       Inl err \<Rightarrow> Inl err
                     | Inr typedObjects \<Rightarrow> Inr (objs @ typedObjects)))))"
| "read_nested L dir sub [] objs = Inr objs"
| "read_nested L dir sub ((f, x) # rest) objs =
     (if is_dir x \<or> \<not> strings_HasSuffix f ''.yaml'' then read_nested L dir sub rest objs
      else
        (case readFile L dir sub f of
           Inl err \<Rightarrow> Inl err
         | Inr nestedObj \<Rightarrow> read_nested L dir sub rest (objs @ nestedObj)))"
  by pat_completeness auto
termination
proof (relation "measures [\<lambda>x. case x of Inl (L, dir, es, f) \<Rightarrow> size (Dir es) | Inr (L, dir, sub, rest, objs) \<Rightarrow> size (Dir sub),
    \<lambda>x. case x of Inl _ \<Rightarrow> 0 | Inr _ \<Rightarrow> 1, \<lambda>x. case x of Inl _ \<Rightarrow> 0 | Inr (L, dir, sub, rest, objs) \<Rightarrow> length rest]")
qed (auto dest!: map_of_SomeD size_entry simp del: fs.size)

declare readFile.simps [simp del]

section \<open>Cases from a directory\<close>

record 'o harness =
  hExisting :: "'o list"
  hExpectedOutput :: "'o list"
  hExpectedGoldenPath :: string
  hExpectedDelay :: int

text \<open>\<open>golden\<close> is \<open>os.Stat\<close> of \<open>expected.golden\<close>: there, not there, or another error.\<close>

definition FromDir ::
  "'o test_lib \<Rightarrow> string \<Rightarrow> (string \<times> fs) list \<Rightarrow> err + bool \<Rightarrow> err + kobj harness \<times> kobj" where
  "FromDir L path es golden =
     (case readFile L path es ''input.yaml'' of
        Inl err \<Rightarrow> Inl err
      | Inr input \<Rightarrow>
          if length input \<noteq> 1 then Inl (Err (path @ ''/input.yaml does not include one input object''))
          else
            (case readFile L path es ''existing.yaml'' of
               Inl err \<Rightarrow> Inl err
             | Inr existing \<Rightarrow>
                 (case readFile L path es ''expected.yaml'' of
                    Inl err \<Rightarrow> Inl err
                  | Inr expected \<Rightarrow>
                      (case golden of
                         Inl err \<Rightarrow> Inl err
                       | Inr there \<Rightarrow>
                           Inr (\<lparr>hExisting = existing, hExpectedOutput = expected,
                                 hExpectedGoldenPath = (if \<not> there \<and> 0 < length expected then [] else path),
                                 hExpectedDelay = 0\<rparr>, input ! 0)))))"

section \<open>Running a handler\<close>

record objkey =
  hkGVK :: gvk
  hkNamespace :: string
  hkName :: string

datatype failure = DelayDiffers | GoldenDiffers | Unexpected objkey | Missing objkey | Mismatch objkey

record test_request =
  tqObject :: ref
  tqGVK :: gvk
  tqNamespace :: string
  tqName :: string
  tqKey :: string
  tqFromTrigger :: bool

record test_state =
  tsStore :: store
  tsClient :: test_client
  tsResp :: test_response

text \<open>
  \<open>hlYAML\<close> is the YAML of an object, of nil for \<open>None\<close>; \<open>hlGolden\<close> whether a text is that of the golden file of a
  directory. The copy of the input that the client holds is allocated at the address \<open>fresh\<close>.
\<close>

record harness_lib =
  hlGVK :: "kobj \<Rightarrow> err + gvk"
  hlTypeMeta :: "gvk \<Rightarrow> string \<times> string"
  hlYAML :: "kobj option \<Rightarrow> string"
  hlGolden :: "string \<Rightarrow> string \<Rightarrow> bool"

type_synonym test_handler = "test_request \<Rightarrow> test_state \<Rightarrow> err option \<times> test_state"

definition NewRequest ::
  "harness_lib \<Rightarrow> ref list \<Rightarrow> ref \<Rightarrow> ref \<Rightarrow> store \<Rightarrow> (test_request \<times> test_client \<times> store) option" where
  "NewRequest L existing input fresh h =
     (case hlGVK L (h input) of
        Inl err \<Rightarrow> None
      | Inr g \<Rightarrow>
          Some (\<lparr>tqObject = input, tqGVK = g, tqNamespace = Namespace (h input), tqName = Name (h input),
                 tqKey = tester_toKey (Namespace (h input)) (Name (h input)), tqFromTrigger = False\<rparr>,
                \<lparr>tcObjects = existing @ [fresh], tcCreated = [], tcUpdated = []\<rparr>, h(fresh := h input)))"

definition new_test_response :: test_response where
  "new_test_response = \<lparr>trDelay = 0, trCollected = [], trNoPrune = False\<rparr>"

definition set_gvk :: "harness_lib \<Rightarrow> ref \<Rightarrow> gvk \<Rightarrow> store \<Rightarrow> store" where
  "set_gvk L r g h = h(r := (h r)\<lparr>TypeMeta := hlTypeMeta L g\<rparr>)"

text \<open>Each object has its kind written into it, up to one that has none.\<close>

fun toObjectMap :: "harness_lib \<Rightarrow> ref list \<Rightarrow> (objkey, ref) gomap \<Rightarrow> store \<Rightarrow> (err + (objkey, ref) gomap) \<times> store" where
  "toObjectMap L [] result h = (Inr result, h)"
| "toObjectMap L (r # rs) result h =
     (case hlGVK L (h r) of
        Inl err \<Rightarrow> (Inl err, h)
      | Inr g \<Rightarrow>
          let h = set_gvk L r g h in
          toObjectMap L rs (AList.update \<lparr>hkGVK = g, hkNamespace = Namespace (h r), hkName = Name (h r)\<rparr> r result) h)"

text \<open>\<open>bufio.Scanner\<close>: lines without their ends, up to one that does not fit its buffer of 64 KiB.\<close>

definition scan_lines :: "string \<Rightarrow> string list" where
  "scan_lines s =
     (let ls = strings_Split s [CHR 10]; ls = (if last ls = [] then butlast ls else ls) in
      map (\<lambda>l. strings_TrimSuffix l [CHR 13]) (takeWhile (\<lambda>l. length l < 65536) ls))"

definition stripLastTransition :: "string \<Rightarrow> string" where
  "stripLastTransition buf =
     concat (map (\<lambda>line. line @ [CHR 10])
       (filter (\<lambda>line. \<not> strings_Contains line ''lastTransitionTime:'') (scan_lines buf)))"

fun sanitize :: "harness_lib \<Rightarrow> ref list \<Rightarrow> string list \<Rightarrow> store \<Rightarrow> (string list \<times> store) option" where
  "sanitize L [] yamls h = Some (yamls, h)"
| "sanitize L (r # rs) yamls h =
     (case hlGVK L (h r) of
        Inl err \<Rightarrow> None
      | Inr g \<Rightarrow>
          let h = set_gvk L r g h in
          sanitize L rs (yamls @ [stripLastTransition (hlYAML L (Some (h r)))]) h)"

definition SanitizedYAML :: "harness_lib \<Rightarrow> ref list \<Rightarrow> store \<Rightarrow> (string \<times> store) option" where
  "SanitizedYAML L objs h =
     (case sanitize L objs [] h of
        None \<Rightarrow> None
      | Some (yamls, h) \<Rightarrow> Some (strings_Join yamls [CHR 10, CHR ''-'', CHR ''-'', CHR ''-'', CHR 10], h))"

definition compare_object :: "harness_lib \<Rightarrow> store \<Rightarrow> (objkey, ref) gomap \<Rightarrow> (objkey, ref) gomap \<Rightarrow> objkey \<Rightarrow> failure list" where
  "compare_object L h expected collected k =
     (if map_of collected k = None then [Missing k] else []) @
     (let e = map_option h (map_of expected k); c = map_option h (map_of collected k) in
      if e = c then []
      else if stripLastTransition (hlYAML L e) \<noteq> stripLastTransition (hlYAML L c) then [Mismatch k] else [])"

definition compare_maps :: "harness_lib \<Rightarrow> store \<Rightarrow> (objkey, ref) gomap \<Rightarrow> (objkey, ref) gomap \<Rightarrow> failure list" where
  "compare_maps L h expected collected =
     map Unexpected (filter (\<lambda>k. map_of expected k = None) (map fst collected)) @
     concat (map (compare_object L h expected collected) (map fst expected))"

definition check_golden :: "harness_lib \<Rightarrow> ref harness \<Rightarrow> ref list \<Rightarrow> store \<Rightarrow> (failure list \<times> store) option" where
  "check_golden L b objs h =
     (if hExpectedGoldenPath b = [] then Some ([], h)
      else
        (case SanitizedYAML L objs h of
           None \<Rightarrow> None
         | Some (yamls, h) \<Rightarrow> Some (if hlGolden L (hExpectedGoldenPath b) yamls then [] else [GoldenDiffers], h)))"

definition Invoke ::
  "harness_lib \<Rightarrow> ref harness \<Rightarrow> ref \<Rightarrow> ref \<Rightarrow> test_handler \<Rightarrow> store \<Rightarrow> (failure list \<times> err option \<times> test_state) option" where
  "Invoke L b input fresh handler h =
     (case NewRequest L (hExisting b) input fresh h of
        None \<Rightarrow> None
      | Some (req, c, h) \<Rightarrow>
          (case handler req \<lparr>tsStore = h, tsClient = c, tsResp = new_test_response\<rparr> of
             (Some err, st) \<Rightarrow> Some ([], Some err, st)
           | (None, st) \<Rightarrow>
               (case toObjectMap L (hExpectedOutput b) [] (tsStore st) of
                  (Inl err, h) \<Rightarrow> Some ([], Some err, st\<lparr>tsStore := h\<rparr>)
                | (Inr expected, h) \<Rightarrow>
                    (case toObjectMap L (trCollected (tsResp st)) [] h of
                       (Inl err, h) \<Rightarrow> Some ([], Some err, st\<lparr>tsStore := h\<rparr>)
                     | (Inr collected, h) \<Rightarrow>
                         let f1 = (if hExpectedDelay b = trDelay (tsResp st) then [] else [DelayDiffers]) in
                         (case check_golden L b (trCollected (tsResp st)) h of
                            None \<Rightarrow> None
                          | Some (f2, h) \<Rightarrow>
                              if length (hExpectedOutput b) = 0 then Some (f1 @ f2, None, st\<lparr>tsStore := h\<rparr>)
                              else Some (f1 @ f2 @ compare_maps L h expected collected, None, st\<lparr>tsStore := h\<rparr>))))))"

section \<open>When a test passes\<close>

definition obj_key :: "harness_lib \<Rightarrow> kobj \<Rightarrow> objkey option" where
  "obj_key L x =
     (case hlGVK L x of
        Inl err \<Rightarrow> None
      | Inr g \<Rightarrow> Some \<lparr>hkGVK = g, hkNamespace = Namespace x, hkName = Name x\<rparr>)"

text \<open>The kind of a typed object comes from its Go type, not from what is written in it.\<close>

definition kind_by_type :: "harness_lib \<Rightarrow> bool" where
  "kind_by_type L \<longleftrightarrow> (\<forall>x tm. hlGVK L (x\<lparr>TypeMeta := tm\<rparr>) = hlGVK L x)"

definition last_with_key :: "harness_lib \<Rightarrow> store \<Rightarrow> ref list \<Rightarrow> objkey \<Rightarrow> ref option" where
  "last_with_key L h rs k = find (\<lambda>r. obj_key L (h r) = Some k) (rev rs)"

definition same_keys :: "harness_lib \<Rightarrow> store \<Rightarrow> store \<Rightarrow> bool" where
  "same_keys L h h' \<longleftrightarrow> (\<forall>r. obj_key L (h' r) = obj_key L (h r))"

lemma same_keys_trans: "same_keys L h h' \<Longrightarrow> same_keys L h' h'' \<Longrightarrow> same_keys L h h''"
  by (simp add: same_keys_def)

lemma last_with_key_same: "same_keys L h h' \<Longrightarrow> last_with_key L h' rs k = last_with_key L h rs k"
  by (simp add: last_with_key_def same_keys_def)

lemma same_keys_set_gvk: "kind_by_type L \<Longrightarrow> same_keys L h (set_gvk L r g h)"
  by (cases "hlTypeMeta L g") (simp add: same_keys_def set_gvk_def obj_key_def kind_by_type_def split: sum.split)

lemma toObjectMap_keys:
  assumes "kind_by_type L" and "toObjectMap L rs m h = (Inr m', h')"
  shows "same_keys L h h' \<and>
    map_of m' k = (case last_with_key L h rs k of None \<Rightarrow> map_of m k | Some r \<Rightarrow> Some r)"
  using assms(2)
proof (induction rs arbitrary: m h)
  case Nil
  then show ?case by (simp add: same_keys_def last_with_key_def)
next
  case (Cons r rs)
  then obtain g where g: "hlGVK L (h r) = Inr g"
    by (auto split: sum.splits)
  define h1 where "h1 = set_gvk L r g h"
  have s: "same_keys L h h1" unfolding h1_def using assms(1) by (rule same_keys_set_gvk)
  have key: "obj_key L (h r) = Some \<lparr>hkGVK = g, hkNamespace = Namespace (h1 r), hkName = Name (h1 r)\<rparr>"
    by (simp add: obj_key_def g h1_def set_gvk_def)
  from Cons.prems g have
    "toObjectMap L rs (AList.update \<lparr>hkGVK = g, hkNamespace = Namespace (h1 r), hkName = Name (h1 r)\<rparr> r m) h1 = (Inr m', h')"
    by (simp add: h1_def Let_def)
  from Cons.IH [OF this] have h': "same_keys L h1 h'"
    and m': "map_of m' k = (case last_with_key L h rs k of
        None \<Rightarrow> map_of (AList.update \<lparr>hkGVK = g, hkNamespace = Namespace (h1 r), hkName = Name (h1 r)\<rparr> r m) k | Some r \<Rightarrow> Some r)"
    by (simp_all add: last_with_key_same [OF s])
  have "last_with_key L h (r # rs) k = (case last_with_key L h rs k of
      None \<Rightarrow> if obj_key L (h r) = Some k then Some r else None | Some r \<Rightarrow> Some r)"
    by (simp add: last_with_key_def find_append split: option.split)
  with m' key same_keys_trans [OF s h'] show ?case by (auto split: option.splits)
qed

definition alike :: "harness_lib \<Rightarrow> store \<Rightarrow> ref option \<Rightarrow> ref option \<Rightarrow> bool" where
  "alike L h a b \<longleftrightarrow>
     (case (a, b) of
        (None, None) \<Rightarrow> True
      | (Some a, Some b) \<Rightarrow> h a = h b \<or>
          stripLastTransition (hlYAML L (Some (h a))) = stripLastTransition (hlYAML L (Some (h b)))
      | _ \<Rightarrow> False)"

lemma compare_maps_none:
  "compare_maps L h expected collected = [] \<longleftrightarrow> (\<forall>k. alike L h (map_of expected k) (map_of collected k))"
  (is "?L \<longleftrightarrow> ?R")
proof
  assume l: ?L
  show ?R
  proof
    fix k
    show "alike L h (map_of expected k) (map_of collected k)"
    proof (cases "map_of expected k")
      case None
      with l have "map_of collected k = None"
        by (force simp: compare_maps_def filter_empty_conv map_of_eq_None_iff)
      with None show ?thesis by (simp add: alike_def)
    next
      case (Some r)
      then have "k \<in> set (map fst expected)" by (force dest: map_of_SomeD)
      with l have "compare_object L h expected collected k = []" by (auto simp: compare_maps_def)
      with Some show ?thesis by (auto simp: compare_object_def alike_def Let_def split: if_splits)
    qed
  qed
next
  assume r: ?R
  have "map_of expected k \<noteq> None" if "k \<in> set (map fst collected)" for k
    using r [rule_format, of k] that
    by (force simp: alike_def map_of_eq_None_iff split: option.splits)
  moreover have "compare_object L h expected collected k = []" if "k \<in> set (map fst expected)" for k
  proof -
    from that obtain a where a: "map_of expected k = Some a" by (metis map_of_eq_None_iff not_None_eq set_map)
    with r [rule_format, of k] obtain c where "map_of collected k = Some c" by (auto simp: alike_def split: option.splits)
    with a r [rule_format, of k] show ?thesis by (auto simp: alike_def compare_object_def)
  qed
  ultimately show ?L by (auto simp: compare_maps_def filter_empty_conv)
qed


definition example_harness_lib :: harness_lib where
  "example_harness_lib = \<lparr>hlGVK = (\<lambda>x. Inr \<lparr>Group = [], Version = ''v1'', Kind = GoType x\<rparr>),
     hlTypeMeta = (\<lambda>g. (Version g, Kind g)), hlYAML = (\<lambda>x. []), hlGolden = (\<lambda>d s. True)\<rparr>"

definition collecting :: "ref list \<Rightarrow> test_handler" where
  "collecting rs req st = (None, st\<lparr>tsResp := Response_Objects rs (tsResp st)\<rparr>)"

definition expecting :: "ref list \<Rightarrow> ref harness" where
  "expecting rs = \<lparr>hExisting = [], hExpectedOutput = rs, hExpectedGoldenPath = [], hExpectedDelay = 0\<rparr>"


end
