(* ===== verification/Spec2Isabelle.thy ===== *)
theory Spec2Isabelle
  imports Nah_Prelude Memo Error_Lists Nah_Keys Go_Numbers Responder Kube_Object Object_Set Kube_Lib Kube_Examples Names_Maps
    Apply_Labels Apply_Compare Apply_Process Apply_Sets Apply_Trace Apply_Server Table_Server Apply_Converge Apply_Quiet
    Triggers Router_Client Router_Route Router_Handle Router_Loop Route_Builder Router_Start Router_Life Conditions Settings
    Cached_Client Cached_Runs Untriggered Work_Queue Queue_Delivery Queue_Rest Worker_Pool Shared_Handler Shared_Controller
    Rest_Mapper Webhook Watch_Retry Yaml_Export Test_Client Test_Harness
begin

text \<open>
  A verification library for \<open>nah\<close>, a library for Kubernetes controllers.

  \<^bold>\<open>The program.\<close> A router (pkg/router) keeps handlers for kinds of objects. A work queue per kind
  (pkg/runtime) delivers the keys of changed objects; for each key the handlers of the kind run on the object. Everything a
  handler reads or writes through its client subscribes it: a later change of what it touched triggers it again
  (trigger.go). A handler describes the objects it wants and the applier (pkg/apply) brings the cluster there: it stamps the
  wanted objects with their owner, compares them with what the owner has in the cluster, creates, patches, replaces and
  prunes. A caching client (cached.go) remembers recent writes so that reads from the informer's cache, which lags, do
  not go back in time.

  \<^bold>\<open>Foundations.\<close> \<open>Nah_Prelude\<close>: kinds, Go maps as association lists, strings, error values. \<open>Memo\<close>: the contract of a
  lookaside cache. \<open>Error_Lists\<close>: pkg/merr and the runtime's errors, the contract of a collector. \<open>Nah_Keys\<close>:
  the text forms of object keys (\<open>keyFunc\<close>, \<open>toKey\<close>, \<open>KeyParse\<close>, the prefixes of trigger and replay keys)
  and the contract of a codec. \<open>Go_Numbers\<close>: decimal text of integers. \<open>Names_Maps\<close>: pkg/name and pkg/typed.
  \<open>Kube_Object\<close>: JSON values and objects. \<open>Kube_Lib\<close>: everything the program takes from the Kubernetes libraries and Go's codecs, as the records \<open>lib\<close> (pure) and \<open>kube\<close> (operations on a world
  \<open>'w\<close>), arguments of every definition that uses them. \<open>Kube_Examples\<close>: concrete instances for the examples.

  \<^bold>\<open>Applier.\<close> \<open>Object_Set\<close>: pkg/apply/objectset. \<open>Apply_Labels\<close>: options, labels, annotations, hash and selector
  of an owner (apply.go, desiredset.go, desiredset_apply.go). \<open>Apply_Compare\<close>: recording, pruning and
  patching of one object, reconcilers (desiredset_compare.go, patch_style.go, reconcilers.go).
  \<open>Apply_Process\<close>: one kind and all kinds, owners (desiredset_process.go, desiredset_crud.go,
  desiredset_owner.go). \<open>Apply_Sets\<close>: what the plans contain. \<open>Apply_Trace\<close>: which calls reach the API
  server, through a client that keeps a log: what is deleted, whose objects are taken over, how owners are found.
  \<open>Apply_Server\<close>: the API server as a map from kinds and keys to objects and what is relied on of its documented behaviour, one law per
  call (\<open>api_server\<close>); what one create, update and delete of the applier do to that map. \<open>Apply_Converge\<close>: the
  composition, from the loops over keys and kinds to the apply: without an error the cluster is where the set wants it.
  \<open>Apply_Quiet\<close>: an apply that finds it there only reads. \<open>Table_Server\<close>: a server that obeys the laws, for the examples.

  \<^bold>\<open>Router.\<close> \<open>Triggers\<close>: trigger.go and matcher.go, with the loop of \<open>kick\<close> as a step relation between
  registrations, triggers and processing passes. \<open>Router_Client\<close>: client.go and \<open>WatchGVK\<close>. \<open>Router_Route\<close>:
  the handler chain a route builds, finalizers, responses (router.go, finalizer.go, response_wrapper.go); the contract
  of a filter. \<open>Responder\<close>: the contract of responses. \<open>Route_Builder\<close>: the builder's methods, with the array of
  middleware that its copies share, and how routes are registered. \<open>Router_Handle\<close>: handler.go, handlers.go, save.go:
  the rate limit of a key and its replays, one handling from key to saved object. \<open>Router_Loop\<close>: the passes of all
  handlers and the trigger loop together, as steps that interleave; a pass of the code is a run of them, and who has read an
  object is enqueued again after the object is handled. \<open>Router_Start\<close>: health, start and stop, get-or-create, leader election
  and its file lock. \<open>Router_Life\<close>: \<open>Start\<close>, the callbacks of the elector and the end of the context as steps.
  \<open>Conditions\<close>: pkg/conditions, the middleware that turns errors into a condition of the object.
  \<open>Settings\<close>: src/router.go, clients.go and the configurations of leader.go, that is how the parts are made, and the
  small packages restconfig, version, fields, urlbuilder, randomtoken, handlers.

  \<^bold>\<open>Runtime.\<close> \<open>Work_Queue\<close>: controller.go, operation by operation. \<open>Queue_Delivery\<close>, \<open>Queue_Rest\<close>: the controller at work, with the
  informer, the callers, the queues of client-go (a contract, \<open>queue_contract\<close>, and a queue that obeys it), the workers and the handler as
  interleaved steps: what is asked for is handled after it was asked for, with the object as it is, one pass per key at
  a time, and without failing passes the work ends. \<open>Worker_Pool\<close>: its \<open>runWorkers\<close>, loops, workers and main thread as a
  step relation, with the bound on the workers and the end after a shutdown. \<open>Shared_Handler\<close>: sharedhandler.go,
  as values and as the array that a pass shares with a removal. \<open>Shared_Controller\<close>: sharedcontroller.go, sharedcontrollerfactory.go,
  transaction.go, errorcontroller.go and the start, watch and trigger operations of backend.go.
  \<open>Cached_Client\<close>: cached.go, its operations as the steps of one relation; \<open>Cached_Runs\<close>: its calls, its accesses to the
  remembered writes and its purges interleaved over time, and that a client reads its own writes. \<open>Untriggered\<close>: the wrappers of pkg/untriggered
  and what reading through them leaves alone. Below: a trigger's way
  through router, backend, shared controller and queue to the pass that serves it.

  \<^bold>\<open>Beside them.\<close> \<open>Rest_Mapper\<close>: pkg/mapper, the cached lookups of kinds and resources. \<open>Webhook\<close>: pkg/webhook, the routes of
  an admission webhook. \<open>Watch_Retry\<close>: pkg/watcher, refined to a reader of the server's log. \<open>Yaml_Export\<close>: pkg/data and
  pkg/yaml, untyped maps and the export of objects. \<open>Test_Client\<close>, \<open>Test_Harness\<close>: pkg/router/tester, the client
  over a store of pointers, refined to a table, and the comparison of what a handler collected with what was expected.

  \<^bold>\<open>How code becomes definitions.\<close> A method is a function of the same name on the state of its receiver, returned
  updated; an error result is \<open>err option\<close> or the left of a sum; a panic is \<open>None\<close> of an outer option where the
  code can meet one (nil handlers, nil lists, closed channels). Locked sections are atomic; what runs between them, other
  goroutines' sections, is a step of the relations \<open>trigger_step\<close>, \<open>backoff_step\<close>, \<open>pool_step\<close>, \<open>tee_step\<close>, \<open>outside_step\<close> and \<open>work_step\<close>. A range
  over a Go map goes through the association list in its order; where the order could matter a lemma shows that it does not.
  Pointers are values, except where sharing is what a property is about: the caller's objects under \<open>ensure\<close>, the
  arrays of handlers and of middleware, the store of shared controllers, the objects of the test client. Every definition
  computes, but for the comparison of whole objects in the test harness; no fuel is used: a loop follows a list or a value, and the two that wait for the outside, \<open>retry_loop\<close> and
  \<open>wait_loop\<close>, are \<^theory_text>\<open>partial_function (option)\<close> with theorems that they return. Times and
  delays are integers (of nanoseconds or seconds, never added beyond their range), counters of identifiers are 64 bit words.

  \<^bold>\<open>Interfaces.\<close> The locales are the contracts components rely on: \<open>memo\<close> (merge styles, the table of controllers,
  the four caches of the REST mapper), \<open>error_collector\<close> (merr, errorList), \<open>key_codec\<close> (router and queue keys),
  \<open>responder\<close> (the router's responses and that of the test harness),
  \<open>gate\<close> and \<open>two_gates\<close> (the filters), \<open>queue_splitter\<close>; each is interpreted on the code's model.

  \<^bold>\<open>Not modelled.\<close> The Kubernetes libraries, codecs, hashes and file access (parameters); goroutines beyond the step
  relations; the HTTP server, log output and tracing; methods that only forward to the backend
  or panic as not supported; the search for a REST configuration in files (a parameter); values made by
  reflection (\<open>typed.New\<close>); code generation (cmd/deepcopy, pkg/deepcopy).
\<close>

section \<open>A trigger's way\<close>

lemma on_real_controller:
  assumes "scController s = Some (RealController q l)"
  shows "shared_EnqueueKeyAfter deferred key d s =
    s\<lparr>scController := Some (RealController (EnqueueKeyAfter key d q) l)\<rparr>"
  using assms by (simp add: shared_EnqueueKeyAfter_def on_controller_def initController_def ctl_EnqueueKeyAfter_def)

text \<open>A trigger reaches the handlers as what it is: the backend puts the key of the target with the trigger prefix in
  the queue of its kind; the worker hands it on without reading the cache; and there it is taken for a
  trigger, which the rate limit does not hold back, of exactly the object with that namespace and name.\<close>

theorem trigger_travels:
  assumes "plain_key ns n" and "fControllers f g = Some p" and "fStore f p = Some s"
    and "scController s = Some (RealController q l)" and "workqueues q = Some qs"
  defines "sent \<equiv> TriggerPrefix @ toKey ns n"
  shows "(\<exists>f' s' q'. Backend_Trigger deferred g (toKey ns n) delay f = (None, f') \<and>
      fStore f' p = Some s' \<and> scController s' = Some (RealController q' l) \<and>
      workqueues q' = Some (push (qsplitter q) sent (QAddAfter sent delay) qs)) \<and>
    syncHandler cacheGet handle sent w = handle sent None w \<and>
    key_origin_of sent = \<lparr>fromTrigger = True, fromReplay = False, originKey = toKey ns n\<rparr> \<and>
    cut_key (originKey (key_origin_of sent)) = (ns, n)"
proof (intro conjI)
  have plain: "CHR '' '' \<notin> set (toKey ns n)"
    using plain_keyFunc [OF assms(1)] by (simp add: writers_agree)
  show "\<exists>f' s' q'. Backend_Trigger deferred g (toKey ns n) delay f = (None, f') \<and>
      fStore f' p = Some s' \<and> scController s' = Some (RealController q' l) \<and>
      workqueues q' = Some (push (qsplitter q) sent (QAddAfter sent delay) qs)"
    using assms(2-5) by (simp add: Backend_Trigger_def ForKind_def on_real_controller EnqueueKeyAfter_def sent_def)
  show "syncHandler cacheGet handle sent w = handle sent None w"
    by (simp add: syncHandler_def sent_def)
  show origin: "key_origin_of sent = \<lparr>fromTrigger = True, fromReplay = False, originKey = toKey ns n\<rparr>"
    unfolding sent_def by (rule key_origin_of_trigger [OF plain])
  show "cut_key (originKey (key_origin_of sent)) = (ns, n)"
    using assms(1) by (simp add: origin cut_key_toKey plain_key_def)
qed

definition one_kind :: "nat factory" where
  "one_kind = (NewSharedControllerFactory 10 0 (\<lambda>_. None))\<lparr>fControllers := [cm_gvk \<mapsto> 0], fStore := [0 \<mapsto> running_controller]\<rparr>"

theorem trigger_travels_witness:
  "\<exists>f' s' q' l. Backend_Trigger (\<lambda>_. Inl ErrReplace) cm_gvk ''ns/a'' 0 one_kind = (None, f') \<and> fStore f' 0 = Some s' \<and>
     scController s' = Some (RealController q' l) \<and> workqueues q' = Some [[QAddAfter ''_t ns/a'' 0]]"
proof -
  let ?l = "\<lparr>lfStarted = True, lfInformer = True, lfRegistration = True, lfAttached = True\<rparr>"
  have "\<exists>f' s' q'. Backend_Trigger (\<lambda>_. Inl ErrReplace) cm_gvk (toKey ''ns'' ''a'') 0 one_kind = (None, f') \<and>
      fStore f' 0 = Some s' \<and> scController s' = Some (RealController q' ?l) \<and>
      workqueues q' = Some (push singleWorkerQueueSplitter (TriggerPrefix @ toKey ''ns'' ''a'')
        (QAddAfter (TriggerPrefix @ toKey ''ns'' ''a'') 0) [[]])"
    using trigger_travels [of "''ns''" "''a''" one_kind cm_gvk 0 running_controller "run_start (new_controller None)" ?l "[[]]",
        where deferred = "\<lambda>_. Inl ErrReplace" and delay = 0, THEN conjunct1]
    by (simp add: one_kind_def running_controller_def run_start_def new_controller_def singleWorkerQueueSplitter_def
        plain_key_def no_slash_def Let_def)
  then show ?thesis
    by (auto simp: push_def singleWorkerQueueSplitter_def toKey_def TriggerPrefix_def)
qed



end
